(* ===== verification/Pico_Prelude.thy ===== *)
theory Pico_Prelude
  imports Main "HOL-Library.Word"
begin

text \<open>
  Shared vocabulary of the development: the machine integers of the firmware, the faults a
  C program can run into, byte buffers with checked accesses, and C strings.

  A C object is the list of its bytes. Reading or writing outside the list is not a value of
  the program, so the access functions return a \<open>fault\<close> on the left of a sum; every model
  that dereferences memory threads that sum with \<open>bindE\<close>. Lists that stand for automatic
  variables without initialiser are arguments of the models (the bytes that happen to be on
  the stack).
\<close>

unbundle bit_operations_syntax

named_theorems ub_simps \<open>unfolding rules for checked accesses\<close>

section \<open>Machine integers\<close>

type_synonym u8 = "8 word"
type_synonym u16 = "16 word"
type_synonym u32 = "32 word"
type_synonym u64 = "64 word"
type_synonym bytes = "u8 list"

text \<open>The four bytes of a 32-bit object in memory (the RP2040 is little endian) and in
  network order.\<close>

definition le_bytes :: "u32 \<Rightarrow> bytes" where
  "le_bytes w = [ucast w, ucast (drop_bit 8 w), ucast (drop_bit 16 w), ucast (drop_bit 24 w)]"

definition le_word :: "bytes \<Rightarrow> u32" where
  "le_word bs = foldr (\<lambda>b w. push_bit 8 w OR ucast b) bs 0"

definition be_bytes :: "u32 \<Rightarrow> bytes" where
  "be_bytes w = rev (le_bytes w)"

section \<open>Faults and checked computations\<close>

datatype fault =
    Out_Of_Bounds      \<comment> \<open>access outside an object\<close>
  | Null_Deref         \<comment> \<open>access through a null pointer\<close>
  | Invalid_Free       \<comment> \<open>\<open>free\<close> of something that is not a live heap block\<close>
  | Division_By_Zero
  | Uninitialised      \<comment> \<open>use of an indeterminate pointer\<close>
  | Assert_Failed

type_synonym 'a ub = "fault + 'a"

fun bindE :: "'a ub \<Rightarrow> ('a \<Rightarrow> 'b ub) \<Rightarrow> 'b ub" where
  "bindE (Inl f) k = Inl f"
| "bindE (Inr x) k = k x"

text \<open>Computations that may also never come back: \<open>Inr None\<close>.\<close>

type_synonym 'a run = "'a option ub"

fun bindO :: "'a run \<Rightarrow> ('a \<Rightarrow> 'b run) \<Rightarrow> 'b run" where
  "bindO (Inl f) k = Inl f"
| "bindO (Inr None) k = Inr None"
| "bindO (Inr (Some x)) k = k x"

definition doneE :: "'a ub \<Rightarrow> 'a run" where
  "doneE m = bindE m (\<lambda>x. Inr (Some x))"

definition assertE :: "bool \<Rightarrow> unit ub" where
  "assertE b = (if b then Inr () else Inl Assert_Failed)"

definition is_ok :: "'a ub \<Rightarrow> bool" where
  "is_ok r = (case r of Inl _ \<Rightarrow> False | Inr _ \<Rightarrow> True)"

section \<open>Byte buffers\<close>

definition buf_get :: "'a list \<Rightarrow> nat \<Rightarrow> 'a ub" where
  "buf_get xs i = (if i < length xs then Inr (xs ! i) else Inl Out_Of_Bounds)"

definition buf_put :: "'a list \<Rightarrow> nat \<Rightarrow> 'a \<Rightarrow> 'a list ub" where
  "buf_put xs i x = (if i < length xs then Inr (xs[i := x]) else Inl Out_Of_Bounds)"

text \<open>\<open>overlay dst off src\<close> is \<open>dst\<close> with \<open>src\<close> written over it at \<open>off\<close>;
  \<open>memcpy\<close> is the checked library call copying \<open>n\<close> bytes from the start of
  \<open>src\<close>, \<open>slice\<close> reads \<open>n\<close> bytes.\<close>

definition overlay :: "'a list \<Rightarrow> nat \<Rightarrow> 'a list \<Rightarrow> 'a list" where
  "overlay dst off src = take off dst @ src @ drop (off + length src) dst"

definition slice :: "'a list \<Rightarrow> nat \<Rightarrow> nat \<Rightarrow> 'a list" where
  "slice xs off n = take n (drop off xs)"

definition memcpy :: "'a list \<Rightarrow> nat \<Rightarrow> 'a list \<Rightarrow> nat \<Rightarrow> 'a list ub" where
  "memcpy dst off src n =
     (if off + n \<le> length dst \<and> n \<le> length src
      then Inr (overlay dst off (take n src)) else Inl Out_Of_Bounds)"

text \<open>\<open>memcmp a b n = 0\<close>, the only use the sources make of the call.\<close>

definition memcmp_eq :: "bytes \<Rightarrow> bytes \<Rightarrow> nat \<Rightarrow> bool ub" where
  "memcmp_eq a b n =
     (if n \<le> length a \<and> n \<le> length b then Inr (take n a = take n b) else Inl Out_Of_Bounds)"

section \<open>C strings\<close>

text \<open>The characters of a literal, without and with its terminator.\<close>

definition chars :: "string \<Rightarrow> bytes" where
  "chars s = map (\<lambda>c. of_char c) s"

definition literal :: "string \<Rightarrow> bytes" where
  "literal s = chars s @ [0]"

text \<open>\<open>c_str buf\<close> is the string that starts at the beginning of \<open>buf\<close>: the bytes before
  the first zero. A buffer without a zero is no string.\<close>

definition c_str :: "bytes \<Rightarrow> bytes ub" where
  "c_str buf = (if 0 \<in> set buf then Inr (takeWhile (\<lambda>b. b \<noteq> 0) buf) else Inl Out_Of_Bounds)"

definition strlen :: "bytes \<Rightarrow> nat ub" where
  "strlen buf = bindE (c_str buf) (\<lambda>s. Inr (length s))"

text \<open>\<open>strcmp a b = 0\<close>.\<close>

definition strcmp_eq :: "bytes \<Rightarrow> bytes \<Rightarrow> bool ub" where
  "strcmp_eq a b = bindE (c_str a) (\<lambda>s. bindE (c_str b) (\<lambda>t. Inr (s = t)))"

text \<open>\<open>strncpy dst src n\<close> copies at most \<open>n\<close> characters and pads with zeros up to
  \<open>n\<close>.\<close>

definition strncpy :: "bytes \<Rightarrow> bytes \<Rightarrow> nat \<Rightarrow> bytes ub" where
  "strncpy dst src n =
     (let s = takeWhile (\<lambda>b. b \<noteq> 0) (take n src) in
      if n \<le> length dst \<and> (n \<le> length src \<or> 0 \<in> set src)
      then Inr (overlay dst 0 (s @ replicate (n - length s) 0)) else Inl Out_Of_Bounds)"

text \<open>A fixed-size char array initialised from a string literal: the rest is zero.\<close>

definition char_array :: "nat \<Rightarrow> string \<Rightarrow> bytes" where
  "char_array n s = chars s @ replicate (n - length s) 0"

section \<open>Lemmas\<close>

lemma bindE_eq_Inr [simp]: "bindE m k = Inr y \<longleftrightarrow> (\<exists>x. m = Inr x \<and> k x = Inr y)"
  by (cases m) auto

lemma doneE_Inr [simp]: "doneE (Inr x) = Inr (Some x)"
  by (simp add: doneE_def)

lemma doneE_Inl [simp]: "doneE (Inl f) = Inl f"
  by (simp add: doneE_def)

lemma bindO_eq_Some: "bindO m k = Inr (Some y) \<longleftrightarrow> (\<exists>x. m = Inr (Some x) \<and> k x = Inr (Some y))"
  by (cases "(m, k)" rule: bindO.cases) auto

lemma bindE_eq_Inl: "bindE m k = Inl f \<longleftrightarrow> m = Inl f \<or> (\<exists>x. m = Inr x \<and> k x = Inl f)"
  by (cases m) auto

lemma bindE_assoc: "bindE (bindE m k) h = bindE m (\<lambda>x. bindE (k x) h)"
  by (cases m) auto

lemma bindE_Inr [simp]: "bindE m Inr = m"
  by (cases m) auto

lemma is_ok_iff: "is_ok r \<longleftrightarrow> (\<exists>x. r = Inr x)"
  by (cases r) (auto simp: is_ok_def)

lemma is_ok_Inr [simp]: "is_ok (Inr x)"
  by (simp add: is_ok_def)

lemma is_ok_Inl [simp]: "\<not> is_ok (Inl x)"
  by (simp add: is_ok_def)

lemma buf_get_ok [simp]: "i < length xs \<Longrightarrow> buf_get xs i = Inr (xs ! i)"
  by (simp add: buf_get_def)

lemma buf_get_oob [simp]: "length xs \<le> i \<Longrightarrow> buf_get xs i = Inl Out_Of_Bounds"
  by (simp add: buf_get_def)

lemma buf_get_Inr_iff: "buf_get xs i = Inr x \<longleftrightarrow> i < length xs \<and> x = xs ! i"
  by (auto simp: buf_get_def)

lemma buf_put_ok [simp]: "i < length xs \<Longrightarrow> buf_put xs i x = Inr (xs[i := x])"
  by (simp add: buf_put_def)

lemma buf_put_Inr_iff: "buf_put xs i x = Inr ys \<longleftrightarrow> i < length xs \<and> ys = xs[i := x]"
  by (auto simp: buf_put_def)

lemma length_overlay [simp]: "off + length src \<le> length dst \<Longrightarrow> length (overlay dst off src) = length dst"
  by (simp add: overlay_def)

lemma overlay_nth:
  assumes "off + length src \<le> length dst" and "i < length dst"
  shows "overlay dst off src ! i =
    (if off \<le> i \<and> i < off + length src then src ! (i - off) else dst ! i)"
proof -
  have "min (length dst) off = off" using assms by simp
  then show ?thesis using assms by (auto simp: overlay_def nth_append)
qed

lemma slice_overlay_same:
  assumes "off + length src \<le> length dst"
  shows "slice (overlay dst off src) off (length src) = src"
  using assms by (simp add: slice_def overlay_def)

lemma slice_overlay_before:
  assumes "off + length src \<le> length dst" and "k + n \<le> off"
  shows "slice (overlay dst off src) k n = slice dst k n"
  using assms by (intro nth_equalityI) (auto simp: slice_def overlay_nth)

lemma slice_overlay_after:
  assumes "off + length src \<le> length dst" and "off + length src \<le> k"
  shows "slice (overlay dst off src) k n = slice dst k n"
  using assms by (intro nth_equalityI) (auto simp: slice_def overlay_nth)

lemma slice_overlay_prefix:
  assumes "off + length src \<le> length dst" and "length src \<le> n"
  shows "slice (overlay dst off src) off n = src @ drop (length src) (slice dst off n)"
proof -
  have "drop off (overlay dst off src) = src @ drop (length src) (drop off dst)"
    using assms(1) by (simp add: overlay_def add.commute)
  then show ?thesis using assms(2) unfolding slice_def by (simp add: drop_take)
qed

lemma length_slice [simp]: "off + n \<le> length xs \<Longrightarrow> length (slice xs off n) = n"
  by (simp add: slice_def)

lemma slice_nth: "off + n \<le> length xs \<Longrightarrow> i < n \<Longrightarrow> slice xs off n ! i = xs ! (off + i)"
  by (simp add: slice_def)

lemma slice_slice: "k + n \<le> m \<Longrightarrow> slice (slice xs off m) k n = slice xs (off + k) n"
  by (simp add: slice_def take_drop add.commute min_def)

lemma memcpy_ok: "off + n \<le> length dst \<Longrightarrow> n \<le> length src \<Longrightarrow>
    memcpy dst off src n = Inr (overlay dst off (take n src))"
  by (simp add: memcpy_def)

lemma memcpy_fresh: "n \<le> length src \<Longrightarrow> memcpy (replicate n x) 0 src n = Inr (take n src)"
  by (simp add: memcpy_def overlay_def)

lemma memcpy_Inr_iff: "memcpy dst off src n = Inr r \<longleftrightarrow>
    off + n \<le> length dst \<and> n \<le> length src \<and> r = overlay dst off (take n src)"
  by (auto simp: memcpy_def)

lemma memcpy_length: "memcpy dst off src n = Inr r \<Longrightarrow> length r = length dst"
  by (auto simp: memcpy_Inr_iff)

lemma c_str_Inr_iff: "c_str buf = Inr s \<longleftrightarrow> 0 \<in> set buf \<and> s = takeWhile (\<lambda>b. b \<noteq> 0) buf"
  by (auto simp: c_str_def)

lemma c_str_append_zero [simp]: "0 \<notin> set s \<Longrightarrow> c_str (s @ 0 # rest) = Inr s"
  by (simp add: c_str_def, subst takeWhile_append2) auto

lemma c_str_no_zero: "c_str buf = Inr s \<Longrightarrow> 0 \<notin> set s"
  by (auto simp: c_str_Inr_iff dest: set_takeWhileD)

lemma c_str_length_less: "c_str buf = Inr s \<Longrightarrow> length s < length buf"
proof -
  assume "c_str buf = Inr s"
  then have z: "0 \<in> set buf" and s: "s = takeWhile (\<lambda>b. b \<noteq> 0) buf"
    by (auto simp: c_str_Inr_iff)
  have "s \<noteq> buf" using z s by (metis (mono_tags, lifting) takeWhile_eq_all_conv)
  then show ?thesis
    by (metis (no_types, lifting) length_takeWhile_le nat_less_le s
        takeWhile_eq_take take_all)
qed

lemma length_chars [simp]: "length (chars s) = length s"
  by (simp add: chars_def)

lemma of_char_u8_inj: "(of_char c :: u8) = of_char d \<longleftrightarrow> c = d"
proof
  assume eq: "(of_char c :: u8) = of_char d"
  have "unat (of_char x :: u8) = of_char x" for x :: char
    using nat_of_char_less_256 [of x]
    by (simp add: of_nat_of_char [where ?'a = u8, symmetric] unat_of_nat)
  then have "(of_char c :: nat) = of_char d" using eq by metis
  then show "c = d" by simp
qed simp

lemma chars_inj [simp]: "chars a = chars b \<longleftrightarrow> a = b"
proof -
  have "inj (of_char :: char \<Rightarrow> u8)" by (simp add: inj_def of_char_u8_inj)
  then show ?thesis by (simp add: chars_def inj_map_eq_map)
qed

lemma zero_in_chars: "0 \<in> set (chars s) \<longleftrightarrow> CHR 0x00 \<in> set s"
proof -
  have "(of_char c :: u8) = 0 \<longleftrightarrow> c = CHR 0x00" for c
    using of_char_u8_inj [of c "CHR 0x00"] by simp
  then show ?thesis by (force simp: chars_def)
qed

lemma length_literal [simp]: "length (literal s) = Suc (length s)"
  by (simp add: literal_def)

lemma length_le_bytes [simp]: "length (le_bytes w) = 4"
  by (simp add: le_bytes_def)

lemma length_be_bytes [simp]: "length (be_bytes w) = 4"
  by (simp add: be_bytes_def)

lemma le_word_le_bytes [simp]: "le_word (le_bytes w) = w"
proof (rule bit_word_eqI)
  fix n assume "n < LENGTH(32)"
  then consider "n < 8" | "8 \<le> n" "n < 16" | "16 \<le> n" "n < 24" | "24 \<le> n" "n < 32"
    by fastforce
  then show "bit (le_word (le_bytes w)) n = bit w n"
    by cases (auto simp: le_word_def le_bytes_def bit_simps)
qed

lemma bit_u8_high: "8 \<le> n \<Longrightarrow> \<not> bit (a :: u8) n"
  using bit_imp_le_length [of a n] by auto

lemma le_bytes_le_word: "length bs = 4 \<Longrightarrow> le_bytes (le_word bs) = bs"
proof -
  assume "length bs = 4"
  then obtain a b c d where bs: "bs = [a, b, c, d]"
    by (auto simp: numeral_eq_Suc length_Suc_conv)
  show ?thesis unfolding bs le_bytes_def le_word_def
    by (auto intro!: bit_word_eqI simp: bit_simps bit_u8_high)
qed

lemma le_bytes_inj: "le_bytes a = le_bytes b \<longleftrightarrow> a = b"
  by (metis le_word_le_bytes)

lemmas [ub_simps] = memcpy_def buf_get_def buf_put_def c_str_def strlen_def strcmp_eq_def
  memcmp_eq_def assertE_def

lemma sint_neg_u32: "sint (w :: u32) < 0 \<longleftrightarrow> 2147483648 \<le> unat w"
proof -
  have "sint w < 0 \<longleftrightarrow> bit w 31" by (simp add: sint_uint bit_uint_iff signed_take_bit_negative_iff)
  also have "\<dots> \<longleftrightarrow> bit (unat w) 31" by (simp add: bit_unsigned_iff)
  also have "\<dots> \<longleftrightarrow> odd (unat w div 2147483648)" by (simp add: bit_iff_odd)
  also have "\<dots> \<longleftrightarrow> 2147483648 \<le> unat w"
  proof -
    have "unat w < 2 ^ LENGTH(32)" by (rule unsigned_less)
    then have "unat w div 2147483648 = (if 2147483648 \<le> unat w then 1 else 0)"
      by (auto simp: div_nat_eqI)
    then show ?thesis by simp
  qed
  finally show ?thesis .
qed

lemma push_or_ffff: "push_bit 16 (ucast (e :: u16)) OR 0xffff = (of_nat (unat e * 65536 + 65535) :: u32)"
proof -
  have m: "(0xffff :: u32) = mask 16" by (simp add: mask_numeral)
  have "push_bit 16 (ucast e) AND (0xffff :: u32) = 0"
    unfolding m by (rule bit_word_eqI) (auto simp: bit_simps)
  then have o: "push_bit 16 (ucast e) OR (0xffff :: u32) = push_bit 16 (ucast e) + 0xffff"
    by (rule disjunctive_add_eq_or [symmetric])
  have p: "push_bit 16 (ucast e) = (of_nat (unat e * 65536) :: u32)"
    by (simp add: push_bit_eq_mult)
  show ?thesis using o unfolding p by simp
qed

lemma unat_top_half: "unat (ucast (drop_bit 16 (T :: u32)) :: u16) = unat T div 65536"
proof -
  have "unat T < 2 ^ LENGTH(32)" by (rule unsigned_less)
  then have "unat T div 65536 < 65536" by simp
  moreover have "unat (drop_bit 16 T) = unat T div 65536"
    by (simp add: drop_bit_eq_div unat_div_distrib)
  ultimately show ?thesis by (simp only: unsigned_ucast_eq take_bit_eq_mod) simp
qed
section \<open>Runs of a component\<close>

text \<open>A component that reacts to events: feeding it a list of events, collecting what it
  emits, stopping at a fault.\<close>

fun runE :: "('e \<Rightarrow> 's \<Rightarrow> ('o \<times> 's) ub) \<Rightarrow> 'e list \<Rightarrow> 's \<Rightarrow> ('o list \<times> 's) ub" where
  "runE step [] s = Inr ([], s)"
| "runE step (e # es) s =
     bindE (step e s) (\<lambda>(out, s1). bindE (runE step es s1) (\<lambda>(outs, s2). Inr (out # outs, s2)))"

lemma runE_Cons_Inr:
  "runE step (e # es) s = Inr (outs, s') \<longleftrightarrow>
     (\<exists>o1 s1 os. step e s = Inr (o1, s1) \<and> runE step es s1 = Inr (os, s') \<and> outs = o1 # os)"
  by auto

lemma runE_append:
  "runE step (as @ bs) s =
     bindE (runE step as s) (\<lambda>(o1, s1). bindE (runE step bs s1) (\<lambda>(o2, s2). Inr (o1 @ o2, s2)))"
proof (induction as arbitrary: s)
  case Nil
  show ?case by (cases "runE step bs s") auto
next
  case (Cons e as)
  show ?case
    by (cases "step e s") (auto simp: Cons.IH bindE_assoc split_beta' intro!: arg_cong2 [of _ _ _ _ bindE])
qed

text \<open>Two contracts of a reactive component. A component that keeps an invariant on
  admissible events, whenever it does not fault; and one that in addition never faults on
  them. Components below are instances, and what holds of their runs is proved here once.\<close>

locale preserving =
  fixes step :: "'e \<Rightarrow> 's \<Rightarrow> ('o \<times> 's) ub"
    and ok :: "'e \<Rightarrow> bool"
    and inv :: "'s \<Rightarrow> bool"
  assumes step_inv: "inv s \<Longrightarrow> ok e \<Longrightarrow> step e s = Inr (out, s') \<Longrightarrow> inv s'"
begin

lemma run_inv: "inv s \<Longrightarrow> list_all ok es \<Longrightarrow> runE step es s = Inr (outs, s') \<Longrightarrow> inv s'"
proof (induction es arbitrary: s outs)
  case (Cons e es)
  then obtain o1 s1 os where st: "step e s = Inr (o1, s1)" and "runE step es s1 = Inr (os, s')"
    by auto
  moreover have "inv s1" using Cons.prems(1,2) st step_inv by auto
  ultimately show ?case using Cons.IH Cons.prems(2) by auto
qed simp

end

locale reactive = preserving +
  assumes step_safe: "inv s \<Longrightarrow> ok e \<Longrightarrow> \<exists>out s'. step e s = Inr (out, s')"
begin

lemma run_safe: "inv s \<Longrightarrow> list_all ok es \<Longrightarrow> \<exists>outs s'. runE step es s = Inr (outs, s') \<and> inv s'"
proof (induction es arbitrary: s)
  case (Cons e es)
  then have ok: "ok e" "list_all ok es" by auto
  obtain out s1 where step: "step e s = Inr (out, s1)"
    using step_safe [OF Cons.prems(1) ok(1)] by blast
  have "inv s1" by (rule step_inv [OF Cons.prems(1) ok(1) step])
  from Cons.IH [OF this ok(2)] obtain outs s' where "runE step es s1 = Inr (outs, s')" "inv s'"
    by blast
  with step show ?case by simp
qed simp

end

section \<open>Decimal digits\<close>

text \<open>The decimal representation of a number, as characters.\<close>

fun decimal :: "nat \<Rightarrow> bytes" where
  "decimal n = (if n < 10 then [48 + of_nat n] else decimal (n div 10) @ [48 + of_nat (n mod 10)])"

declare decimal.simps [simp del]

lemma unat_u8_bound: "unat (b :: u8) \<le> 255"
proof -
  have "unat b < 2 ^ LENGTH(8)" by (rule unsigned_less)
  then show ?thesis by simp
qed

lemma unat_digit: "k < 10 \<Longrightarrow> unat (48 + of_nat k :: u8) = 48 + k"
  by (simp add: unat_word_ariths unat_of_nat)

end
