(* ===== verification/C_Float.thy ===== *)
theory C_Float
  imports Pico_Prelude Complex_Main
begin

text \<open>
  The single-precision arithmetic the sensor drivers use, and the conversions of \<open>printf\<close>.

  A finite value is a sign, a mantissa and a binary scale: \<open>m / 2^k\<close>. Every operation is exact
  followed by one rounding to 24 significant bits, ties to even. The values of the drivers lie
  between \<open>2^-30\<close> and \<open>2^16\<close>, or are zero, so that subnormal numbers, overflow and the special
  values do not arise.
\<close>

section \<open>Values\<close>

datatype fl = Fl (fl_neg: bool) (fl_mant: nat) (fl_scale: nat)

definition fl_signed :: "fl \<Rightarrow> int" where
  "fl_signed x = (if fl_neg x then - int (fl_mant x) else int (fl_mant x))"

definition fl_val :: "fl \<Rightarrow> real" where
  "fl_val x = real_of_int (fl_signed x) / 2 ^ fl_scale x"

fun bitlen :: "nat \<Rightarrow> nat" where
  "bitlen n = (if n = 0 then 0 else Suc (bitlen (n div 2)))"

declare bitlen.simps [simp del]

text \<open>Division with rounding to the nearest, ties to even.\<close>

definition div_even :: "nat \<Rightarrow> nat \<Rightarrow> nat" where
  "div_even m d = (let q = m div d; r = m mod d in
     if 2 * r < d then q else if 2 * r > d then q + 1 else if even q then q else q + 1)"

definition fl_round :: "bool \<Rightarrow> nat \<Rightarrow> nat \<Rightarrow> fl" where
  "fl_round n m k =
    (if m < 2 ^ 24 then Fl n m k
     else let s = bitlen m - 24; q = div_even m (2 ^ s)
          in if s \<le> k then Fl n q (k - s) else Fl n (q * 2 ^ (s - k)) 0)"

definition fl_of_int :: "int \<Rightarrow> fl" where
  "fl_of_int i = fl_round (i < 0) (nat \<bar>i\<bar>) 0"

definition fl_minus :: "fl \<Rightarrow> fl" where
  "fl_minus x = Fl (\<not> fl_neg x) (fl_mant x) (fl_scale x)"

definition fl_mult :: "fl \<Rightarrow> fl \<Rightarrow> fl" where
  "fl_mult x y = fl_round (fl_neg x \<noteq> fl_neg y) (fl_mant x * fl_mant y) (fl_scale x + fl_scale y)"

definition fl_plus :: "fl \<Rightarrow> fl \<Rightarrow> fl" where
  "fl_plus x y =
    (let s = fl_signed x * 2 ^ fl_scale y + fl_signed y * 2 ^ fl_scale x
     in fl_round (if s = 0 then fl_neg x \<and> fl_neg y else s < 0) (nat \<bar>s\<bar>) (fl_scale x + fl_scale y))"

text \<open>Division by a power of two.\<close>

definition fl_shift :: "fl \<Rightarrow> nat \<Rightarrow> fl" where
  "fl_shift x n = fl_round (fl_neg x) (fl_mant x) (fl_scale x + n)"

text \<open>The constant \<open>0.1f\<close>.\<close>

definition fl_tenth :: fl where
  "fl_tenth = Fl False 13421773 27"

section \<open>Printing\<close>

text \<open>The conversion \<open>%.2f\<close>: the exact value in hundredths, rounded to the nearest, ties to even.\<close>

definition fmt2 :: "fl \<Rightarrow> bytes" where
  "fmt2 x = (let h = div_even (100 * fl_mant x) (2 ^ fl_scale x) in
     (if fl_neg x then [45] else []) @ decimal (h div 100) @ [46] @
     [48 + of_nat (h div 10 mod 10), 48 + of_nat (h mod 10)])"

text \<open>\<open>snprintf\<close> with an already expanded text: at most \<open>size - 1\<close> characters and the
  terminator; the rest of the buffer stays.\<close>

definition snprintf :: "bytes \<Rightarrow> nat \<Rightarrow> bytes \<Rightarrow> bytes ub" where
  "snprintf str n s =
    (if n = 0 then Inr str
     else let t = take (n - 1) s @ [0] in
       if length t \<le> length str then Inr (overlay str 0 t) else Inl Out_Of_Bounds)"

section \<open>Lemmas\<close>

lemma div_even_error:
  assumes "0 < d"
  shows "\<bar>2 * (int (div_even m d) * int d - int m)\<bar> \<le> int d"
proof -
  let ?q = "m div d" and ?r = "m mod d"
  have m: "int m = int ?q * int d + int ?r"
    by (metis div_mult_mod_eq of_nat_add of_nat_mult)
  have r: "?r < d" using assms by simp
  have dec: "div_even m d = ?q \<and> 2 * ?r \<le> d \<or> div_even m d = ?q + 1 \<and> d \<le> 2 * ?r"
    by (auto simp: div_even_def Let_def)
  then show ?thesis
  proof
    assume "div_even m d = ?q \<and> 2 * ?r \<le> d"
    then show ?thesis using m by simp
  next
    assume a: "div_even m d = ?q + 1 \<and> d \<le> 2 * ?r"
    then have "int (div_even m d) * int d - int m = int d - int ?r" using m by (simp add: distrib_right)
    then show ?thesis using a r by simp
  qed
qed

lemma div_even_exact: "0 < d \<Longrightarrow> div_even (q * d) d = q"
  by (simp add: div_even_def)

lemma bitlen_bounds: "0 < n \<Longrightarrow> 2 ^ (bitlen n - 1) \<le> n \<and> n < 2 ^ bitlen n \<and> 0 < bitlen n"
proof (induction n rule: bitlen.induct)
  case (1 n)
  show ?case
  proof (cases "n div 2 = 0")
    case True
    then have "n = 1" using "1.prems" by auto
    then show ?thesis by (simp add: bitlen.simps)
  next
    case False
    then have IH: "2 ^ (bitlen (n div 2) - 1) \<le> n div 2" "n div 2 < 2 ^ bitlen (n div 2)" "0 < bitlen (n div 2)"
      using 1 by auto
    have b: "bitlen n = Suc (bitlen (n div 2))" using "1.prems" by (subst bitlen.simps) simp
    obtain j where j: "bitlen (n div 2) = Suc j" using IH(3) gr0_implies_Suc by blast
    have "2 * x \<le> n \<and> n < 4 * x" if "x \<le> n div 2" "n div 2 < 2 * x" for x
      using that by presburger
    from this [of "2 ^ j"] show ?thesis using IH unfolding b j by simp
  qed
qed

text \<open>A rounded result is off by at most one part in \<open>2^24\<close>.\<close>

lemma fl_round_val:
  "\<bar>\<bar>fl_val (fl_round n m k)\<bar> - real m / 2 ^ k\<bar> \<le> real m / 2 ^ k / 2 ^ 24"
proof (cases "m < 2 ^ 24")
  case True
  then show ?thesis by (simp add: fl_round_def fl_val_def fl_signed_def)
next
  case False
  define s where "s = bitlen m - 24"
  define q where "q = div_even m (2 ^ s)"
  have m0: "0 < m" using False by (metis gr0I zero_less_numeral zero_less_power)
  have "24 < bitlen m"
  proof (rule ccontr)
    assume "\<not> 24 < bitlen m"
    then have "(2 :: nat) ^ bitlen m \<le> 2 ^ 24" by (intro power_increasing) auto
    then show False using bitlen_bounds [OF m0] False by linarith
  qed
  then have "bitlen m - 1 = 23 + s" by (simp add: s_def)
  then have lo: "2 ^ (23 + s) \<le> m" using bitlen_bounds [OF m0] by metis
  have val: "\<bar>fl_val (fl_round n m k)\<bar> = real q * 2 ^ s / 2 ^ k"
  proof (cases "s \<le> k")
    case True
    then have "(2::real) ^ k = 2 ^ (k - s) * 2 ^ s" by (metis le_add_diff_inverse2 power_add)
    then show ?thesis using False True
      by (auto simp: fl_round_def fl_val_def fl_signed_def Let_def s_def [symmetric] q_def [symmetric])
  next
    case F: False
    then have "(2::real) ^ s = 2 ^ (s - k) * 2 ^ k" by (metis le_add_diff_inverse2 nat_le_linear power_add)
    then show ?thesis using False F
      by (auto simp: fl_round_def fl_val_def fl_signed_def Let_def s_def [symmetric] q_def [symmetric])
  qed
  have "\<bar>2 * (int q * int (2 ^ s) - int m)\<bar> \<le> int (2 ^ s)"
    unfolding q_def by (rule div_even_error) simp
  then have "\<bar>real_of_int (2 * (int q * int (2 ^ s) - int m))\<bar> \<le> real_of_int (int (2 ^ s))"
    by (metis of_int_abs of_int_le_iff)
  then have "\<bar>2 * (real q * 2 ^ s - real m)\<bar> \<le> 2 ^ s" by simp
  then have e: "\<bar>real q * 2 ^ s - real m\<bar> \<le> 2 ^ s / 2" unfolding abs_mult by simp
  have "real (2 ^ (23 + s)) \<le> real m" using lo by (metis of_nat_le_iff)
  then have "(2::real) ^ s / 2 \<le> real m / 2 ^ 24" by (simp add: power_add field_simps)
  then have "\<bar>real q * 2 ^ s - real m\<bar> / 2 ^ k \<le> real m / 2 ^ 24 / 2 ^ k"
    using e by (intro divide_right_mono) auto
  moreover have "\<bar>real q * 2 ^ s / 2 ^ k - real m / 2 ^ k\<bar> = \<bar>real q * 2 ^ s - real m\<bar> / 2 ^ k"
    by (simp add: diff_divide_distrib [symmetric])
  ultimately show ?thesis unfolding val by (simp add: field_simps)
qed

lemma fl_neg_round [simp]: "fl_neg (fl_round n m k) = n"
  by (simp add: fl_round_def Let_def)

lemma fl_round_small: "m < 2 ^ 24 \<Longrightarrow> fl_round n m k = Fl n m k"
  by (simp add: fl_round_def)

lemma div_even_near:
  assumes "0 < d" and "\<bar>real m / real d - real h\<bar> < 1 / 2"
  shows "div_even m d = h"
proof -
  let ?q = "div_even m d"
  have "\<bar>real_of_int (2 * (int ?q * int d - int m))\<bar> \<le> real_of_int (int d)"
    using div_even_error [OF assms(1), of m] by (metis of_int_abs of_int_le_iff)
  then have "\<bar>2 * (real ?q * real d - real m)\<bar> \<le> real d" by simp
  then have "\<bar>real ?q * real d - real m\<bar> \<le> real d / 2" unfolding abs_mult by simp
  moreover have "real ?q * real d - real m = real d * (real ?q - real m / real d)"
    using assms(1) by (simp add: field_simps)
  ultimately have "real d * \<bar>real ?q - real m / real d\<bar> \<le> real d * (1 / 2)" by (simp add: abs_mult)
  then have "\<bar>real ?q - real m / real d\<bar> \<le> 1 / 2" using assms(1) by simp
  then have "\<bar>real ?q - real h\<bar> < 1" using assms(2) by linarith
  then show ?thesis by linarith
qed

text \<open>A value within half a hundredth of \<open>h / 100\<close> prints as that.\<close>

definition hundredths :: "nat \<Rightarrow> bytes" where
  "hundredths h = decimal (h div 100) @ [46, 48 + of_nat (h div 10 mod 10), 48 + of_nat (h mod 10)]"

lemma fmt2_near:
  assumes "\<not> fl_neg x" and "\<bar>fl_val x - real h / 100\<bar> < 1 / 200"
  shows "fmt2 x = hundredths h"
proof -
  have v: "fl_val x = real (fl_mant x) / 2 ^ fl_scale x" using assms(1) by (simp add: fl_val_def fl_signed_def)
  have "\<bar>100 * (fl_val x - real h / 100)\<bar> < 1 / 2" using assms(2) unfolding abs_mult by simp
  then have "\<bar>real (100 * fl_mant x) / real (2 ^ fl_scale x) - real h\<bar> < 1 / 2"
    unfolding v by (simp add: right_diff_distrib)
  then have "div_even (100 * fl_mant x) (2 ^ fl_scale x) = h" by (intro div_even_near) auto
  then show ?thesis using assms(1) by (simp add: fmt2_def Let_def hundredths_def)
qed

lemma snprintf_ok:
  assumes "length str = n" and "length s < n"
  shows "snprintf str n s = Inr (s @ 0 # drop (length s + 1) str)"
  using assms by (simp add: snprintf_def Let_def overlay_def)

lemma fl_val_nonneg: "\<not> fl_neg x \<Longrightarrow> 0 \<le> fl_val x"
  by (simp add: fl_val_def fl_signed_def)

lemma fl_round_error:
  "\<bar>fl_val (fl_round False m k) - real m / 2 ^ k\<bar> \<le> real m / 2 ^ k / 2 ^ 24"
proof -
  have "0 \<le> fl_val (fl_round False m k)" by (rule fl_val_nonneg) simp
  then show ?thesis using fl_round_val [of False m k] by simp
qed

lemma fl_mult_error:
  assumes "\<not> fl_neg x" and "\<not> fl_neg y"
  shows "\<not> fl_neg (fl_mult x y)" and "\<bar>fl_val (fl_mult x y) - fl_val x * fl_val y\<bar> \<le> fl_val x * fl_val y / 2 ^ 24"
proof -
  have "fl_val x * fl_val y = real (fl_mant x * fl_mant y) / 2 ^ (fl_scale x + fl_scale y)"
    using assms by (simp add: fl_val_def fl_signed_def power_add)
  moreover have "fl_mult x y = fl_round False (fl_mant x * fl_mant y) (fl_scale x + fl_scale y)"
    using assms by (simp add: fl_mult_def)
  ultimately show "\<bar>fl_val (fl_mult x y) - fl_val x * fl_val y\<bar> \<le> fl_val x * fl_val y / 2 ^ 24"
    using fl_round_error [of "fl_mant x * fl_mant y" "fl_scale x + fl_scale y"] by simp
qed (use assms in \<open>simp add: fl_mult_def\<close>)

lemma fl_plus_error:
  assumes "\<not> fl_neg x" and "\<not> fl_neg y"
  shows "\<not> fl_neg (fl_plus x y)" and "\<bar>fl_val (fl_plus x y) - (fl_val x + fl_val y)\<bar> \<le> (fl_val x + fl_val y) / 2 ^ 24"
proof -
  let ?s = "fl_mant x * 2 ^ fl_scale y + fl_mant y * 2 ^ fl_scale x"
  have s: "fl_signed x * 2 ^ fl_scale y + fl_signed y * 2 ^ fl_scale x = int ?s"
    using assms by (simp add: fl_signed_def)
  have p: "fl_plus x y = fl_round False ?s (fl_scale x + fl_scale y)"
  proof -
    have "fl_round (if int t = 0 then False else int t < 0) (nat \<bar>int t\<bar>) k = fl_round False t k" for t k by simp
    then show ?thesis unfolding fl_plus_def Let_def s using assms(1) by presburger
  qed
  have "fl_val x + fl_val y = real ?s / 2 ^ (fl_scale x + fl_scale y)"
    using assms by (simp add: fl_val_def fl_signed_def power_add field_simps)
  then show "\<bar>fl_val (fl_plus x y) - (fl_val x + fl_val y)\<bar> \<le> (fl_val x + fl_val y) / 2 ^ 24"
    using p fl_round_error [of ?s "fl_scale x + fl_scale y"] by simp
  show "\<not> fl_neg (fl_plus x y)" using p by simp
qed

lemma fl_of_int_exact:
  assumes "\<bar>i\<bar> < 2 ^ 24"
  shows "fl_of_int i = Fl (i < 0) (nat \<bar>i\<bar>) 0" and "fl_val (fl_of_int i) = real_of_int i"
proof -
  have "nat \<bar>i\<bar> < 2 ^ 24" using assms by simp
  then show e: "fl_of_int i = Fl (i < 0) (nat \<bar>i\<bar>) 0" by (simp add: fl_of_int_def fl_round_small)
  show "fl_val (fl_of_int i) = real_of_int i" by (simp add: e fl_val_def fl_signed_def)
qed

lemma fl_of_nat:
  assumes "n < 2 ^ 24"
  shows "fl_of_int (int n) = Fl False n 0" and "fl_val (fl_of_int (int n)) = real n" and "\<not> fl_neg (fl_of_int (int n))"
  using assms fl_of_int_exact [of "int n"] by simp_all

text \<open>The constant is the representable number nearest to a tenth.\<close>

lemma fl_tenth_near: "\<bar>fl_val fl_tenth - 1 / 10\<bar> \<le> 1 / 2 ^ 28"
  by (simp add: fl_tenth_def fl_val_def fl_signed_def)

subsection \<open>The printed text\<close>

lemma digit_not_zero: "k < 10 \<Longrightarrow> (48 + of_nat k :: u8) \<noteq> 0"
  by (metis add_is_0 unat_0 unat_digit zero_neq_numeral)

lemma decimal_no_zero: "0 \<notin> set (decimal n)"
proof (induction n rule: decimal.induct)
  case (1 n)
  then show ?case by (subst decimal.simps) (use digit_not_zero [of n] digit_not_zero [of "n mod 10"] in auto)
qed

lemma decimal_length: "n < 10 ^ Suc k \<Longrightarrow> length (decimal n) \<le> Suc k"
proof (induction k arbitrary: n)
  case 0
  then show ?case by (simp add: decimal.simps)
next
  case (Suc k)
  have "n div 10 < 10 ^ Suc k" using Suc.prems by (simp add: less_mult_imp_div_less mult.commute)
  with Suc.IH [of "n div 10"] show ?case by (subst decimal.simps) auto
qed

lemma fmt2_no_zero: "0 \<notin> set (fmt2 x)"
  using digit_not_zero [THEN not_sym] decimal_no_zero by (simp add: fmt2_def Let_def)

lemma hundredths_no_zero: "0 \<notin> set (hundredths h)"
  using digit_not_zero [THEN not_sym] decimal_no_zero by (simp add: hundredths_def)

lemma hundredths_length: "h < 100000 \<Longrightarrow> length (hundredths h) \<le> 6"
  using decimal_length [of "h div 100" 2] by (simp add: hundredths_def)

lemma fmt2_length:
  assumes "fl_mant x \<le> n * 2 ^ fl_scale x" "n < 9999"
  shows "length (fmt2 x) \<le> 8"
proof -
  let ?d = "2 ^ fl_scale x :: nat"
  have "100 * fl_mant x \<le> (100 * n) * ?d" using assms(1) by simp
  then have "100 * fl_mant x div ?d \<le> 100 * n" by (metis div_le_mono nonzero_mult_div_cancel_right power_not_zero zero_neq_numeral)
  moreover have "div_even m d \<le> m div d + 1" for m d by (simp add: div_even_def Let_def)
  ultimately have "div_even (100 * fl_mant x) ?d \<le> 100 * n + 1" by (meson add_le_mono1 le_trans)
  then have "div_even (100 * fl_mant x) ?d div 100 < 10 ^ Suc 3" using assms(2) by simp
  from decimal_length [OF this] show ?thesis by (simp add: fmt2_def Let_def)
qed

end
