(* ===== verification/Dht.thy ===== *)
theory Dht
  imports C_Float
begin

text \<open>
  \<open>src/dht_pio/dht.c\<close>: the driver of the humidity and temperature sensor.

  The state machine program and the DMA channel are hardware: the operations on them are
  collected in order, and what the driver reads of them (whether the channel is busy, the clock,
  the five bytes it delivered) is an argument. The two timing constants of the generated program
  header are arguments too.
\<close>

section \<open>Model\<close>

datatype dht_model_t = DHT11 | DHT12 | DHT21 | DHT22

datatype dht_result_t = DHT_RESULT_OK | DHT_RESULT_TIMEOUT | DHT_RESULT_BAD_CHECKSUM

definition PIO_SM_CLOCK_FREQUENCY :: nat where "PIO_SM_CLOCK_FREQUENCY = 1000000"
definition DHT_LONG_PULSE_THRESHOLD_US :: nat where "DHT_LONG_PULSE_THRESHOLD_US = 50"
definition DHT_MEASUREMENT_TIMEOUT_US :: u32 where "DHT_MEASUREMENT_TIMEOUT_US = 6000"

text \<open>\<open>sm_on\<close> is the state machine's bit in the control register.\<close>

record dht_t =
  pio :: "nat option"
  model :: dht_model_t
  pio_program_offset :: u8
  sm :: u8
  dma_chan :: u8
  data_pin :: u8
  data :: bytes
  start_time :: u32
  sm_on :: bool

datatype dht_hw =
    Dma_Configure u8 nat          \<comment> \<open>channel and number of bytes, triggered\<close>
  | Dma_Abort u8
  | Dma_Unclaim u8
  | Sm_Init u8
  | Sm_Put nat
  | Sm_Pindirs bool
  | Sm_Pull
  | Sm_Mov_Y
  | Sm_Enable bool
  | Sm_Unclaim u8
  | Remove_Program u8
  | Gpio_Init u8 bool

definition get_start_pulse_duration_us :: "dht_model_t \<Rightarrow> u32" where
  "get_start_pulse_duration_us m = (if m = DHT21 \<or> m = DHT22 then 1000 else 18000)"

text \<open>\<open>roundf\<close> of a non-negative value: nearest integer, ties away from zero.\<close>

definition roundf :: "fl \<Rightarrow> nat" where
  "roundf x = (2 * fl_mant x + 2 ^ fl_scale x) div (2 * 2 ^ fl_scale x)"

definition get_pio_sm_clocks :: "nat \<Rightarrow> nat" where
  "get_pio_sm_clocks us =
    (let clocks_per_microsecond = fl_of_int (int (PIO_SM_CLOCK_FREQUENCY div 1000000))
     in roundf (fl_mult (fl_of_int (int us)) clocks_per_microsecond))"

definition dht_program_init :: "nat \<Rightarrow> nat \<Rightarrow> u8 \<Rightarrow> dht_model_t \<Rightarrow> dht_hw list" where
  "dht_program_init start_loop pulse_loop s m =
    [Sm_Init s,
     Sm_Put (get_pio_sm_clocks (unat (get_start_pulse_duration_us m) div start_loop)),
     Sm_Put (get_pio_sm_clocks (DHT_LONG_PULSE_THRESHOLD_US div pulse_loop)),
     Sm_Pindirs True, Sm_Pull, Sm_Mov_Y, Sm_Pull, Sm_Enable True]"

definition configure_dma_channel :: "u8 \<Rightarrow> dht_hw list" where
  "configure_dma_channel chan = [Dma_Configure chan 5]"

abbreviation fl_byte :: "u8 \<Rightarrow> fl" where
  "fl_byte b \<equiv> fl_of_int (int (unat b))"

definition decode_temperature :: "dht_model_t \<Rightarrow> u8 \<Rightarrow> u8 \<Rightarrow> fl" where
  "decode_temperature m b0 b1 =
    (case m of
       DHT11 \<Rightarrow>
         if b1 AND 0x80 \<noteq> 0 then fl_of_int 0
         else fl_plus (fl_byte b0) (fl_mult fl_tenth (fl_byte (b1 AND 0x7F)))
     | DHT12 \<Rightarrow>
         (let t = fl_plus (fl_byte b0) (fl_mult fl_tenth (fl_byte (b1 AND 0x7F)))
          in if b1 AND 0x80 \<noteq> 0 then fl_minus t else t)
     | _ \<Rightarrow>
         (let t = fl_mult fl_tenth (fl_of_int (int (unat (b0 AND 0x7F) * 256 + unat b1)))
          in if b0 AND 0x80 \<noteq> 0 then fl_minus t else t))"

definition decode_humidity :: "dht_model_t \<Rightarrow> u8 \<Rightarrow> u8 \<Rightarrow> fl" where
  "decode_humidity m b0 b1 =
    (case m of
       DHT11 \<Rightarrow> fl_plus (fl_byte b0) (fl_mult fl_tenth (fl_byte b1))
     | DHT12 \<Rightarrow> fl_plus (fl_byte b0) (fl_mult fl_tenth (fl_byte b1))
     | _ \<Rightarrow> fl_mult fl_tenth (fl_of_int (int (unat b0 * 256 + unat b1))))"

text \<open>\<open>offset0\<close>, \<open>sm0\<close>, \<open>chan0\<close>: what claiming the program memory, a state machine and a
  channel gives.\<close>

definition dht_init :: "dht_model_t \<Rightarrow> nat \<Rightarrow> u8 \<Rightarrow> bool \<Rightarrow> u8 \<times> u8 \<times> u8 \<Rightarrow> (dht_t \<times> dht_hw list) ub" where
  "dht_init m p pin pull_up = (\<lambda>(offset0, sm0, chan0).
    bindE (assertE (p = 0 \<or> p = 1)) (\<lambda>_.
      Inr (\<lparr> pio = Some p, model = m, pio_program_offset = offset0, sm = sm0, dma_chan = chan0,
             data_pin = pin, data = replicate 5 0, start_time = 0, sm_on = False \<rparr>,
           [Gpio_Init pin pull_up])))"

definition dht_deinit :: "dht_t \<Rightarrow> (dht_t \<times> dht_hw list) ub" where
  "dht_deinit d =
    bindE (assertE (pio d \<noteq> None)) (\<lambda>_.
      Inr (d\<lparr>pio := None, sm_on := False\<rparr>,
           [Dma_Abort (dma_chan d), Dma_Unclaim (dma_chan d), Sm_Enable False, Sm_Pindirs False,
            Sm_Unclaim (sm d), Remove_Program (pio_program_offset d)]))"

definition dht_start_measurement :: "nat \<Rightarrow> nat \<Rightarrow> u32 \<Rightarrow> dht_t \<Rightarrow> (dht_t \<times> dht_hw list) ub" where
  "dht_start_measurement start_loop pulse_loop now d =
    bindE (assertE (pio d \<noteq> None)) (\<lambda>_.
    bindE (assertE (\<not> sm_on d)) (\<lambda>_.
      Inr (d\<lparr>data := replicate 5 0, start_time := now, sm_on := True\<rparr>,
           configure_dma_channel (dma_chan d) @ dht_program_init start_loop pulse_loop (sm d) (model d))))"

text \<open>The polling loop on what it sees in each round: whether the channel is busy, and the clock.
  \<open>None\<close>: still waiting at the end of the list.\<close>

fun dht_wait :: "u32 \<Rightarrow> u32 \<Rightarrow> (bool \<times> u32) list \<Rightarrow> unit option" where
  "dht_wait start timeout [] = None"
| "dht_wait start timeout ((busy, now) # xs) =
    (if busy \<and> now - start < timeout then dht_wait start timeout xs else Some ())"

record dht_env =
  polls :: "(bool \<times> u32) list"
  busy_after :: bool
  received :: bytes               \<comment> \<open>what the channel has written\<close>

definition dht_checksum :: "bytes \<Rightarrow> u8" where
  "dht_checksum bs = bs ! 0 + bs ! 1 + bs ! 2 + bs ! 3"

definition dht_finish_measurement_blocking ::
  "dht_env \<Rightarrow> dht_t \<Rightarrow> ((dht_result_t \<times> (fl \<times> fl) option) \<times> dht_t \<times> dht_hw list) option ub" where
  "dht_finish_measurement_blocking env d =
    bindE (assertE (pio d \<noteq> None)) (\<lambda>_.
    bindE (assertE (sm_on d)) (\<lambda>_.
      (let timeout = get_start_pulse_duration_us (model d) + DHT_MEASUREMENT_TIMEOUT_US in
       case dht_wait (start_time d) timeout (polls env) of
         None \<Rightarrow> Inr None
       | Some _ \<Rightarrow>
          (let d1 = d\<lparr>data := received env, sm_on := False\<rparr>; hw = [Sm_Enable False, Sm_Pindirs False] in
           if busy_after env then Inr (Some ((DHT_RESULT_TIMEOUT, None), d1, hw @ [Dma_Abort (dma_chan d)]))
           else if data d1 ! 4 \<noteq> dht_checksum (data d1)
           then Inr (Some ((DHT_RESULT_BAD_CHECKSUM, None), d1, hw))
           else Inr (Some ((DHT_RESULT_OK,
                  Some (decode_humidity (model d) (data d1 ! 0) (data d1 ! 1),
                        decode_temperature (model d) (data d1 ! 2) (data d1 ! 3))), d1, hw))))))"

section \<open>Lemmas\<close>

lemma get_pio_sm_clocks_eq: "us < 2 ^ 24 \<Longrightarrow> get_pio_sm_clocks us = us"
proof -
  assume u: "us < 2 ^ 24"
  have "fl_of_int 1 = Fl False 1 0" "fl_of_int (int us) = Fl False us 0"
    using u fl_of_int_exact(1) [of 1] fl_of_int_exact(1) [of "int us"] by simp_all
  then show ?thesis using u
    by (simp add: get_pio_sm_clocks_def PIO_SM_CLOCK_FREQUENCY_def fl_mult_def fl_round_small roundf_def)
qed

text \<open>A whole number of degrees and tenths.\<close>

lemma fl_byte_exact: "fl_val (fl_byte b) = real (unat b)" "\<not> fl_neg (fl_byte b)"
proof -
  have "unat b < 2 ^ 24" using unat_u8_bound [of b] by simp
  then show "fl_val (fl_byte b) = real (unat b)" "\<not> fl_neg (fl_byte b)" by (rule fl_of_nat)+
qed

lemma tenth_times_error:
  assumes "\<not> fl_neg x" and "fl_val x = real n" and "n \<le> 65535"
  shows "\<not> fl_neg (fl_mult fl_tenth x)" "\<bar>fl_val (fl_mult fl_tenth x) - real n / 10\<bar> \<le> real n / 10000000"
proof -
  let ?t = "fl_val fl_tenth"
  have t: "\<not> fl_neg fl_tenth" "0 \<le> ?t" by (simp_all add: fl_tenth_def fl_val_def fl_signed_def)
  show "\<not> fl_neg (fl_mult fl_tenth x)" by (rule fl_mult_error(1) [OF t(1) assms(1)])
  have m: "\<bar>fl_val (fl_mult fl_tenth x) - ?t * real n\<bar> \<le> ?t * real n / 2 ^ 24"
    using fl_mult_error(2) [OF t(1) assms(1)] assms(2) by simp
  have d: "\<bar>?t * real n - real n / 10\<bar> \<le> real n / 2 ^ 28"
  proof -
    have "?t * real n - real n / 10 = (?t - 1 / 10) * real n" by (simp add: algebra_simps)
    then have "\<bar>?t * real n - real n / 10\<bar> = \<bar>?t - 1 / 10\<bar> * real n" by (simp add: abs_mult)
    then show ?thesis using mult_right_mono [OF fl_tenth_near, of "real n"] by simp
  qed
  have "?t * real n / 2 ^ 24 \<le> real n / 2 ^ 26"
  proof -
    have "?t \<le> 1 / 4" by (simp add: fl_tenth_def fl_val_def fl_signed_def)
    then have "?t * real n \<le> real n / 4" using mult_right_mono [of ?t "1 / 4" "real n"] by simp
    then show ?thesis by simp
  qed
  then show "\<bar>fl_val (fl_mult fl_tenth x) - real n / 10\<bar> \<le> real n / 10000000"
    using m d unfolding abs_le_iff by (auto simp: field_simps)
qed

lemma sum_tenth_error:
  shows "\<not> fl_neg (fl_plus (fl_byte b0) (fl_mult fl_tenth (fl_byte b1)))"
    and "\<bar>fl_val (fl_plus (fl_byte b0) (fl_mult fl_tenth (fl_byte b1))) - (real (unat b0) + real (unat b1) / 10)\<bar> < 1 / 10000"
proof -
  let ?x = "fl_byte b0" and ?y = "fl_mult fl_tenth (fl_byte b1)"
  have u: "unat b0 \<le> 255" "unat b1 \<le> 255" by (rule unat_u8_bound)+
  have y: "\<not> fl_neg ?y" "\<bar>fl_val ?y - real (unat b1) / 10\<bar> \<le> real (unat b1) / 10000000"
    using tenth_times_error [OF fl_byte_exact(2) fl_byte_exact(1), of b1] u by auto
  show "\<not> fl_neg (fl_plus ?x ?y)" by (rule fl_plus_error(1) [OF fl_byte_exact(2) y(1)])
  have "\<bar>fl_val (fl_plus ?x ?y) - (real (unat b0) + fl_val ?y)\<bar> \<le> (real (unat b0) + fl_val ?y) / 2 ^ 24"
    using fl_plus_error(2) [OF fl_byte_exact(2) y(1), of b0] fl_byte_exact(1) [of b0] by simp
  moreover have "real n \<le> 255" if "n \<le> 255" for n using that by simp
  then have "real (unat b0) \<le> 255" "real (unat b1) \<le> 255" using u by blast+
  ultimately show "\<bar>fl_val (fl_plus ?x ?y) - (real (unat b0) + real (unat b1) / 10)\<bar> < 1 / 10000"
    using y(2) unfolding abs_le_iff abs_less_iff by auto
qed

lemma sum_tenth_prints:
  "fmt2 (fl_plus (fl_byte b0) (fl_mult fl_tenth (fl_byte b1))) = hundredths (100 * unat b0 + 10 * unat b1)"
proof (rule fmt2_near)
  have r: "real (100 * m + 10 * n) / 100 = real m + real n / 10" for m n by simp
  show "\<bar>fl_val (fl_plus (fl_byte b0) (fl_mult fl_tenth (fl_byte b1))) - real (100 * unat b0 + 10 * unat b1) / 100\<bar> < 1 / 200"
    unfolding r using sum_tenth_error(2) [of b0 b1] by linarith
qed (rule sum_tenth_error(1))

lemma tenth_times_prints:
  assumes "n \<le> 32767"
  shows "fmt2 (fl_mult fl_tenth (fl_of_int (int n))) = hundredths (10 * n)" "\<not> fl_neg (fl_mult fl_tenth (fl_of_int (int n)))"
proof -
  have n: "n < 2 ^ 24" "n \<le> 65535" "real n \<le> 32767" using assms by simp_all
  note e = tenth_times_error [OF fl_of_nat(3) [OF n(1)] fl_of_nat(2) [OF n(1)] n(2)]
  show "\<not> fl_neg (fl_mult fl_tenth (fl_of_int (int n)))" by (rule e(1))
  have r: "real (10 * n) / 100 = real n / 10" by simp
  show "fmt2 (fl_mult fl_tenth (fl_of_int (int n))) = hundredths (10 * n)"
  proof (rule fmt2_near [OF e(1)])
    show "\<bar>fl_val (fl_mult fl_tenth (fl_of_int (int n))) - real (10 * n) / 100\<bar> < 1 / 200"
      unfolding r using e(2) n(3) by linarith
  qed
qed

lemma fmt2_minus: "\<not> fl_neg x \<Longrightarrow> fmt2 (fl_minus x) = 45 # fmt2 x"
  by (simp add: fmt2_def fl_minus_def Let_def)

lemma dht_wait_iff:
  "dht_wait start timeout ps = Some () \<longleftrightarrow> (\<exists>(busy, now) \<in> set ps. \<not> busy \<or> \<not> now - start < timeout)"
  by (induction ps) auto

section \<open>Properties\<close>

text \<open>The readings print exactly. With the two-decimal conversion the single-precision results of
  every sensor model show the tenths the sensor sent, with no trace of the rounding of \<open>0.1f\<close>.\<close>

theorem dht_prints_exactly:
  "(m = DHT11 \<or> m = DHT12 \<longrightarrow> fmt2 (decode_humidity m b0 b1) = hundredths (100 * unat b0 + 10 * unat b1)) \<and>
   (m = DHT21 \<or> m = DHT22 \<longrightarrow> unat b0 < 128 \<longrightarrow>
      fmt2 (decode_humidity m b0 b1) = hundredths (10 * (unat b0 * 256 + unat b1))) \<and>
   (m = DHT11 \<longrightarrow> fmt2 (decode_temperature m b0 b1) =
      hundredths (if b1 AND 0x80 \<noteq> 0 then 0 else 100 * unat b0 + 10 * unat (b1 AND 0x7F))) \<and>
   (m = DHT12 \<longrightarrow> fmt2 (decode_temperature m b0 b1) =
      (if b1 AND 0x80 \<noteq> 0 then [45] else []) @ hundredths (100 * unat b0 + 10 * unat (b1 AND 0x7F))) \<and>
   (m = DHT21 \<or> m = DHT22 \<longrightarrow> fmt2 (decode_temperature m b0 b1) =
      (if b0 AND 0x80 \<noteq> 0 then [45] else []) @ hundredths (10 * (unat (b0 AND 0x7F) * 256 + unat b1)))"
proof -
  have b1: "unat b1 \<le> 255" by (rule unat_u8_bound)
  have "b0 AND 0x7F \<le> 0x7F" by (rule word_and_le1)
  then have b7: "unat (b0 AND 0x7F) \<le> 127" by (simp add: word_le_nat_alt)
  have zero: "fmt2 (fl_of_int 0) = hundredths 0"
    using fl_of_int_exact(1) [of 0] by (simp add: fmt2_def hundredths_def div_even_def Let_def)
  have n: "unat (b0 AND 0x7F) * 256 + unat b1 \<le> 32767" "unat b0 < 128 \<Longrightarrow> unat b0 * 256 + unat b1 \<le> 32767"
    using b1 b7 by simp_all
  note dec = decode_humidity_def decode_temperature_def Let_def dht_model_t.case
  have h1: "fmt2 (decode_humidity m b0 b1) = hundredths (100 * unat b0 + 10 * unat b1)" if "m = DHT11 \<or> m = DHT12"
    using that by (auto simp only: dec sum_tenth_prints)
  have h2: "fmt2 (decode_humidity m b0 b1) = hundredths (10 * (unat b0 * 256 + unat b1))"
    if "m = DHT21 \<or> m = DHT22" "unat b0 < 128"
    using that by (auto simp only: dec tenth_times_prints(1) [OF n(2)])
  have t1: "fmt2 (decode_temperature m b0 b1) =
      hundredths (if b1 AND 0x80 \<noteq> 0 then 0 else 100 * unat b0 + 10 * unat (b1 AND 0x7F))" if "m = DHT11"
    using that by (auto simp only: dec sum_tenth_prints zero split: if_split)
  have t2: "fmt2 (decode_temperature m b0 b1) =
      (if b1 AND 0x80 \<noteq> 0 then [45] else []) @ hundredths (100 * unat b0 + 10 * unat (b1 AND 0x7F))" if "m = DHT12"
    using that by (auto simp only: dec sum_tenth_prints fmt2_minus [OF sum_tenth_error(1)] append.simps split: if_split)
  have t3: "fmt2 (decode_temperature m b0 b1) =
      (if b0 AND 0x80 \<noteq> 0 then [45] else []) @ hundredths (10 * (unat (b0 AND 0x7F) * 256 + unat b1))" if "m = DHT21 \<or> m = DHT22"
    using that by (auto simp only: dec tenth_times_prints(1) [OF n(1)] fmt2_minus [OF tenth_times_prints(2) [OF n(1)]] append.simps split: if_split)
  show ?thesis using h1 h2 t1 t2 t3 by blast
qed

text \<open>Corruption of any one of the five bytes of a good reading is detected: the driver reports a bad
  checksum and no values.\<close>

theorem dht_checksum_detects:
  assumes "length bs = 5" and "bs ! 4 = dht_checksum bs" and "i < 5" and "v \<noteq> bs ! i"
    and "pio d \<noteq> None" and "sm_on d" and "dht_wait (start_time d) (get_start_pulse_duration_us (model d) + DHT_MEASUREMENT_TIMEOUT_US) ps = Some ()"
  shows "\<exists>d' hw. dht_finish_measurement_blocking \<lparr> polls = ps, busy_after = False, received = bs[i := v] \<rparr> d =
    Inr (Some ((DHT_RESULT_BAD_CHECKSUM, None), d', hw)) \<and> \<not> sm_on d'"
proof -
  have "bs[i := v] ! 4 \<noteq> dht_checksum (bs[i := v])"
  proof -
    consider "i = 0" | "i = 1" | "i = 2" | "i = 3" | "i = 4" using assms(3) by linarith
    then show ?thesis using assms(1,2,4) by cases (auto simp: dht_checksum_def)
  qed
  then show ?thesis using assms(5-7) by (simp add: dht_finish_measurement_blocking_def assertE_def Let_def)
qed

text \<open>The measurement never hangs. The call comes back as soon as it sees the channel idle, or the
  clock 24 milliseconds past the start (7 for the faster models), even when the clock has wrapped
  around in between; the state machine is then stopped.\<close>

theorem dht_finish_returns:
  assumes "pio d \<noteq> None" and "sm_on d" and "(busy, start_time d + of_nat n) \<in> set (polls env)"
    and "\<not> busy \<or> 24000 \<le> n \<and> n < 2 ^ 32"
  shows "\<exists>r d' hw. dht_finish_measurement_blocking env d = Inr (Some (r, d', hw)) \<and> \<not> sm_on d' \<and>
    (busy_after env \<longrightarrow> fst r = DHT_RESULT_TIMEOUT) \<and> (fst r = DHT_RESULT_OK \<longleftrightarrow> snd r \<noteq> None)"
proof -
  let ?t = "get_start_pulse_duration_us (model d) + DHT_MEASUREMENT_TIMEOUT_US"
  have "?t \<le> 24000" by (simp add: get_start_pulse_duration_us_def DHT_MEASUREMENT_TIMEOUT_US_def)
  moreover have "24000 \<le> (of_nat n :: u32)" if "24000 \<le> n" "n < 2 ^ 32"
    using that by (simp add: word_le_nat_alt unat_of_nat)
  ultimately have "?t \<le> of_nat n" if "24000 \<le> n" "n < 2 ^ 32" using that by (blast intro: order_trans)
  moreover have "(start_time d + of_nat n) - start_time d = (of_nat n :: u32)" by simp
  ultimately have "\<not> busy \<or> \<not> (start_time d + of_nat n) - start_time d < ?t"
    using assms(4) by (auto simp: not_less)
  then have "dht_wait (start_time d) ?t (polls env) = Some ()"
    using assms(3) unfolding dht_wait_iff by blast
  then show ?thesis using assms(1,2)
    by (cases "busy_after env"; cases "received env ! 4 = dht_checksum (received env)")
      (simp_all add: dht_finish_measurement_blocking_def assertE_def)
qed

definition demo_dht :: dht_t where
  "demo_dht = \<lparr> pio = Some 0, model = DHT11, pio_program_offset = 0, sm = 0, dma_chan = 0, data_pin = 0,
     data = replicate 5 0, start_time = 4294967290, sm_on = True \<rparr>"

theorem dht_prints_exactly_witness:
  "fmt2 (decode_humidity DHT11 45 3) = chars ''45.30'' \<and> fmt2 (decode_temperature DHT22 128 101) = chars ''-10.10''"
proof -
  have "hundredths (100 * unat (45 :: u8) + 10 * unat (3 :: u8)) = chars ''45.30''"
    "[45] @ hundredths (10 * (unat (128 AND 0x7F :: u8) * 256 + unat (101 :: u8))) = chars ''-10.10''"
    "(128 AND 0x80 :: u8) \<noteq> 0"
    by (simp_all add: hundredths_def decimal.simps chars_def)
  then show ?thesis
    using dht_prints_exactly [of DHT11 45 3] dht_prints_exactly [of DHT22 128 101] by simp
qed

theorem dht_checksum_detects_witness:
  "\<exists>d' hw. dht_finish_measurement_blocking \<lparr> polls = [(False, 0)], busy_after = False, received = [45, 3, 21, 9, 77] \<rparr> demo_dht =
     Inr (Some ((DHT_RESULT_BAD_CHECKSUM, None), d', hw)) \<and> \<not> sm_on d'"
  using dht_checksum_detects [of "[45, 3, 21, 8, 77]" 3 9 demo_dht "[(False, 0)]"]
  by (simp add: dht_checksum_def demo_dht_def)

theorem dht_finish_returns_witness:
  "\<exists>r d' hw. dht_finish_measurement_blocking \<lparr> polls = [(True, 0), (True, 24010)], busy_after = True, received = [0, 0, 0, 0, 0] \<rparr> demo_dht =
     Inr (Some (r, d', hw)) \<and> fst r = DHT_RESULT_TIMEOUT"
proof -
  have "(True, start_time demo_dht + of_nat 24016) \<in> set [(True, 0), (True, 24010 :: u32)]"
    by (simp add: demo_dht_def)
  then show ?thesis
    using dht_finish_returns [of demo_dht True 24016 "\<lparr> polls = [(True, 0), (True, 24010)], busy_after = True, received = [0, 0, 0, 0, 0] \<rparr>"]
    by (auto simp: demo_dht_def)
qed

end
