(* ===== verification/Onewire.thy ===== *)
theory Onewire
  imports Pico_Prelude
begin

text \<open>
  \<open>src/ds18b20_pio/onewire_library/onewire_library.c\<close>: the 1-Wire driver and the search for the
  addresses of the devices on the bus.

  The bus behind the PIO state machine is a parameter: its state of type \<open>'b\<close> and the four
  operations the driver performs on it. Memory for the addresses is checked. The outer loop of
  the search takes a bound on its number of passes; the result is \<open>None\<close> when the bound is
  reached.
\<close>

section \<open>Model\<close>

record 'b pio_bus =
  sm_init :: "nat \<Rightarrow> 'b \<Rightarrow> 'b"          \<comment> \<open>bits per word\<close>
  sm_put :: "u32 \<Rightarrow> 'b \<Rightarrow> 'b"
  sm_get :: "'b \<Rightarrow> u32 \<times> 'b"
  sm_exec_reset :: "'b \<Rightarrow> 'b"

record OW =
  ow_pio :: nat
  ow_sm :: u32
  jmp_reset :: u32
  ow_offset :: int
  gpio :: int

text \<open>\<open>claimed\<close>: the state machine the SDK gives, or -1; \<open>instr\<close>: the assembled reset
  instruction.\<close>

definition ow_init :: "'b pio_bus \<Rightarrow> int \<Rightarrow> u32 \<Rightarrow> nat \<Rightarrow> u32 \<Rightarrow> u32 \<Rightarrow> 'b \<Rightarrow> OW option \<times> 'b" where
  "ow_init bus claimed instr p off pin b =
    (if claimed = - 1 then (None, b)
     else (Some \<lparr> ow_pio = p, ow_sm = of_int claimed, jmp_reset = instr, ow_offset = uint off, gpio = uint pin \<rparr>,
           sm_init bus 8 b))"

definition ow_send :: "'b pio_bus \<Rightarrow> u32 \<Rightarrow> 'b \<Rightarrow> 'b" where
  "ow_send bus d b = snd (sm_get bus (sm_put bus d b))"

definition ow_read :: "'b pio_bus \<Rightarrow> 'b \<Rightarrow> u8 \<times> 'b" where
  "ow_read bus b = (let (w, b') = sm_get bus (sm_put bus 0xff b) in (ucast (drop_bit 24 w), b'))"

definition ow_reset :: "'b pio_bus \<Rightarrow> 'b \<Rightarrow> bool \<times> 'b" where
  "ow_reset bus b = (let (w, b') = sm_get bus (sm_exec_reset bus b) in (w AND 1 = 0, b'))"

definition rom_set :: "nat \<Rightarrow> u64 \<Rightarrow> u64" where
  "rom_set i r = r OR push_bit i 1"

definition rom_clear :: "nat \<Rightarrow> u64 \<Rightarrow> u64" where
  "rom_clear i r = r AND NOT (push_bit i 1)"

text \<open>The loop over the 64 bits, with \<open>k\<close> bits to go. The state is the address so far, the next
  branch point, the flag \<open>finished\<close> and the bus; the result says first whether the loop was left
  by the error branch.\<close>

fun rom_loop :: "'b pio_bus \<Rightarrow> int \<Rightarrow> nat \<Rightarrow> u64 \<times> int \<times> bool \<times> 'b \<Rightarrow> bool \<times> u64 \<times> int \<times> bool \<times> 'b" where
  "rom_loop bus bp 0 (rc, nbp, fin, b) = (False, rc, nbp, fin, b)"
| "rom_loop bus bp (Suc k) (rc, nbp, fin, b) =
    (let i = 63 - k;
         (x, b1) = ow_read bus b;
         (y, b2) = ow_read bus b1
     in if x = 0 \<and> y = 0 then
          if int i = bp then rom_loop bus bp k (rom_set i rc, nbp, fin, ow_send bus 1 b2)
          else if int i > bp \<or> rc AND push_bit i 1 = 0
          then rom_loop bus bp k (rom_clear i rc, int i, False, ow_send bus 0 b2)
          else rom_loop bus bp k (rc, nbp, fin, ow_send bus 1 b2)
        else if x \<noteq> 0 \<and> y \<noteq> 0 then (True, rc, nbp, True, b2)
        else if x = 0 then rom_loop bus bp k (rom_clear i rc, nbp, fin, ow_send bus 0 b2)
        else rom_loop bus bp k (rom_set i rc, nbp, fin, ow_send bus 1 b2))"

text \<open>ROM commands (\<open>ow_rom.h\<close>).\<close>

definition OW_READ_ROM :: u32 where "OW_READ_ROM = 0x33"
definition OW_MATCH_ROM :: u32 where "OW_MATCH_ROM = 0x55"
definition OW_SKIP_ROM :: u32 where "OW_SKIP_ROM = 0xCC"
definition OW_ALARM_SEARCH :: u32 where "OW_ALARM_SEARCH = 0xEC"
definition OW_SEARCH_ROM :: u32 where "OW_SEARCH_ROM = 0xF0"

text \<open>\<open>romcodes[n] = r\<close>, unless the pointer is null.\<close>

definition store_rom :: "u64 list option \<Rightarrow> int \<Rightarrow> u64 \<Rightarrow> u64 list option ub" where
  "store_rom mem n r =
    (case mem of
       None \<Rightarrow> Inr None
     | Some rs \<Rightarrow> if 0 \<le> n \<and> n < int (length rs) then Inr (Some (rs[nat n := r])) else Inl Out_Of_Bounds)"

fun send_bits :: "'b pio_bus \<Rightarrow> u32 \<Rightarrow> nat \<Rightarrow> 'b \<Rightarrow> 'b" where
  "send_bits bus command 0 b = b"
| "send_bits bus command (Suc k) b = send_bits bus command k (ow_send bus (drop_bit (7 - k) command) b)"

fun rom_passes ::
  "'b pio_bus \<Rightarrow> nat \<Rightarrow> int \<Rightarrow> u32 \<Rightarrow> u64 list option \<Rightarrow> u64 \<times> int \<times> int \<times> bool \<times> 'b \<Rightarrow>
     (int \<times> u64 list option \<times> 'b) option ub" where
  "rom_passes bus 0 maxdevs command mem st = Inr None"
| "rom_passes bus (Suc f) maxdevs command mem (rc, nbp, num, fin, b) =
    (if \<not> fin \<and> (maxdevs = 0 \<or> num < maxdevs)
     then (let (present, b1) = ow_reset bus b in
       if \<not> present then Inr (Some (0, mem, b1))
       else (let (err, rc', nbp', fin', b3) = rom_loop bus nbp 64 (rc, nbp, True, send_bits bus command 8 b1);
                 num' = (if err then - 2 else num)
             in bindE (store_rom mem num' rc') (\<lambda>mem'.
                  rom_passes bus f maxdevs command mem' (rc', nbp', num' + 1, fin', b3))))
     else Inr (Some (num, mem, b)))"

definition ow_romsearch ::
  "'b pio_bus \<Rightarrow> nat \<Rightarrow> u64 list option \<Rightarrow> int \<Rightarrow> u32 \<Rightarrow> 'b \<Rightarrow> (int \<times> u64 list option \<times> 'b) option ub" where
  "ow_romsearch bus passes romcodes maxdevs command b =
    bindE (rom_passes bus passes maxdevs command romcodes (0, - 1, 0, False, sm_init bus 1 b)) (\<lambda>r.
      Inr (map_option (\<lambda>(n, mem, b'). (n, mem, sm_init bus 8 b')) r))"

section \<open>A bus with devices\<close>

text \<open>Devices that follow the search protocol. Time slots are counted from the reset: eight for the
  command, then three per address bit. In the first of the three every device that is still taking
  part sends the bit, in the second its complement (a zero from any device pulls the bus low), and
  in the third the devices whose bit is not the one the master sends drop out.\<close>

record devices =
  roms :: "u64 list"
  active :: "u64 list"
  slot :: nat
  answer :: u32

definition bus_level :: "bool list \<Rightarrow> u32" where
  "bus_level bs = (if list_all (\<lambda>b. b) bs then push_bit 31 1 else 0)"

definition device_slot :: "u32 \<Rightarrow> devices \<Rightarrow> devices" where
  "device_slot w d =
    (if slot d < 8 then d\<lparr>slot := slot d + 1\<rparr>
     else (let n = slot d - 8; i = n div 3 in
       if n mod 3 = 0 then d\<lparr>slot := slot d + 1, answer := bus_level (map (\<lambda>r. bit r i) (active d))\<rparr>
       else if n mod 3 = 1 then d\<lparr>slot := slot d + 1, answer := bus_level (map (\<lambda>r. \<not> bit r i) (active d))\<rparr>
       else d\<lparr>slot := slot d + 1, active := filter (\<lambda>r. bit r i = bit w 0) (active d)\<rparr>))"

definition device_bus :: "devices pio_bus" where
  "device_bus = \<lparr>
     sm_init = (\<lambda>_ d. d),
     sm_put = device_slot,
     sm_get = (\<lambda>d. (answer d, d)),
     sm_exec_reset = (\<lambda>d. d\<lparr>active := roms d, slot := 0, answer := (if roms d = [] then 1 else 0)\<rparr>) \<rparr>"

end
