(* ===== verification/Onewire_Search.thy ===== *)
theory Onewire_Search
  imports Onewire
begin

text \<open>
  Correctness of the address search of \<open>onewire_library.c\<close>.

  The addresses are the leaves of a binary tree; each pass walks from the root to one leaf. The
  first part is about the order alone: \<open>later S r\<close> are the addresses a search that stands at \<open>r\<close> has
  still to find, and a pass removes exactly one of them. The locale \<open>search_bus\<close> states what the
  search relies on from the bus, and the search is verified once inside it. The ideal devices of
  theory \<open>Onewire\<close> are an instance.
\<close>

section \<open>The order in which addresses are found\<close>

definition agree :: "u64 \<Rightarrow> u64 \<Rightarrow> nat \<Rightarrow> bool" where
  "agree r s i \<longleftrightarrow> (\<forall>j<i. bit r j = bit s j)"

text \<open>At bit \<open>j\<close> of \<open>r\<close> the search went to 0 and left a device with a 1 there for later.\<close>

definition branches :: "u64 set \<Rightarrow> u64 \<Rightarrow> nat \<Rightarrow> bool" where
  "branches S r j \<longleftrightarrow> \<not> bit r j \<and> (\<exists>s\<in>S. agree s r j \<and> bit s j)"

definition later :: "u64 set \<Rightarrow> u64 \<Rightarrow> u64 set" where
  "later S r = {s \<in> S. \<exists>j. agree s r j \<and> \<not> bit r j \<and> bit s j}"

definition last_branch :: "u64 set \<Rightarrow> u64 \<Rightarrow> nat \<Rightarrow> int \<Rightarrow> bool \<Rightarrow> bool" where
  "last_branch S r i nbp fin \<longleftrightarrow>
    (if fin then \<forall>j<i. \<not> branches S r j
     else \<exists>m<i. nbp = int m \<and> branches S r m \<and> (\<forall>j<i. m < j \<longrightarrow> \<not> branches S r j))"

definition pass_inv :: "u64 set \<Rightarrow> int \<Rightarrow> u64 \<Rightarrow> nat \<Rightarrow> u64 \<Rightarrow> int \<Rightarrow> bool \<Rightarrow> bool" where
  "pass_inv S bp r0 i r nbp fin \<longleftrightarrow>
    (\<exists>s\<in>S. agree s r i) \<and> (\<forall>j\<ge>i. bit r j = bit r0 j) \<and>
    (\<forall>j<i. int j < bp \<longrightarrow> bit r j = bit r0 j) \<and> (\<forall>j<i. int j = bp \<longrightarrow> bit r j) \<and>
    (\<forall>j<i. bp < int j \<longrightarrow> bit r j \<longrightarrow> (\<forall>s\<in>S. agree s r j \<longrightarrow> bit s j)) \<and>
    last_branch S r i nbp fin"

lemma pass_invD:
  assumes "pass_inv S bp r0 i r nbp fin"
  shows "\<exists>s\<in>S. agree s r i" "j < i \<Longrightarrow> int j < bp \<Longrightarrow> bit r j = bit r0 j"
    "j < i \<Longrightarrow> int j = bp \<Longrightarrow> bit r j"
    "j < i \<Longrightarrow> bp < int j \<Longrightarrow> bit r j \<Longrightarrow> s \<in> S \<Longrightarrow> agree s r j \<Longrightarrow> bit s j"
    "last_branch S r i nbp fin" "i \<le> j \<Longrightarrow> bit r j = bit r0 j"
  using assms by (auto simp: pass_inv_def)

lemma agree_cong: "(\<And>j. j < i \<Longrightarrow> bit r j = bit r' j) \<Longrightarrow> agree s r i = agree s r' i"
  by (simp add: agree_def)

lemma agree_Suc: "agree s r (Suc i) \<longleftrightarrow> agree s r i \<and> bit s i = bit r i"
  by (auto simp: agree_def less_Suc_eq)

lemma agree_0 [simp]: "agree s r 0"
  by (simp add: agree_def)

lemma agree_all: "agree s r 64 \<longleftrightarrow> s = r"
  by (auto simp: agree_def intro!: bit_word_eqI)

lemma bit_less_64: "bit (r :: u64) j \<Longrightarrow> j < 64"
  by (drule bit_imp_le_length) simp

lemma branches_cong: "(\<And>j. j \<le> i \<Longrightarrow> bit r j = bit r' j) \<Longrightarrow> branches S r i = branches S r' i"
  using agree_cong [of i r r'] by (simp add: branches_def)

lemma branches_iff_later: "(\<exists>j. branches S r j) \<longleftrightarrow> later S r \<noteq> {}"
  by (auto simp: branches_def later_def)

lemma branches_less_64: "branches S r j \<Longrightarrow> j < 64"
  by (auto simp: branches_def dest: bit_less_64)

lemma bit_rom_set: "bit (rom_set i r) j \<longleftrightarrow> j = i \<and> i < 64 \<or> bit r j"
  by (auto simp: rom_set_def bit_simps dest: bit_less_64)

lemma bit_rom_clear: "bit (rom_clear i r) j \<longleftrightarrow> j \<noteq> i \<and> bit r j"
  by (auto simp: rom_clear_def bit_simps dest: bit_less_64)

lemma rom_bit_clear_iff: "r AND (2 :: u64) ^ i = 0 \<longleftrightarrow> \<not> bit r i"
proof -
  have "bit (r AND push_bit i 1) j \<longleftrightarrow> j = i \<and> bit r i" for j
    by (auto simp: bit_simps dest: bit_less_64)
  then have "r AND push_bit i 1 = 0 \<longleftrightarrow> \<not> bit r i" by (metis bit_0_eq bot_apply bot_bool_def bit_word_eqI)
  then show ?thesis by simp
qed

lemma first_difference:
  assumes "r \<noteq> (s :: u64)"
  obtains j where "agree s r j" "bit s j \<noteq> bit r j" "j < 64"
proof -
  let ?P = "\<lambda>j. j < 64 \<and> bit s j \<noteq> bit r j"
  from assms have "\<exists>j. ?P j" using agree_all [of s r] by (auto simp: agree_def)
  then obtain j where "?P j" "\<forall>k<j. \<not> ?P k" using exists_least_iff [of ?P] by blast
  then have "agree s r j" "bit s j \<noteq> bit r j" "j < 64" by (auto simp: agree_def)
  with that show thesis by blast
qed

text \<open>One bit of a pass.\<close>

lemma pass_inv_step:
  assumes inv: "pass_inv S bp r0 i r nbp fin"
    and same: "\<And>j. j \<noteq> i \<Longrightarrow> bit r' j = bit r j"
    and ex: "\<exists>s\<in>S. agree s r i \<and> bit s i = bit r' i"
    and before: "int i < bp \<Longrightarrow> bit r' i = bit r0 i"
    and at: "int i = bp \<Longrightarrow> bit r' i"
    and after: "bp < int i \<Longrightarrow> bit r' i \<Longrightarrow> \<forall>s\<in>S. agree s r i \<longrightarrow> bit s i"
    and new: "\<not> bit r' i \<and> (\<exists>s\<in>S. agree s r i \<and> bit s i) \<Longrightarrow> nbp' = int i \<and> \<not> fin'"
    and old: "bit r' i \<or> (\<forall>s\<in>S. agree s r i \<longrightarrow> \<not> bit s i) \<Longrightarrow> nbp' = nbp \<and> fin' = fin"
  shows "pass_inv S bp r0 (Suc i) r' nbp' fin'"
proof -
  have ag: "j \<le> i \<Longrightarrow> agree s r' j = agree s r j" for s j
    by (rule agree_cong) (auto simp: same)
  have br: "j < i \<Longrightarrow> branches S r' j = branches S r j" for j
    by (rule branches_cong) (auto simp: same)
  have bri: "branches S r' i \<longleftrightarrow> \<not> bit r' i \<and> (\<exists>s\<in>S. agree s r i \<and> bit s i)"
    by (simp add: branches_def ag)
  have lb: "last_branch S r i nbp fin" using inv by (simp add: pass_inv_def)
  have "last_branch S r' (Suc i) nbp' fin'"
  proof (cases "branches S r' i")
    case True
    with new bri show ?thesis by (auto simp: last_branch_def)
  next
    case False
    with old bri have "nbp' = nbp" "fin' = fin" by blast+
    with lb False show ?thesis
      by (auto simp: last_branch_def br less_Suc_eq split: if_splits)
  qed
  then show ?thesis
    using inv ex before at after by (auto simp: pass_inv_def less_Suc_eq same ag agree_Suc)
qed

text \<open>The five choices the loop makes at bit \<open>i\<close>, each of which keeps the invariant of the pass: both
  values are present (at, after and before the branch point the pass started with), or only one.\<close>

lemma pass_choice:
  assumes inv: "pass_inv S bp r0 i r nbp fin"
    and entry: "bp = - 1 \<or> r0 \<in> S \<and> (\<exists>m. bp = int m \<and> branches S r0 m)" and i: "i < 64"
  defines "zero \<equiv> \<exists>s\<in>S. agree s r i \<and> \<not> bit s i" and "one \<equiv> \<exists>s\<in>S. agree s r i \<and> bit s i"
  shows "zero \<Longrightarrow> one \<Longrightarrow> int i = bp \<Longrightarrow> pass_inv S bp r0 (Suc i) (rom_set i r) nbp fin"
    and "zero \<Longrightarrow> one \<Longrightarrow> int i \<noteq> bp \<Longrightarrow> bp < int i \<or> \<not> bit r i \<Longrightarrow>
      pass_inv S bp r0 (Suc i) (rom_clear i r) (int i) False"
    and "one \<Longrightarrow> int i < bp \<Longrightarrow> bit r i \<Longrightarrow> pass_inv S bp r0 (Suc i) r nbp fin"
    and "zero \<Longrightarrow> \<not> one \<Longrightarrow> pass_inv S bp r0 (Suc i) (rom_clear i r) nbp fin"
    and "\<not> zero \<Longrightarrow> one \<Longrightarrow> pass_inv S bp r0 (Suc i) (rom_set i r) nbp fin"
proof -
  note step = pass_inv_step [OF inv]
  have below: "bit r j = bit r0 j" if "int j < bp" for j
    using pass_invD(2,6) [OF inv, of j] that by (cases "j < i") auto
  have r0: "r0 \<in> S \<and> agree r0 r i" if "int i \<le> bp"
    using entry that below by (auto simp: agree_def)
  have fork: "one \<and> \<not> bit r0 i" if "int i = bp"
  proof -
    have "\<And>s. agree s r i = agree s r0 i" by (rule agree_cong) (simp add: below that [symmetric])
    with entry that show ?thesis by (auto simp: branches_def one_def)
  qed
  show "zero \<Longrightarrow> one \<Longrightarrow> int i = bp \<Longrightarrow> pass_inv S bp r0 (Suc i) (rom_set i r) nbp fin"
    by (rule step) (use i in \<open>auto simp: bit_rom_set one_def\<close>)
  show "zero \<Longrightarrow> one \<Longrightarrow> int i \<noteq> bp \<Longrightarrow> bp < int i \<or> \<not> bit r i \<Longrightarrow>
      pass_inv S bp r0 (Suc i) (rom_clear i r) (int i) False"
    by (rule step) (use i below in \<open>auto simp: bit_rom_clear zero_def one_def\<close>)
  show "one \<Longrightarrow> int i < bp \<Longrightarrow> bit r i \<Longrightarrow> pass_inv S bp r0 (Suc i) r nbp fin"
    by (rule step) (use below in \<open>auto simp: one_def\<close>)
  show "zero \<Longrightarrow> \<not> one \<Longrightarrow> pass_inv S bp r0 (Suc i) (rom_clear i r) nbp fin"
    by (rule step) (use i r0 fork in \<open>auto simp: bit_rom_clear zero_def one_def\<close>)
  show "\<not> zero \<Longrightarrow> one \<Longrightarrow> pass_inv S bp r0 (Suc i) (rom_set i r) nbp fin"
    by (rule step) (use i r0 fork in \<open>auto simp: bit_rom_set zero_def one_def\<close>)
qed

text \<open>What a whole pass does to the set of addresses still to be found.\<close>

lemma pass_follows:
  assumes br: "branches S r0 m" and inv: "pass_inv S (int m) r0 64 r nbp fin"
  shows "bit r m" and "\<not> bit r0 m" and "j < m \<Longrightarrow> bit r j = bit r0 j"
    and "j \<le> m \<Longrightarrow> agree s r j = agree s r0 j"
    and "m < j \<Longrightarrow> bit r j \<Longrightarrow> s \<in> S \<Longrightarrow> agree s r j \<Longrightarrow> bit s j"
proof -
  have m: "m < 64" using br by (rule branches_less_64)
  show "bit r m" using pass_invD(3) [OF inv] m by simp
  show "\<not> bit r0 m" using br by (simp add: branches_def)
  have low: "bit r j = bit r0 j" if "j < m" for j
    using pass_invD(2) [OF inv, of j] m that by simp
  then show "j < m \<Longrightarrow> bit r j = bit r0 j" .
  show "j \<le> m \<Longrightarrow> agree s r j = agree s r0 j" by (rule agree_cong) (simp add: low)
  show "m < j \<Longrightarrow> bit r j \<Longrightarrow> s \<in> S \<Longrightarrow> agree s r j \<Longrightarrow> bit s j"
    using pass_invD(4) [OF inv bit_less_64] by simp
qed

lemma later_step_out:
  assumes br: "branches S r0 m" and max: "\<And>j. branches S r0 j \<Longrightarrow> j \<le> m"
    and inv: "pass_inv S (int m) r0 64 r nbp fin" and mem: "s \<in> later S r0" and ne: "s \<noteq> r"
  shows "s \<in> later S r"
proof -
  note f = pass_follows [OF br inv]
  from mem obtain j where s: "s \<in> S" "agree s r0 j" "\<not> bit r0 j" "bit s j" by (auto simp: later_def)
  then have "j \<le> m" by (intro max) (auto simp: branches_def)
  then consider "j < m" | "j = m" by linarith
  then show ?thesis
  proof cases
    case 1
    with s show ?thesis using f(4) [of j s] f(3) [of j] by (auto simp: later_def)
  next
    case 2
    from ne obtain k where k: "agree s r k" "bit s k \<noteq> bit r k" by (metis first_difference)
    have "agree s r (Suc m)" using s 2 f(4) [of m s] f(1) by (simp add: agree_Suc)
    then have "m < k" using k(2) by (metis agree_def not_less_eq)
    with k f(5) [of k s] s(1) show ?thesis by (auto simp: later_def)
  qed
qed

lemma later_step_in:
  assumes br: "branches S r0 m" and inv: "pass_inv S (int m) r0 64 r nbp fin" and mem: "s \<in> later S r"
  shows "s \<in> later S r0"
proof -
  note f = pass_follows [OF br inv]
  from mem obtain j where s: "s \<in> S" "agree s r j" "\<not> bit r j" "bit s j" by (auto simp: later_def)
  with f(1) have "j \<noteq> m" by auto
  then consider "j < m" | "m < j" by linarith
  then show ?thesis
  proof cases
    case 1
    with s f(4) [of j s] f(3) [of j] show ?thesis by (auto simp: later_def)
  next
    case 2
    then have "agree s r (Suc m)" using s(2) by (simp add: agree_def)
    with f(1,2) f(4) [of m s] s(1) show ?thesis by (auto simp: later_def agree_Suc)
  qed
qed

lemma later_remaining:
  assumes br: "branches S r0 m" and max: "\<And>j. branches S r0 j \<Longrightarrow> j \<le> m"
    and inv: "pass_inv S (int m) r0 64 r nbp fin"
  shows "later S r0 = insert r (later S r)" and "r \<notin> later S r" and "r \<in> S"
proof -
  from pass_invD(1) [OF inv] show rS: "r \<in> S" by (auto simp: agree_all)
  show "r \<notin> later S r" by (auto simp: later_def)
  have "r \<in> later S r0"
    using rS pass_follows(1,2) [OF br inv] pass_follows(4) [OF br inv, of m r] by (auto simp: later_def agree_def)
  then show "later S r0 = insert r (later S r)"
    using later_step_out [OF br max inv] later_step_in [OF br inv] by auto
qed

lemma later_first:
  assumes inv: "pass_inv S (- 1) r0 64 r nbp fin"
  shows "S = insert r (later S r)" and "r \<notin> later S r" and "r \<in> S"
proof -
  from pass_invD(1) [OF inv] show rS: "r \<in> S" by (auto simp: agree_all)
  show "r \<notin> later S r" by (auto simp: later_def)
  have high: "bit s j" if "bit r j" "s \<in> S" "agree s r j" for j s
    using pass_invD(4) [OF inv bit_less_64] that by simp
  have "s \<in> insert r (later S r)" if s: "s \<in> S" for s
  proof (cases "s = r")
    case False
    then obtain k where "agree s r k" "bit s k \<noteq> bit r k" by (metis first_difference)
    with high s show ?thesis by (auto simp: later_def)
  qed simp
  then show "S = insert r (later S r)" using rS by (auto simp: later_def)
qed

lemma last_branch_64:
  assumes "last_branch S r 64 nbp fin"
  shows "fin \<longleftrightarrow> later S r = {}"
    and "\<not> fin \<Longrightarrow> \<exists>m. nbp = int m \<and> branches S r m \<and> (\<forall>j. branches S r j \<longrightarrow> j \<le> m)"
proof -
  show "fin \<longleftrightarrow> later S r = {}"
    using assms branches_iff_later [of S r] branches_less_64 [of S r]
    by (auto simp: last_branch_def split: if_splits)
  show "\<not> fin \<Longrightarrow> \<exists>m. nbp = int m \<and> branches S r m \<and> (\<forall>j. branches S r j \<longrightarrow> j \<le> m)"
    using assms branches_less_64 [of S r] by (auto simp: last_branch_def) (meson leI)
qed

text \<open>The search stands before a pass and \<open>rem\<close> are the addresses it has not found.\<close>

definition search_entry :: "u64 set \<Rightarrow> u64 \<Rightarrow> int \<Rightarrow> u64 set \<Rightarrow> bool" where
  "search_entry S r nbp rem \<longleftrightarrow> S \<noteq> {} \<and>
    (nbp = - 1 \<and> rem = S \<or>
     r \<in> S \<and> rem = later S r \<and> (\<exists>m. nbp = int m \<and> branches S r m \<and> (\<forall>j. branches S r j \<longrightarrow> j \<le> m)))"

lemma search_entry_rem: "search_entry S r nbp rem \<Longrightarrow> rem \<noteq> {} \<and> rem \<subseteq> S"
  using branches_iff_later [of S r] by (auto simp: search_entry_def later_def)

lemma search_entry_pass:
  assumes "search_entry S r nbp rem" and inv: "pass_inv S nbp r 64 r' nbp' fin'"
  shows "rem = insert r' (later S r')" and "r' \<notin> later S r'"
    and "fin' \<longleftrightarrow> later S r' = {}" and "\<not> fin' \<Longrightarrow> search_entry S r' nbp' (later S r')"
proof -
  note lb = last_branch_64 [OF pass_invD(5) [OF inv]]
  have *: "rem = insert r' (later S r') \<and> r' \<in> S"
  proof (cases "nbp = - 1")
    case True
    with assms show ?thesis using later_first by (auto simp: search_entry_def)
  next
    case False
    with assms(1) obtain m where m: "r \<in> S" "rem = later S r" "nbp = int m" "branches S r m"
      "\<And>j. branches S r j \<Longrightarrow> j \<le> m" by (auto simp: search_entry_def)
    show ?thesis using later_remaining [OF m(4,5) inv [unfolded m(3)]] m(2) by simp
  qed
  then show "rem = insert r' (later S r')" by simp
  show "r' \<notin> later S r'" by (auto simp: later_def)
  show "fin' \<longleftrightarrow> later S r' = {}" by (rule lb(1))
  show "\<not> fin' \<Longrightarrow> search_entry S r' nbp' (later S r')"
    using lb(2) * by (auto simp: search_entry_def)
qed

text \<open>The addresses \<open>xs\<close> written into the caller's array from position \<open>n\<close> on.\<close>

definition put_roms :: "nat \<Rightarrow> u64 list \<Rightarrow> u64 list option \<Rightarrow> u64 list option" where
  "put_roms n xs = map_option (\<lambda>rs. take n rs @ xs @ drop (n + length xs) rs)"

lemma put_roms_Nil [simp]: "put_roms n [] mem = mem"
  by (cases mem) (auto simp: put_roms_def)

lemma store_rom_put:
  assumes "\<And>rs. mem = Some rs \<Longrightarrow> n < length rs"
  shows "store_rom mem (int n) r = Inr (put_roms n [r] mem)"
  using assms by (cases mem) (auto simp: store_rom_def put_roms_def upd_conv_take_nth_drop)

lemma put_roms_Cons:
  assumes "\<And>rs. mem = Some rs \<Longrightarrow> n + length (x # xs) \<le> length rs"
  shows "put_roms (Suc n) xs (put_roms n [x] mem) = put_roms n (x # xs) mem"
  using assms by (cases mem) (auto simp: put_roms_def take_Suc_conv_app_nth drop_append nth_append min_def add.commute)

definition pass_limit :: "int \<Rightarrow> nat \<Rightarrow> nat \<Rightarrow> nat" where
  "pass_limit maxdevs n c = (if maxdevs = 0 then c else min c (nat maxdevs - n))"

lemma length_put_roms:
  assumes "\<And>rs. mem = Some rs \<Longrightarrow> n + length xs \<le> length rs"
  shows "map_option length (put_roms n xs mem) = map_option length mem"
  using assms by (cases mem) (auto simp: put_roms_def)

section \<open>The search on a bus whose devices follow the protocol\<close>

text \<open>\<open>has R b\<close>: the bus state \<open>b\<close> is that of a bus with the devices \<open>R\<close>; \<open>on R b\<close>: the driver is set to
  single bits besides; \<open>at_bit R i A b\<close>: the
  search is about to read bit \<open>i\<close> and the devices \<open>A\<close> are still taking part.\<close>

locale search_bus =
  fixes bus :: "'b pio_bus" and has on :: "u64 list \<Rightarrow> 'b \<Rightarrow> bool"
    and at_bit :: "u64 list \<Rightarrow> nat \<Rightarrow> u64 list \<Rightarrow> 'b \<Rightarrow> bool" and searches :: "u32 \<Rightarrow> bool"
  assumes init_on: "has R b \<Longrightarrow> on R (sm_init bus 1 b)"
    and init_has: "on R b \<Longrightarrow> has R (sm_init bus 8 b)"
    and at_bit_on: "at_bit R i A b \<Longrightarrow> on R b"
    and reset_on: "on R b \<Longrightarrow> fst (ow_reset bus b) = (R \<noteq> []) \<and> on R (snd (ow_reset bus b))"
    and command_at: "on R b \<Longrightarrow> searches command \<Longrightarrow> at_bit R 0 R (send_bits bus command 8 (snd (ow_reset bus b)))"
    and bit_slots: "at_bit R i A b \<Longrightarrow> i < 64 \<Longrightarrow>
      \<exists>x b1 y b2. ow_read bus b = (x, b1) \<and> (x = 0 \<longleftrightarrow> (\<exists>r\<in>set A. \<not> bit r i)) \<and>
        ow_read bus b1 = (y, b2) \<and> (y = 0 \<longleftrightarrow> (\<exists>r\<in>set A. bit r i)) \<and>
        (\<forall>w. at_bit R (Suc i) (filter (\<lambda>r. bit r i = bit w 0) A) (ow_send bus w b2))"
begin

text \<open>After the slot in which the master writes bit \<open>i\<close> of the address it builds, the devices still
  in the game are those that agree with it so far.\<close>

lemma at_bit_sent:
  assumes send: "\<And>w. at_bit R (Suc i) (filter (\<lambda>t. bit t i = bit w 0) (filter (\<lambda>t. agree t r i) R)) (ow_send bus w b)"
    and same: "\<And>j. j \<noteq> i \<Longrightarrow> bit r' j = bit r j" and w: "bit w 0 = bit r' i"
  shows "at_bit R (Suc i) (filter (\<lambda>t. agree t r' (Suc i)) R) (ow_send bus w b)"
proof -
  have "\<And>t. agree t r' i = agree t r i" by (rule agree_cong) (simp add: same)
  then have "filter (\<lambda>t. agree t r' (Suc i)) R = filter (\<lambda>t. bit t i = bit w 0) (filter (\<lambda>t. agree t r i) R)"
    by (simp add: agree_Suc w conj_commute)
  then show ?thesis using send by simp
qed

lemma rom_loop_step:
  assumes inv: "pass_inv (set R) bp r0 i r nbp fin" and k: "i = 63 - k" "k < 64"
    and at: "at_bit R i (filter (\<lambda>t. agree t r i) R) b"
    and entry: "bp = - 1 \<or> r0 \<in> set R \<and> (\<exists>m. bp = int m \<and> branches (set R) r0 m)"
  shows "\<exists>r' nbp' fin' b'. rom_loop bus bp (Suc k) (r, nbp, fin, b) = rom_loop bus bp k (r', nbp', fin', b') \<and>
    pass_inv (set R) bp r0 (Suc i) r' nbp' fin' \<and> at_bit R (Suc i) (filter (\<lambda>t. agree t r' (Suc i)) R) b'"
proof -
  have i: "i < 64" using k by simp
  have A: "(\<exists>s\<in>set (filter (\<lambda>t. agree t r i) R). P s) \<longleftrightarrow> (\<exists>s\<in>set R. agree s r i \<and> P s)" for P by auto
  from bit_slots [OF at i] obtain x b1 y b2 where
    x: "ow_read bus b = (x, b1)" "x = 0 \<longleftrightarrow> (\<exists>s\<in>set R. agree s r i \<and> \<not> bit s i)" and
    y: "ow_read bus b1 = (y, b2)" "y = 0 \<longleftrightarrow> (\<exists>s\<in>set R. agree s r i \<and> bit s i)" and
    send: "\<And>w. at_bit R (Suc i) (filter (\<lambda>t. bit t i = bit w 0) (filter (\<lambda>t. agree t r i) R)) (ow_send bus w b2)"
    unfolding A by blast
  note choice = pass_choice [OF inv entry i, folded x(2) y(2)]
  have one: ?thesis if "pass_inv (set R) bp r0 (Suc i) (rom_set i r) nbp fin"
      "rom_loop bus bp (Suc k) (r, nbp, fin, b) = rom_loop bus bp k (rom_set i r, nbp, fin, ow_send bus 1 b2)"
    using that at_bit_sent [OF send, of "rom_set i r" 1] i by (auto simp: bit_rom_set)
  have zero: ?thesis if "pass_inv (set R) bp r0 (Suc i) (rom_clear i r) n f"
      "rom_loop bus bp (Suc k) (r, nbp, fin, b) = rom_loop bus bp k (rom_clear i r, n, f, ow_send bus 0 b2)" for n f
    using that at_bit_sent [OF send, of "rom_clear i r" 0] i by (auto simp: bit_rom_clear)
  note loop = x(1) y(1) k(1) [symmetric] rom_bit_clear_iff i
  consider "x \<noteq> 0" "y \<noteq> 0" | "x = 0" "y \<noteq> 0" | "x \<noteq> 0" "y = 0" | "x = 0" "y = 0" "int i = bp" |
    "x = 0" "y = 0" "int i \<noteq> bp" "bp < int i \<or> \<not> bit r i" | "x = 0" "y = 0" "int i < bp" "bit r i" by linarith
  then show ?thesis
  proof cases
    case 1
    with x(2) y(2) pass_invD(1) [OF inv] show ?thesis by blast
  next
    case 2
    then show ?thesis by (intro zero [of nbp fin] choice) (auto simp: loop)
  next
    case 3
    then show ?thesis by (intro one choice) (auto simp: loop)
  next
    case 4
    then show ?thesis by (intro one choice) (auto simp: loop)
  next
    case 5
    then show ?thesis by (intro zero [of "int i" False] choice) (auto simp: loop)
  next
    case 6
    then show ?thesis using choice(3) at_bit_sent [OF send, of r 1] by (auto simp: loop)
  qed
qed

lemma rom_loop_inv:
  assumes "pass_inv (set R) bp r0 (64 - k) r nbp fin" and "k \<le> 64"
    and "at_bit R (64 - k) (filter (\<lambda>s. agree s r (64 - k)) R) b"
    and "bp = - 1 \<or> r0 \<in> set R \<and> (\<exists>m. bp = int m \<and> branches (set R) r0 m)"
  shows "\<exists>r' nbp' fin' b'. rom_loop bus bp k (r, nbp, fin, b) = (False, r', nbp', fin', b') \<and>
    pass_inv (set R) bp r0 64 r' nbp' fin' \<and> on R b'"
  using assms
proof (induction k arbitrary: r nbp fin b)
  case 0
  then show ?case by (auto dest: at_bit_on)
next
  case (Suc k)
  have k: "64 - Suc k = 63 - k" "Suc (63 - k) = 64 - k" "k < 64" "k \<le> 64" using Suc.prems(2) by auto
  from rom_loop_step [OF _ refl k(3) _ Suc.prems(4)] Suc.prems(1,3) obtain r' nbp' fin' b' where
    "rom_loop bus bp (Suc k) (r, nbp, fin, b) = rom_loop bus bp k (r', nbp', fin', b')"
    "pass_inv (set R) bp r0 (64 - k) r' nbp' fin'" "at_bit R (64 - k) (filter (\<lambda>t. agree t r' (64 - k)) R) b'"
    unfolding k by blast
  with Suc.IH [OF _ k(4) _ Suc.prems(4)] show ?case by simp
qed

lemma search_pass:
  assumes "on R b" "search_entry (set R) r nbp rem" "searches command"
  shows "\<exists>r' nbp' fin' b'. fst (ow_reset bus b) \<and>
    rom_loop bus nbp 64 (r, nbp, True, send_bits bus command 8 (snd (ow_reset bus b))) = (False, r', nbp', fin', b') \<and>
    on R b' \<and> rem = insert r' (later (set R) r') \<and> r' \<notin> later (set R) r' \<and>
    (fin' \<longleftrightarrow> later (set R) r' = {}) \<and> (\<not> fin' \<longrightarrow> search_entry (set R) r' nbp' (later (set R) r'))"
proof -
  have R: "R \<noteq> []" using assms(2) by (auto simp: search_entry_def)
  have entry: "nbp = - 1 \<or> r \<in> set R \<and> (\<exists>m. nbp = int m \<and> branches (set R) r m)"
    using assms(2) by (auto simp: search_entry_def)
  have inv: "pass_inv (set R) nbp r (64 - 64) r nbp True"
    using R by (cases R) (auto simp: pass_inv_def last_branch_def)
  have "at_bit R (64 - 64) (filter (\<lambda>s. agree s r (64 - 64)) R) (send_bits bus command 8 (snd (ow_reset bus b)))"
    using command_at [OF assms(1,3)] by simp
  from rom_loop_inv [OF inv le_refl this entry] obtain r' nbp' fin' b' where
    loop: "rom_loop bus nbp 64 (r, nbp, True, send_bits bus command 8 (snd (ow_reset bus b))) = (False, r', nbp', fin', b')"
    "pass_inv (set R) nbp r 64 r' nbp' fin'" "on R b'" by blast
  show ?thesis
    using loop(1,3) search_entry_pass [OF assms(2) loop(2)] reset_on [OF assms(1)] R
    by (intro exI [of _ r'] exI [of _ nbp'] exI [of _ fin'] exI [of _ b']) simp
qed

lemma rom_passes_found:
  assumes sc: "searches command"
    and "on R b" "\<not> fin \<longrightarrow> search_entry (set R) r nbp rem" "fin \<longrightarrow> rem = {}" "finite rem"
    and "pass_limit maxdevs n (card rem) < passes" "0 \<le> maxdevs"
    and "\<And>rs. mem = Some rs \<Longrightarrow> n + pass_limit maxdevs n (card rem) \<le> length rs"
  shows "\<exists>xs b'. rom_passes bus passes maxdevs command mem (r, nbp, int n, fin, b) =
      Inr (Some (int (n + length xs), put_roms n xs mem, b')) \<and> on R b' \<and>
    distinct xs \<and> set xs \<subseteq> rem \<and> length xs = pass_limit maxdevs n (card rem)"
  using assms(2-)
proof (induction passes arbitrary: b fin r nbp rem n mem)
  case (Suc passes)
  show ?case
  proof (cases "\<not> fin \<and> (maxdevs = 0 \<or> int n < maxdevs)")
    case False
    with Suc.prems have "pass_limit maxdevs n (card rem) = 0" by (auto simp: pass_limit_def)
    with False Suc.prems show ?thesis by (intro exI [of _ "[]"] exI [of _ b]) auto
  next
    case True
    with Suc.prems obtain r' nbp' fin' b' where p: "fst (ow_reset bus b)"
      "rom_loop bus nbp 64 (r, nbp, True, send_bits bus command 8 (snd (ow_reset bus b))) = (False, r', nbp', fin', b')"
      "on R b'" "rem = insert r' (later (set R) r')" "r' \<notin> later (set R) r'"
      "fin' \<longleftrightarrow> later (set R) r' = {}" "\<not> fin' \<longrightarrow> search_entry (set R) r' nbp' (later (set R) r')"
      using search_pass [OF _ _ sc, of R b r nbp rem] by blast
    let ?L = "later (set R) r'"
    have flag: "fin' \<longrightarrow> ?L = {}" using p(6) by simp
    have fin: "finite ?L" and c: "card rem = Suc (card ?L)" using p(4,5) Suc.prems(4) by auto
    have lim: "pass_limit maxdevs n (card rem) = Suc (pass_limit maxdevs (Suc n) (card ?L))"
      using True Suc.prems(6) by (auto simp: pass_limit_def c)
    then have fewer: "pass_limit maxdevs (Suc n) (card ?L) < passes" using Suc.prems(5) by simp
    have store: "store_rom mem (int n) r' = Inr (put_roms n [r'] mem)"
      by (rule store_rom_put) (use Suc.prems(7) lim in fastforce)
    have room: "Suc n + pass_limit maxdevs (Suc n) (card ?L) \<le> length rs"
      if "put_roms n [r'] mem = Some rs" for rs
      using that Suc.prems(7) lim length_put_roms [of mem n "[r']"] by (cases mem) fastforce+
    obtain xs b'' where xs: "rom_passes bus passes maxdevs command (put_roms n [r'] mem)
        (r', nbp', int (Suc n), fin', b') =
      Inr (Some (int (Suc n + length xs), put_roms (Suc n) xs (put_roms n [r'] mem), b''))" "on R b''"
      "distinct xs" "set xs \<subseteq> ?L" "length xs = pass_limit maxdevs (Suc n) (card ?L)"
      using Suc.IH [where b = b' and fin = fin' and r = r' and nbp = nbp' and rem = ?L and n = "Suc n"
          and mem = "put_roms n [r'] mem", OF p(3,7) flag fin fewer Suc.prems(6) room] by blast
    have put: "put_roms (Suc n) xs (put_roms n [r'] mem) = put_roms n (r' # xs) mem"
      by (rule put_roms_Cons) (use Suc.prems(7) xs(5) lim in fastforce)
    have "rom_passes bus (Suc passes) maxdevs command mem (r, nbp, int n, fin, b) =
      Inr (Some (int (n + length (r' # xs)), put_roms n (r' # xs) mem, b''))"
      using True p(1,2) store xs(1) put by (simp add: case_prod_beta Let_def add.commute)
    with xs p(4,5) lim show ?thesis by (intro exI [of _ "r' # xs"] exI [of _ b'']) auto
  qed
qed simp

lemma ow_romsearch_found:
  assumes "searches command" "has R b" "R \<noteq> []" "pass_limit maxdevs 0 (card (set R)) < passes" "0 \<le> maxdevs"
    and "\<And>rs. mem = Some rs \<Longrightarrow> pass_limit maxdevs 0 (card (set R)) \<le> length rs"
  shows "\<exists>xs b'. ow_romsearch bus passes mem maxdevs command b =
      Inr (Some (int (length xs), put_roms 0 xs mem, b')) \<and> has R b' \<and>
    distinct xs \<and> set xs \<subseteq> set R \<and> length xs = pass_limit maxdevs 0 (card (set R))"
proof -
  have "search_entry (set R) 0 (- 1) (set R)" using assms(3) by (simp add: search_entry_def)
  with rom_passes_found [OF assms(1) init_on [OF assms(2)], of False 0 "- 1" "set R" maxdevs 0 passes mem] assms
  obtain xs b' where "rom_passes bus passes maxdevs command mem (0, - 1, 0, False, sm_init bus 1 b) =
      Inr (Some (int (length xs), put_roms 0 xs mem, b'))" "on R b'"
    "distinct xs" "set xs \<subseteq> set R" "length xs = pass_limit maxdevs 0 (card (set R))" by auto
  then show ?thesis
    by (intro exI [of _ xs] exI [of _ "sm_init bus 8 b'"]) (simp add: ow_romsearch_def init_has)
qed

lemma ow_romsearch_none:
  assumes "has [] b" "0 \<le> maxdevs" "0 < passes"
  shows "\<exists>b'. ow_romsearch bus passes mem maxdevs command b = Inr (Some (0, mem, b')) \<and> has [] b'"
proof -
  have "rom_passes bus passes maxdevs command mem (0, - 1, 0, False, sm_init bus 1 b) =
    Inr (Some (0, mem, snd (ow_reset bus (sm_init bus 1 b))))"
    using reset_on [OF init_on [OF assms(1)]] assms(2,3)
    by (cases passes) (auto simp: case_prod_beta Let_def)
  then show ?thesis using reset_on [OF init_on [OF assms(1)]]
    by (auto simp: ow_romsearch_def intro: init_has)
qed

text \<open>The search for one device.\<close>

lemma search_one:
  assumes "searches command" "has R b" "R \<noteq> []"
  shows "\<exists>rc' b'. ow_romsearch bus 2 (Some [rc]) 1 command b = Inr (Some (1, Some [rc'], b')) \<and>
    rc' \<in> set R \<and> has R b'"
proof -
  have "0 < card (set R)" using assms(3) by (simp add: card_gt_0_iff)
  with ow_romsearch_found [OF assms, of 1 2 "Some [rc]"]
  obtain xs b' where xs: "ow_romsearch bus 2 (Some [rc]) 1 command b =
      Inr (Some (int (length xs), put_roms 0 xs (Some [rc]), b'))" "has R b'" "set xs \<subseteq> set R" "length xs = 1"
    by (auto simp: pass_limit_def)
  then obtain rc' where "xs = [rc']" by (auto simp: length_Suc_conv)
  with xs show ?thesis by (auto simp: put_roms_def)
qed

lemma search_none:
  "has [] b \<Longrightarrow> \<exists>b'. ow_romsearch bus 2 (Some [rc]) 1 command b = Inr (Some (0, Some [rc], b')) \<and> has [] b'"
  by (rule ow_romsearch_none) simp_all

end

definition devices_on :: "u64 list \<Rightarrow> devices \<Rightarrow> bool" where
  "devices_on R d \<longleftrightarrow> roms d = R"

definition devices_at :: "u64 list \<Rightarrow> nat \<Rightarrow> u64 list \<Rightarrow> devices \<Rightarrow> bool" where
  "devices_at R i A d \<longleftrightarrow> roms d = R \<and> active d = A \<and> slot d = 8 + 3 * i"

lemma device_slot_command:
  "slot d < 8 \<Longrightarrow> ow_send device_bus w d = d\<lparr>slot := slot d + 1\<rparr>"
  by (simp add: ow_send_def device_bus_def device_slot_def)

lemma send_bits_devices:
  assumes "slot d + k \<le> 8"
  shows "send_bits device_bus command k d = d\<lparr>slot := slot d + k\<rparr>"
  using assms by (induction k arbitrary: d) (simp_all add: device_slot_command)

lemma bus_level_zero: "ucast (drop_bit 24 (bus_level bs)) = (0 :: u8) \<longleftrightarrow> False \<in> set bs"
proof -
  have "ucast (drop_bit 24 (push_bit 31 (1 :: u32))) \<noteq> (0 :: u8)" by code_simp
  then show ?thesis by (auto simp: bus_level_def list_all_iff)
qed

lemma device_bit_slots:
  assumes "devices_at R i A d"
  shows "\<exists>x b1 y b2. ow_read device_bus d = (x, b1) \<and> (x = 0 \<longleftrightarrow> (\<exists>r\<in>set A. \<not> bit r i)) \<and>
    ow_read device_bus b1 = (y, b2) \<and> (y = 0 \<longleftrightarrow> (\<exists>r\<in>set A. bit r i)) \<and>
    (\<forall>w. devices_at R (Suc i) (filter (\<lambda>r. bit r i = bit w 0) A) (ow_send device_bus w b2))"
proof -
  let ?b1 = "d\<lparr>slot := slot d + 1, answer := bus_level (map (\<lambda>r. bit r i) A)\<rparr>"
  let ?b2 = "?b1\<lparr>slot := slot d + 2, answer := bus_level (map (\<lambda>r. \<not> bit r i) A)\<rparr>"
  have s: "slot d = 8 + 3 * i" "active d = A" "roms d = R" using assms by (auto simp: devices_at_def)
  have n: "Suc (3 * i) div 3 = i" "Suc (3 * i) mod 3 = 1" "Suc (Suc (3 * i)) div 3 = i" "Suc (Suc (3 * i)) mod 3 = 2"
    by presburger+
  have "ow_read device_bus d = (ucast (drop_bit 24 (bus_level (map (\<lambda>r. bit r i) A))), ?b1)"
    by (simp add: ow_read_def device_bus_def device_slot_def s)
  moreover have "ow_read device_bus ?b1 = (ucast (drop_bit 24 (bus_level (map (\<lambda>r. \<not> bit r i) A))), ?b2)"
    by (simp add: ow_read_def device_bus_def device_slot_def s n)
  moreover have "devices_at R (Suc i) (filter (\<lambda>r. bit r i = bit w 0) A) (ow_send device_bus w ?b2)" for w
    by (simp add: ow_send_def device_bus_def device_slot_def devices_at_def s n)
  ultimately show ?thesis by (auto simp: bus_level_zero)
qed

interpretation dev: search_bus device_bus devices_on devices_on devices_at "\<lambda>_. True"
proof unfold_locales
  show "fst (ow_reset device_bus b) = (R \<noteq> []) \<and> devices_on R (snd (ow_reset device_bus b))"
    if "devices_on R b" for R b
    using that by (simp add: devices_on_def ow_reset_def device_bus_def)
  show "devices_at R 0 R (send_bits device_bus command 8 (snd (ow_reset device_bus b)))"
    if "devices_on R b" for R b command
  proof -
    let ?b = "snd (ow_reset device_bus b)"
    have "slot ?b = 0" "active ?b = R" "roms ?b = R"
      using that by (simp_all add: devices_on_def ow_reset_def device_bus_def)
    then show ?thesis by (simp add: send_bits_devices devices_at_def)
  qed
qed (use device_bit_slots in \<open>assumption | simp add: devices_on_def devices_at_def device_bus_def\<close>)+

text \<open>On a bus whose devices follow the search protocol, the unlimited search returns the number of
  devices and writes the address of every device exactly once at the front of the caller's array,
  whatever the addresses and their number; it makes one pass per device.\<close>

theorem onewire_search_complete:
  assumes "card (set (roms d)) \<le> length rs" "card (set (roms d)) < passes"
  shows "\<exists>xs d'. ow_romsearch device_bus passes (Some rs) 0 command d =
      Inr (Some (int (card (set (roms d))), Some (xs @ drop (length xs) rs), d')) \<and>
    distinct xs \<and> set xs = set (roms d)"
proof (cases "roms d = []")
  case True
  with dev.ow_romsearch_none [of d 0 passes "Some rs" command] assms show ?thesis
    by (auto simp: devices_on_def)
next
  case False
  with dev.ow_romsearch_found [OF TrueI, of "roms d" d 0 passes "Some rs" command] assms
  obtain xs d' where xs: "ow_romsearch device_bus passes (Some rs) 0 command d =
      Inr (Some (int (length xs), put_roms 0 xs (Some rs), d'))" "distinct xs" "set xs \<subseteq> set (roms d)"
    "length xs = card (set (roms d))"
    by (auto simp: devices_on_def pass_limit_def)
  then have "set xs = set (roms d)" by (metis List.finite_set card_subset_eq distinct_card)
  with xs show ?thesis by (intro exI [of _ xs] exI [of _ d']) (simp add: put_roms_def)
qed

definition two_sensors :: devices where
  "two_sensors = \<lparr> roms = [0x28FF640000000017, 0x10AB000000000042], active = [], slot = 0, answer = 0 \<rparr>"

theorem onewire_search_complete_witness:
  "\<exists>xs d'. ow_romsearch device_bus 3 (Some [0, 0]) 0 0xF0 two_sensors =
      Inr (Some (int (card (set (roms two_sensors))), Some (xs @ drop (length xs) [0, 0]), d')) \<and>
    distinct xs \<and> set xs = set (roms two_sensors)"
  by (rule onewire_search_complete) (simp_all add: two_sensors_def card_insert_if)

text \<open>The limited search the sensor driver makes (one device, one slot of memory) returns 1 and an
  address that belongs to a device of the bus, and returns 0 without writing when no device is there.\<close>

theorem onewire_search_first:
  "if roms d = [] then \<exists>d'. ow_romsearch device_bus 2 (Some [rc]) 1 command d = Inr (Some (0, Some [rc], d'))
   else \<exists>rc' d'. ow_romsearch device_bus 2 (Some [rc]) 1 command d = Inr (Some (1, Some [rc'], d')) \<and>
     rc' \<in> set (roms d)"
  using dev.search_none [of d rc command] dev.search_one [OF TrueI, of "roms d" d rc command] by (auto simp: devices_on_def)

text \<open>Two conflicting answers for the same bit, as when the device is unplugged during the search, end the
  pass with the error branch.\<close>

lemma rom_loop_error:
  assumes "ow_read bus b = (x, b1)" "ow_read bus b1 = (y, b2)" "x \<noteq> 0" "y \<noteq> 0"
  shows "rom_loop bus bp (Suc k) (r, nbp, fin, b) = (True, r, nbp, True, b2)"
  using assms by simp

text \<open>C40: When the device answers the reset and then disappears (both reads of a bit give 1), the search
  stores the address at index -2 of the caller's array, out of its bounds for every array; only
  with a null array does it return the documented -1.\<close>

theorem onewire_error_out_of_bounds:
  assumes "ow_reset bus (sm_init bus 1 b) = (True, b1)" "0 \<le> maxdevs"
    and "ow_read bus (send_bits bus command 8 b1) = (x, b2)" "ow_read bus b2 = (y, b3)" "x \<noteq> 0" "y \<noteq> 0"
  shows "ow_romsearch bus (f + 2) (Some rs) maxdevs command b = Inl Out_Of_Bounds \<and>
    ow_romsearch bus (f + 2) None maxdevs command b = Inr (Some (- 1, None, sm_init bus 8 b3))"
proof -
  have "rom_loop bus (- 1) 64 (0, - 1, True, send_bits bus command 8 b1) = (True, 0, - 1, True, b3)"
    using rom_loop_error [OF assms(3-6), where k = 63] by simp
  then show ?thesis
    using assms(1,2) by (auto simp: ow_romsearch_def store_rom_def simp del: rom_loop.simps)
qed

text \<open>A bus that answers the reset and is silent afterwards; the state says whether the last
  instruction was the reset.\<close>

definition unplugged_bus :: "bool pio_bus" where
  "unplugged_bus = \<lparr> sm_init = (\<lambda>_ b. b), sm_put = (\<lambda>_ _. False),
     sm_get = (\<lambda>b. (if b then 0 else push_bit 31 1, b)), sm_exec_reset = (\<lambda>_. True) \<rparr>"

theorem onewire_error_out_of_bounds_witness:
  "ow_romsearch unplugged_bus 2 (Some [0]) 1 0xF0 False = Inl Out_Of_Bounds \<and>
   ow_romsearch unplugged_bus 2 None 1 0xF0 False = Inr (Some (- 1, None, False))"
proof -
  have r: "ow_reset unplugged_bus (sm_init unplugged_bus 1 False) = (True, True)"
    by (simp add: ow_reset_def unplugged_bus_def)
  have c: "send_bits unplugged_bus 0xF0 8 True = False"
    by (simp add: eval_nat_numeral ow_send_def unplugged_bus_def)
  have "ow_read unplugged_bus False = (128, False)"
    by (simp add: ow_read_def unplugged_bus_def)
  with onewire_error_out_of_bounds [OF r, of 1 "0xF0" 128 False 128 False 0 "[0]"] c
  show ?thesis by (simp add: unplugged_bus_def [THEN arg_cong, of sm_init] flip: numeral_2_eq_2)
qed

end
