(* ===== verification/Ds18b20.thy ===== *)
theory Ds18b20
  imports Onewire_Search C_Float
begin

text \<open>
  \<open>src/ds18b20_pio/ds18b20.c\<close>: the driver of the water temperature sensor on the 1-Wire bus.

  The bus is the parameter of theory \<open>Onewire\<close>. What the allocator and the PIO resource
  functions of the SDK answer is an argument; the resources taken and given back are collected in
  order.
\<close>

section \<open>Model\<close>

definition DS18B20_CONVERT_T :: u32 where "DS18B20_CONVERT_T = 0x44"
definition DS18B20_READ_SCRATCHPAD :: u32 where "DS18B20_READ_SCRATCHPAD = 0xBE"
definition DS18B20_DATA_LENGTH :: nat where "DS18B20_DATA_LENGTH = 9"

record ds18b20_t =
  ds_data :: bytes
  temperature :: fl
  ow :: "OW option"

datatype ds_resource =
    Ow_Malloc | Ow_Free
  | Program_Add | Program_Remove int
  | Sm_Claim | Ow_Sm_Disable u32 | Ow_Pin_Input int | Sm_Release u32

record ds_env =
  ow_malloc_ok :: bool
  can_add_program :: bool
  program_offset :: u32
  claimed_sm :: int               \<comment> \<open>\<open>pio_claim_unused_sm\<close>, -1 when none is free\<close>
  reset_instr :: u32
  romcode_stack :: u64            \<comment> \<open>the indeterminate value of the local variable\<close>

text \<open>\<open>num_devs\<close> is an 8-bit variable. \<open>None\<close>: the search has not ended within the passes.\<close>

definition ds18b20_init ::
  "'b pio_bus \<Rightarrow> nat \<Rightarrow> ds_env \<Rightarrow> nat \<Rightarrow> u8 \<Rightarrow> 'b \<Rightarrow> (int \<times> ds18b20_t \<times> 'b \<times> ds_resource list) option ub" where
  "ds18b20_init bus passes env p pin b =
    (let ds = \<lparr> ds_data = replicate DS18B20_DATA_LENGTH 0, temperature = fl_of_int 0, ow = None \<rparr> in
     if \<not> ow_malloc_ok env then Inr (Some (1, ds, b, []))
     else if \<not> can_add_program env then Inr (Some (2, ds, b, [Ow_Malloc, Ow_Free]))
     else case ow_init bus (claimed_sm env) (reset_instr env) p (program_offset env) (ucast pin) b of
       (None, b1) \<Rightarrow> Inr (Some (3, ds, b1, [Ow_Malloc, Program_Add, Ow_Free]))
     | (Some ow_inst, b1) \<Rightarrow>
         bindE (ow_romsearch bus passes (Some [romcode_stack env]) 1 OW_SEARCH_ROM b1) (\<lambda>r. Inr (map_option (\<lambda>(n, _, b2).
           (let num_devs = (of_int n :: u8) in
            (if num_devs = 0 then 4 else 0, ds\<lparr>ow := Some ow_inst\<rparr>, b2, [Ow_Malloc, Program_Add, Sm_Claim]))) r)))"

text \<open>The pointer is read before it is compared with null.\<close>

definition ds18b20_deinit :: "ds18b20_t option \<Rightarrow> ds_resource list ub" where
  "ds18b20_deinit p =
    (case p of
       None \<Rightarrow> Inl Null_Deref
     | Some ds \<Rightarrow>
         (case ow ds of
            None \<Rightarrow> Inr []
          | Some i \<Rightarrow> Inr [Ow_Sm_Disable (ow_sm i), Ow_Pin_Input (gpio i), Sm_Release (ow_sm i),
                         Program_Remove (ow_offset i), Ow_Free]))"

definition ds18b20_convert :: "'b pio_bus \<Rightarrow> ds18b20_t \<Rightarrow> 'b \<Rightarrow> 'b ub" where
  "ds18b20_convert bus ds b =
    (case ow ds of
       None \<Rightarrow> Inl Null_Deref
     | Some _ \<Rightarrow> Inr (ow_send bus DS18B20_CONVERT_T (ow_send bus OW_SKIP_ROM (snd (ow_reset bus b)))))"

text \<open>The inner loop over the bits of one byte and the outer loop over the bytes, with \<open>k\<close> rounds
  to go.\<close>

fun crc8_byte :: "nat \<Rightarrow> u8 \<Rightarrow> u8 \<Rightarrow> u8" where
  "crc8_byte 0 crc databyte = crc"
| "crc8_byte (Suc k) crc databyte =
    (let temp = (crc XOR databyte) AND 0x01; crc1 = drop_bit 1 crc
     in crc8_byte k (if temp \<noteq> 0 then crc1 XOR 0x8C else crc1) (drop_bit 1 databyte))"

fun crc8_loop :: "bytes \<Rightarrow> nat \<Rightarrow> nat \<Rightarrow> u8 \<Rightarrow> u8 ub" where
  "crc8_loop data i 0 crc = Inr crc"
| "crc8_loop data i (Suc k) crc =
    bindE (buf_get data i) (\<lambda>databyte. crc8_loop data (Suc i) k (crc8_byte 8 crc databyte))"

definition CRC8_calculation :: "bytes \<Rightarrow> u8 \<Rightarrow> u8 ub" where
  "CRC8_calculation data len = crc8_loop data 0 (unat len) 0"

fun scratchpad_loop :: "'b pio_bus \<Rightarrow> nat \<Rightarrow> nat \<Rightarrow> bytes \<Rightarrow> 'b \<Rightarrow> (bytes \<times> 'b) ub" where
  "scratchpad_loop bus i 0 data b = Inr (data, b)"
| "scratchpad_loop bus i (Suc k) data b =
    (let (x, b1) = ow_read bus b in
     bindE (buf_put data i x) (\<lambda>data'. scratchpad_loop bus (Suc i) k data' b1))"

definition ds18b20_read_scratchpad :: "'b pio_bus \<Rightarrow> ds18b20_t \<Rightarrow> 'b \<Rightarrow> (u8 \<times> ds18b20_t \<times> 'b) ub" where
  "ds18b20_read_scratchpad bus ds b =
    (case ow ds of
       None \<Rightarrow> Inl Null_Deref
     | Some _ \<Rightarrow>
         (let b1 = ow_send bus DS18B20_READ_SCRATCHPAD (ow_send bus OW_SKIP_ROM (snd (ow_reset bus b))) in
          bindE (scratchpad_loop bus 0 DS18B20_DATA_LENGTH (ds_data ds) b1) (\<lambda>(data, b2).
          bindE (CRC8_calculation data (of_nat DS18B20_DATA_LENGTH)) (\<lambda>crc.
            Inr (crc, ds\<lparr>ds_data := data\<rparr>, b2)))))"

definition ds18b20_data_to_temperature :: "u8 \<Rightarrow> u8 \<Rightarrow> fl" where
  "ds18b20_data_to_temperature low_byte high_byte =
    (let temp_int = (ucast low_byte OR push_bit 8 (ucast high_byte) :: u16)
     in fl_shift (fl_of_int (sint temp_int)) 4)"

definition ds18b20_read_temperature :: "'b pio_bus \<Rightarrow> ds18b20_t \<Rightarrow> 'b \<Rightarrow> (u8 \<times> ds18b20_t \<times> 'b) ub" where
  "ds18b20_read_temperature bus ds b =
    bindE (ds18b20_read_scratchpad bus ds b) (\<lambda>(res, ds1, b1).
      if res \<noteq> 0 then Inr (1, ds1, b1)
      else bindE (buf_get (ds_data ds1) 0) (\<lambda>low. bindE (buf_get (ds_data ds1) 1) (\<lambda>high.
             Inr (0, ds1\<lparr>temperature := ds18b20_data_to_temperature low high\<rparr>, b1))))"

section \<open>The checksum\<close>

text \<open>One step of the shift register on the sum of register and data.\<close>

definition crc8_shift :: "u8 \<Rightarrow> u8" where
  "crc8_shift c = (if c AND 1 \<noteq> 0 then drop_bit 1 c XOR 0x8C else drop_bit 1 c)"

definition crc8_step :: "u8 \<Rightarrow> u8" where
  "crc8_step = (crc8_shift ^^ 8)"

lemma crc8_shift_inj: "inj crc8_shift"
proof (rule injI)
  fix a b assume eq: "crc8_shift a = crc8_shift b"
  have b7: "bit (crc8_shift c) 7 = bit c 0" for c
    using bit_imp_le_length [of c 8] by (auto simp: crc8_shift_def bit_simps and_one_eq bit_0 simp flip: odd_iff_mod_2_eq_one)
  have rest: "bit c (Suc n) = (bit (crc8_shift c) n \<noteq> (bit c 0 \<and> bit (0x8C :: u8) n))" for c n
    by (auto simp: crc8_shift_def bit_simps and_one_eq bit_0 simp flip: odd_iff_mod_2_eq_one)
  have zero: "bit a 0 = bit b 0" using b7 eq by metis
  show "a = b"
  proof (rule bit_eqI)
    fix n show "bit a n = bit b n"
      using zero rest [of a] rest [of b] eq by (cases n) auto
  qed
qed

lemma crc8_step_inj: "crc8_step a = crc8_step b \<longleftrightarrow> a = b"
  using inj_fn [OF crc8_shift_inj, of 8] by (auto simp: crc8_step_def dest: injD)

lemma crc8_step_0 [simp]: "crc8_step 0 = 0"
proof -
  have "(crc8_shift ^^ n) 0 = 0" for n by (induction n) (auto simp: crc8_shift_def)
  then show ?thesis by (simp add: crc8_step_def)
qed

lemma crc8_byte_shift: "crc8_byte k crc d XOR drop_bit k d = (crc8_shift ^^ k) (crc XOR d)"
proof (induction k arbitrary: crc d)
  case (Suc k)
  let ?c = "if (crc XOR d) AND 1 \<noteq> 0 then drop_bit 1 crc XOR 0x8C else drop_bit 1 crc"
  have "?c XOR drop_bit 1 d = crc8_shift (crc XOR d)"
    by (auto simp: crc8_shift_def drop_bit_xor ac_simps)
  with Suc [of ?c "drop_bit 1 d"] show ?case
    by (simp add: Let_def drop_bit_drop_bit funpow_swap1 split: if_splits)
qed simp

lemma crc8_byte_eq: "crc8_byte 8 crc d = crc8_step (crc XOR d)"
proof -
  have "drop_bit 8 d = 0" by (rule bit_eqI) (auto simp: bit_simps dest: bit_imp_le_length)
  with crc8_byte_shift [of 8 crc d] show ?thesis by (simp add: crc8_step_def)
qed

definition crc8 :: "bytes \<Rightarrow> u8" where
  "crc8 bs = foldl (\<lambda>c d. crc8_step (c XOR d)) 0 bs"

lemma crc8_loop_eq:
  "i + k \<le> length data \<Longrightarrow>
    crc8_loop data i k c = Inr (foldl (\<lambda>c d. crc8_step (c XOR d)) c (take k (drop i data)))"
proof (induction k arbitrary: i c)
  case (Suc k)
  then have "take (Suc k) (drop i data) = data ! i # take k (drop (Suc i) data)"
    by (simp add: Cons_nth_drop_Suc [symmetric])
  with Suc show ?case by (simp add: crc8_byte_eq del: crc8_byte.simps)
qed simp

lemma CRC8_calculation_eq:
  "unat len \<le> length data \<Longrightarrow> CRC8_calculation data len = Inr (crc8 (take (unat len) data))"
  by (simp add: CRC8_calculation_def crc8_loop_eq crc8_def)

lemma crc8_foldl_inj:
  "foldl (\<lambda>c d. crc8_step (c XOR d)) a bs = foldl (\<lambda>c d. crc8_step (c XOR d)) b bs \<longleftrightarrow> a = b"
proof (induction bs arbitrary: a b)
  case (Cons d bs)
  have "a XOR d = b XOR d \<longleftrightarrow> a = b" by (metis xor.assoc xor.right_neutral xor_self_eq)
  with Cons show ?case by (simp add: crc8_step_inj)
qed simp

subsection \<open>The checksum as a polynomial remainder\<close>

text \<open>Division of a polynomial over the two-element field, given by its coefficients from the
  highest power down, by \<open>x^8 + x^5 + x^4 + 1\<close>: while more than eight coefficients are left, the
  leading one is removed by subtracting the divisor.\<close>

definition dallas_tail :: "bool list" where
  "dallas_tail = [False, False, True, True, False, False, False, True]"

fun gf2_rem :: "bool list \<Rightarrow> bool list" where
  "gf2_rem [] = []"
| "gf2_rem (b # p) =
    (if length p < 8 then b # p
     else gf2_rem ((if b then map2 (\<noteq>) (take 8 p) dallas_tail else take 8 p) @ drop 8 p))"

declare gf2_rem.simps(2) [simp del]

text \<open>The bits of a byte in the order of transmission.\<close>

definition bits8 :: "u8 \<Rightarrow> bool list" where
  "bits8 w = map (bit w) [0..<8]"

definition crc8_in :: "u8 \<Rightarrow> bool \<Rightarrow> u8" where
  "crc8_in r m = crc8_shift r XOR push_bit 7 (of_bool m)"

lemma length_bits8 [simp]: "length (bits8 w) = 8"
  by (simp add: bits8_def)

lemma bit_crc8_shift: "bit (crc8_shift r) n \<longleftrightarrow> bit r (Suc n) \<noteq> (bit r 0 \<and> (n = 2 \<or> n = 3 \<or> n = 7))"
proof -
  have "list_all (\<lambda>n. bit (0x8C :: u8) n \<longleftrightarrow> n = 2 \<or> n = 3 \<or> n = 7) [0..<8]" by code_simp
  then have "bit (0x8C :: u8) n \<longleftrightarrow> n = 2 \<or> n = 3 \<or> n = 7"
    using bit_imp_le_length [of "0x8C :: u8" n] by (cases "n < 8") (auto simp: list_all_iff)
  then show ?thesis
    by (auto simp: crc8_shift_def bit_simps and_one_eq bit_0 simp flip: odd_iff_mod_2_eq_one)
qed

lemma bits8_eq: "bits8 w = [bit w 0, bit w 1, bit w 2, bit w 3, bit w 4, bit w 5, bit w 6, bit w 7]"
  by (simp add: bits8_def upt_rec eval_nat_numeral)

lemma bit_crc8_in: "n < 8 \<Longrightarrow> bit (crc8_in r m) n \<longleftrightarrow> bit (crc8_shift r) n \<noteq> (n = 7 \<and> m)"
  by (auto simp: crc8_in_def bit_xor_iff bit_push_bit_iff bit_0 simp del: push_bit_of_1 push_bit_numeral)

lemma bits8_crc8_in:
  "bits8 (crc8_in r m) =
    (let p = [bit r 1, bit r 2, bit r 3, bit r 4, bit r 5, bit r 6, bit r 7, m]
     in if bit r 0 then map2 (\<noteq>) p dallas_tail else p)"
proof -
  have "\<not> bit r 8" using bit_imp_le_length [of r 8] by auto
  then show ?thesis
    by (simp add: bits8_eq dallas_tail_def bit_crc8_in bit_crc8_shift eval_nat_numeral Let_def)
qed

lemma gf2_rem_register: "gf2_rem (bits8 r @ ms) = bits8 (foldl crc8_in r ms)"
proof (induction ms arbitrary: r)
  case Nil
  show ?case by (simp add: bits8_eq gf2_rem.simps(2))
next
  case (Cons m ms)
  have "gf2_rem (bits8 r @ m # ms) = gf2_rem (bits8 (crc8_in r m) @ ms)"
    unfolding bits8_crc8_in by (simp add: bits8_eq [of r] gf2_rem.simps(2) [of "bit r 0"] dallas_tail_def Let_def)
  with Cons show ?case by simp
qed

lemma crc8_shift_xor: "crc8_shift (a XOR b) = crc8_shift a XOR crc8_shift b"
  by (rule bit_eqI) (auto simp: bit_xor_iff bit_crc8_shift)

text \<open>Eight bits shifted in do not reach the end of the register.\<close>

lemma crc8_in_bits:
  assumes "k \<le> 8"
  shows "foldl crc8_in r (map (bit d) [0..<k]) = (crc8_shift ^^ k) r XOR push_bit (8 - k) (take_bit k d)"
  using assms
proof (induction k)
  case (Suc k)
  let ?x = "push_bit (8 - k) (take_bit k d)"
  have "crc8_in ?x (bit d k) = push_bit (8 - Suc k) (take_bit (Suc k) d)"
  proof (rule bit_eqI)
    fix n assume "possible_bit TYPE(u8) n"
    then have "n < 8" by simp
    then show "bit (crc8_in ?x (bit d k)) n = bit (push_bit (8 - Suc k) (take_bit (Suc k) d)) n"
      using Suc.prems
      by (cases "n = 7") (auto simp: bit_crc8_in bit_crc8_shift bit_push_bit_iff bit_take_bit_iff Suc_diff_le)
  qed
  with Suc show ?case by (simp add: crc8_in_def crc8_shift_xor xor.assoc)
qed simp

lemma crc8_in_byte: "foldl crc8_in r (bits8 d) = crc8_step r XOR d"
proof -
  have "take_bit 8 d = d" by (rule bit_eqI) (auto simp: bit_take_bit_iff dest: bit_imp_le_length)
  with crc8_in_bits [of 8 r d] show ?thesis by (simp add: bits8_def crc8_step_def)
qed

lemma foldl_crc8_in:
  "foldl crc8_in r (concat (map bits8 bs) @ replicate 8 False) = foldl (\<lambda>c d. crc8_step (c XOR d)) (crc8_step r) bs"
proof (induction bs arbitrary: r)
  case Nil
  have "bits8 0 = replicate 8 False" by (simp add: bits8_eq numeral_eq_Suc)
  then show ?case using crc8_in_byte [of r 0] by (simp only: list.map concat.simps append.simps foldl.simps) simp
next
  case (Cons d bs)
  then show ?case by (simp add: crc8_in_byte)
qed

text \<open>C20: The checksum the driver computes bit by bit over the bytes is the remainder of the message,
  followed by eight zero bits, on division by the generator polynomial \<open>x^8 + x^5 + x^4 + 1\<close> of the
  1-Wire standard; it reads exactly the bytes it is told to.\<close>

theorem crc8_polynomial_remainder:
  assumes "unat len \<le> length data"
  shows "\<exists>c. CRC8_calculation data len = Inr c \<and>
    bits8 c = gf2_rem (concat (map bits8 (take (unat len) data)) @ replicate 8 False)"
proof -
  have "bits8 (crc8 bs) = gf2_rem (concat (map bits8 bs) @ replicate 8 False)" for bs
  proof (cases bs)
    case Nil
    have "gf2_rem (bits8 0 @ []) = bits8 0" unfolding gf2_rem_register by simp
    then show ?thesis by (simp add: Nil crc8_def bits8_eq eval_nat_numeral)
  next
    case (Cons d ds)
    then show ?thesis using gf2_rem_register [of d] foldl_crc8_in [of d ds] by (simp add: crc8_def)
  qed
  with CRC8_calculation_eq [OF assms] show ?thesis by simp
qed

theorem crc8_polynomial_remainder_witness:
  "\<exists>c. CRC8_calculation [0x02, 0x1C, 0xB8] 3 = Inr c \<and>
    bits8 c = gf2_rem (concat (map bits8 [0x02, 0x1C, 0xB8]) @ replicate 8 False)"
  using crc8_polynomial_remainder [of 3 "[0x02, 0x1C, 0xB8]"] by simp

section \<open>Reading the sensor\<close>

text \<open>The next \<open>n\<close> bytes of the bus.\<close>

fun ow_reads :: "'b pio_bus \<Rightarrow> nat \<Rightarrow> 'b \<Rightarrow> bytes \<times> 'b" where
  "ow_reads bus 0 b = ([], b)"
| "ow_reads bus (Suc n) b = (let (x, b1) = ow_read bus b; (xs, b2) = ow_reads bus n b1 in (x # xs, b2))"

lemma length_ow_reads: "ow_reads bus n b = (bs, b') \<Longrightarrow> length bs = n"
  by (induction n arbitrary: b bs) (auto split: prod.splits)

lemma scratchpad_loop_eq:
  assumes "length data = n" "i + k = n" "ow_reads bus k b = (bs, b')"
  shows "scratchpad_loop bus i k data b = Inr (take i data @ bs, b')"
  using assms
proof (induction k arbitrary: i data b bs)
  case (Suc k)
  obtain x b1 where x: "ow_read bus b = (x, b1)" by fastforce
  obtain xs where xs: "ow_reads bus k b1 = (xs, b')" "bs = x # xs"
    using Suc.prems(3) x by (auto split: prod.splits)
  have "scratchpad_loop bus (Suc i) k (data[i := x]) b1 = Inr (take (Suc i) (data[i := x]) @ xs, b')"
    using Suc.IH [OF _ _ xs(1)] Suc.prems by simp
  moreover have "take (Suc i) (data[i := x]) = take i data @ [x]"
    using Suc.prems by (simp add: take_Suc_conv_app_nth)
  ultimately show ?case using x xs Suc.prems by simp
qed simp

text \<open>Where the driver starts to read.\<close>

definition scratchpad_start :: "'b pio_bus \<Rightarrow> 'b \<Rightarrow> 'b" where
  "scratchpad_start bus b = ow_send bus DS18B20_READ_SCRATCHPAD (ow_send bus OW_SKIP_ROM (snd (ow_reset bus b)))"

lemma crc8_zero_iff: "length bs = Suc n \<Longrightarrow> crc8 bs = 0 \<longleftrightarrow> bs ! n = crc8 (take n bs)"
proof -
  assume "length bs = Suc n"
  then have "bs = take n bs @ [bs ! n]" by (metis lessI order_refl take_Suc_conv_app_nth take_all)
  then have "crc8 bs = crc8_step (crc8 (take n bs) XOR bs ! n)"
    by (metis (no_types, lifting) crc8_def foldl_Cons foldl_Nil foldl_append)
  then have "crc8 bs = 0 \<longleftrightarrow> crc8 (take n bs) XOR bs ! n = 0" by (metis crc8_step_0 crc8_step_inj)
  moreover have "a XOR b = 0 \<longleftrightarrow> b = a" for a b :: u8
    by (metis xor.assoc xor.right_neutral xor_self_eq)
  ultimately show ?thesis by simp
qed

lemma read_temperature_eq:
  assumes "ow ds = Some i" "length (ds_data ds) = 9" "ow_reads bus 9 (scratchpad_start bus b) = (bs, b')"
  shows "ds18b20_read_temperature bus ds b =
    (if bs ! 8 = crc8 (take 8 bs)
     then Inr (0, ds\<lparr>ds_data := bs, temperature := ds18b20_data_to_temperature (bs ! 0) (bs ! 1)\<rparr>, b')
     else Inr (1, ds\<lparr>ds_data := bs\<rparr>, b'))"
proof -
  have n: "length bs = 9" using length_ow_reads [OF assms(3)] .
  have "CRC8_calculation bs 9 = Inr (crc8 bs)" using CRC8_calculation_eq [of 9 bs] n by simp
  moreover have "crc8 bs = 0 \<longleftrightarrow> bs ! 8 = crc8 (take 8 bs)" by (rule crc8_zero_iff) (simp add: n)
  ultimately show ?thesis
    using assms(1) scratchpad_loop_eq [OF assms(2) _ assms(3), of 0] n
    by (simp add: ds18b20_read_temperature_def ds18b20_read_scratchpad_def DS18B20_DATA_LENGTH_def
        scratchpad_start_def [symmetric])
qed

lemma temperature_exact:
  "fl_val (ds18b20_data_to_temperature low high) =
    real_of_int (sint (ucast low OR push_bit 8 (ucast high) :: u16)) / 16"
proof -
  let ?i = "sint (ucast low OR push_bit 8 (ucast high) :: u16)"
  have r: "- (2 ^ 15) \<le> ?i" "?i < 2 ^ 15"
    using sint_range_size [of "ucast low OR push_bit 8 (ucast high) :: u16"] by (simp_all add: word_size)
  then have "\<bar>?i\<bar> < 2 ^ 24" by simp
  from fl_of_int_exact(1) [OF this] r show ?thesis
    by (simp add: ds18b20_data_to_temperature_def Let_def fl_shift_def fl_round_small fl_val_def fl_signed_def)
qed

text \<open>What a read does with the nine bytes the bus delivers: it accepts them exactly when the last is
  the checksum of the first eight; then it returns 0 and the stored temperature is exactly the
  signed 16-bit number of the first two bytes in sixteenths of a degree. Otherwise it returns 1
  and the temperature stays what it was.\<close>

theorem ds18b20_read_temperature_correct:
  assumes "ow ds = Some i" "length (ds_data ds) = 9" "ow_reads bus 9 (scratchpad_start bus b) = (bs, b')"
  shows "\<exists>r ds'. ds18b20_read_temperature bus ds b = Inr (r, ds', b') \<and> ow ds' = ow ds \<and> ds_data ds' = bs \<and>
    (if bs ! 8 = crc8 (take 8 bs)
     then r = 0 \<and> fl_val (temperature ds') = real_of_int (sint (ucast (bs ! 0) OR push_bit 8 (ucast (bs ! 1)) :: u16)) / 16
     else r = 1 \<and> temperature ds' = temperature ds)"
  unfolding read_temperature_eq [OF assms] by (simp add: temperature_exact)

text \<open>A bus whose state is the list of the bytes the sensor still has to send.\<close>

definition stream_bus :: "bytes pio_bus" where
  "stream_bus = \<lparr> sm_init = (\<lambda>_ b. b), sm_put = (\<lambda>_ b. b),
     sm_get = (\<lambda>b. case b of [] \<Rightarrow> (push_bit 24 0xff, []) | x # xs \<Rightarrow> (push_bit 24 (ucast x), xs)),
     sm_exec_reset = (\<lambda>b. 0 # b) \<rparr>"

definition ds_ready :: ds18b20_t where
  "ds_ready = \<lparr> ds_data = replicate 9 0, temperature = fl_of_int 0,
     ow = Some \<lparr> ow_pio = 1, ow_sm = 0, jmp_reset = 0, ow_offset = 0, gpio = 2 \<rparr> \<rparr>"

text \<open>The example of the data sheet, -10.125 degrees, after the two discarded responses.\<close>

definition cold_scratchpad :: bytes where
  "cold_scratchpad = [0x5E, 0xFF, 0x4B, 0x46, 0x7F, 0xFF, 0x02, 0x10, 0xB6]"

lemma cold_reads:
  "ow_reads stream_bus 9 (scratchpad_start stream_bus (0 # 0 # cold_scratchpad)) = (cold_scratchpad, [])"
  by code_simp

lemma cold_checksum: "cold_scratchpad ! 8 = crc8 (take 8 cold_scratchpad)"
proof -
  have "crc8_byte 8 0 0x5E = 0xC4"
    "crc8_byte 8 0xC4 0xFF = 0x9E"
    "crc8_byte 8 0x9E 0x4B = 0x68"
    "crc8_byte 8 0x68 0x46 = 0x3C"
    "crc8_byte 8 0x3C 0x7F = 0xA4"
    "crc8_byte 8 0xA4 0xFF = 0xFB"
    "crc8_byte 8 0xFB 0x02 = 0xE8"
    "crc8_byte 8 0xE8 0x10 = 0xB6"
    by code_simp+
  then have "crc8 (take 8 cold_scratchpad) = 0xB6"
    by (simp only: cold_scratchpad_def crc8_def crc8_byte_eq [symmetric]) (simp del: crc8_byte.simps)
  then show ?thesis by (simp add: cold_scratchpad_def)
qed

theorem ds18b20_read_temperature_correct_witness:
  "\<exists>ds'. ds18b20_read_temperature stream_bus ds_ready (0 # 0 # cold_scratchpad) = Inr (0, ds', []) \<and>
    fl_val (temperature ds') = - 10.125"
proof -
  have t: "sint (ucast (cold_scratchpad ! 0) OR push_bit 8 (ucast (cold_scratchpad ! 1)) :: u16) = - 162" by code_simp
  have o: "ow ds_ready = Some (the (ow ds_ready))" and n: "length (ds_data ds_ready) = 9"
    by (simp_all add: ds_ready_def)
  show ?thesis
    using ds18b20_read_temperature_correct [OF o n cold_reads] unfolding if_P [OF cold_checksum] t by auto
qed

text \<open>C29: A scratchpad that was transmitted with any one of its nine bytes altered, in whatever way, is
  rejected: the read returns 1 and no temperature is stored.\<close>

theorem ds18b20_corruption_detected:
  assumes "ow ds = Some i" "length (ds_data ds) = 9"
    and "length sent = 9" "sent ! 8 = crc8 (take 8 sent)"
    and "k < 9" "v \<noteq> sent ! k" "ow_reads bus 9 (scratchpad_start bus b) = (sent[k := v], b')"
  shows "\<exists>ds'. ds18b20_read_temperature bus ds b = Inr (1, ds', b') \<and> temperature ds' = temperature ds"
proof -
  let ?f = "foldl (\<lambda>c d. crc8_step (c XOR d))"
  have split: "sent = take k sent @ sent ! k # drop (Suc k) sent"
    using assms(3,5) by (metis id_take_nth_drop)
  have upd: "sent[k := v] = take k sent @ v # drop (Suc k) sent"
    using assms(3,5) by (simp add: upd_conv_take_nth_drop)
  have "crc8 sent = ?f (crc8_step (crc8 (take k sent) XOR sent ! k)) (drop (Suc k) sent)"
    by (subst split) (simp add: crc8_def)
  moreover have "crc8 (sent[k := v]) = ?f (crc8_step (crc8 (take k sent) XOR v)) (drop (Suc k) sent)"
    by (simp add: upd crc8_def)
  moreover have "a XOR x = a XOR y \<longleftrightarrow> x = y" for a x y :: u8
    by (metis xor.assoc xor.left_neutral xor_self_eq)
  ultimately have "crc8 (sent[k := v]) \<noteq> crc8 sent"
    using assms(6) by (simp add: crc8_foldl_inj crc8_step_inj)
  then have "sent[k := v] ! 8 \<noteq> crc8 (take 8 (sent[k := v]))"
    using crc8_zero_iff [of sent 8] crc8_zero_iff [of "sent[k := v]" 8] assms(3,4) by simp
  then show ?thesis unfolding read_temperature_eq [OF assms(1,2,7)] by simp
qed

theorem ds18b20_corruption_detected_witness:
  "\<exists>ds'. ds18b20_read_temperature stream_bus ds_ready (0 # 0 # cold_scratchpad[1 := 0x00]) = Inr (1, ds', []) \<and>
    temperature ds' = temperature ds_ready"
proof (rule ds18b20_corruption_detected [where k = 1 and v = "0x00" and sent = cold_scratchpad])
  show "ow ds_ready = Some (the (ow ds_ready))" "length (ds_data ds_ready) = 9" by (simp_all add: ds_ready_def)
  show "ow_reads stream_bus 9 (scratchpad_start stream_bus (0 # 0 # cold_scratchpad[1 := 0x00])) =
    (cold_scratchpad[1 := 0x00], [])" by code_simp
qed (use cold_checksum in \<open>simp_all add: cold_scratchpad_def\<close>)

section \<open>Initialisation and release\<close>

lemma ds18b20_init_devices:
  "\<exists>ds d'. ds18b20_init device_bus 2 env p pin d = Inr (Some
     (if \<not> ow_malloc_ok env then 1 else if \<not> can_add_program env then 2
      else if claimed_sm env = - 1 then 3 else if roms d = [] then 4 else 0, ds, d',
      if \<not> ow_malloc_ok env then [] else if \<not> can_add_program env then [Ow_Malloc, Ow_Free]
      else if claimed_sm env = - 1 then [Ow_Malloc, Program_Add, Ow_Free]
      else [Ow_Malloc, Program_Add, Sm_Claim])) \<and>
    (ow ds \<noteq> None \<longleftrightarrow> ow_malloc_ok env \<and> can_add_program env \<and> claimed_sm env \<noteq> - 1) \<and> length (ds_data ds) = 9"
proof -
  have init: "sm_init device_bus n d = d" for n d by (simp add: device_bus_def)
  obtain mem d' where search: "ow_romsearch device_bus 2 (Some [romcode_stack env]) 1 OW_SEARCH_ROM d =
      Inr (Some (if roms d = [] then 0 else 1, mem, d'))"
    using dev.search_none [of d "romcode_stack env" OW_SEARCH_ROM]
      dev.search_one [OF TrueI, of "roms d" d "romcode_stack env" OW_SEARCH_ROM]
    by (cases "roms d = []") (auto simp: devices_on_def)
  show ?thesis
    by (cases "roms d = []")
      (simp_all add: ds18b20_init_def ow_init_def init search Let_def DS18B20_DATA_LENGTH_def del: bindE_eq_Inr)
qed

text \<open>Initialisation on a bus with well-behaved devices always ends, and its code names the first thing
  that is missing: 1 memory, 2 program space, 3 a state machine, 4 a device, 0 nothing. With code 2
  everything taken is given back; with code 3 the program stays loaded; with code 4 the memory, the
  program and the state machine all stay taken.\<close>

theorem ds18b20_init_result:
  "\<exists>ds d' rs. ds18b20_init device_bus 2 env p pin d = Inr (Some
     (if \<not> ow_malloc_ok env then 1 else if \<not> can_add_program env then 2
      else if claimed_sm env = - 1 then 3 else if roms d = [] then 4 else 0, ds, d', rs)) \<and>
    (ow ds \<noteq> None \<longleftrightarrow> ow_malloc_ok env \<and> can_add_program env \<and> claimed_sm env \<noteq> - 1) \<and>
    rs = (if \<not> ow_malloc_ok env then [] else if \<not> can_add_program env then [Ow_Malloc, Ow_Free]
          else if claimed_sm env = - 1 then [Ow_Malloc, Program_Add, Ow_Free]
          else [Ow_Malloc, Program_Add, Sm_Claim])"
  using ds18b20_init_devices [of env p pin d] by blast

text \<open>What a successful initialisation has taken, \<open>ds18b20_deinit\<close> gives back: it stops and releases the
  claimed state machine, unloads the program from where it was loaded and frees the driver object.\<close>

theorem ds18b20_deinit_releases:
  assumes "ds18b20_init bus passes env p pin b = Inr (Some (0, ds, b', rs))"
  shows "rs = [Ow_Malloc, Program_Add, Sm_Claim] \<and>
    ds18b20_deinit (Some ds) = Inr [Ow_Sm_Disable (of_int (claimed_sm env)), Ow_Pin_Input (uint pin),
      Sm_Release (of_int (claimed_sm env)), Program_Remove (uint (program_offset env)), Ow_Free]"
proof -
  have "uint (ucast pin :: u32) = uint pin" by (simp add: uint_up_ucast is_up)
  with assms show ?thesis
    by (auto simp: ds18b20_init_def ow_init_def Let_def ds18b20_deinit_def split: if_splits)
qed

theorem ds18b20_deinit_releases_witness:
  "\<exists>ds b' rs. ds18b20_init device_bus 2 (\<lparr> ow_malloc_ok = True, can_add_program = True, program_offset = 5,
       claimed_sm = 3, reset_instr = 0, romcode_stack = 0 \<rparr>) 1 2 two_sensors = Inr (Some (0, ds, b', rs)) \<and>
    rs = [Ow_Malloc, Program_Add, Sm_Claim] \<and>
    ds18b20_deinit (Some ds) = Inr [Ow_Sm_Disable 3, Ow_Pin_Input 2, Sm_Release 3, Program_Remove 5, Ow_Free]"
proof -
  let ?env = "\<lparr> ow_malloc_ok = True, can_add_program = True, program_offset = 5,
       claimed_sm = 3, reset_instr = 0, romcode_stack = 0 \<rparr>"
  obtain mem d' where "ow_romsearch device_bus 2 (Some [0]) 1 OW_SEARCH_ROM two_sensors = Inr (Some (1, mem, d'))"
    using dev.search_one [OF TrueI, of "roms two_sensors" two_sensors 0 OW_SEARCH_ROM] by (auto simp: devices_on_def two_sensors_def)
  then obtain ds b' rs where e: "ds18b20_init device_bus 2 ?env 1 2 two_sensors = Inr (Some (0, ds, b', rs))"
    by (simp add: ds18b20_init_def ow_init_def Let_def device_bus_def [THEN arg_cong, of sm_init] del: bindE_eq_Inr)
  from ds18b20_deinit_releases [OF e] e show ?thesis by simp
qed

end
