(* ===== verification/Sensors.thy ===== *)
theory Sensors
  imports Dht Ds18b20
begin

text \<open>
  \<open>src/sensors.c\<close>: the two sensor drivers behind one interface, and the loops over the
  array of sensors.

  A sensor object in memory is either driver's structure. The world holds what the hardware and
  the SDK will answer and collects what the drivers do to them: the outcome of each \<open>malloc\<close>,
  the clock at the start of each measurement, what the DMA channel delivers, the 1-Wire bus.
\<close>

section \<open>Model\<close>

definition DHT_MODEL :: dht_model_t where "DHT_MODEL = DHT11"
definition DHT_DATA_PIN :: u8 where "DHT_DATA_PIN = 0"
definition DHT_PIO :: nat where "DHT_PIO = 0"
definition DS18B20_PIN :: u8 where "DS18B20_PIN = 2"
definition DS18B20_PIO :: nat where "DS18B20_PIO = 1"

datatype custom = Dht_Obj dht_t | Ds_Obj ds18b20_t

text \<open>The function pointers of the structure, as operations on a world of type \<open>'w\<close>.\<close>

record 'w sensor_wrap_t =
  sw_topic_name :: bytes
  sw_topic_data :: bytes
  custom_data :: "custom option"
  init_fn :: "custom option \<Rightarrow> 'w \<Rightarrow> (u8 \<times> custom option \<times> 'w) run"
  auxiliary_fn :: "(custom option \<Rightarrow> 'w \<Rightarrow> (custom option \<times> 'w) run) option"
  collect_fn :: "bytes \<Rightarrow> nat \<Rightarrow> custom option \<Rightarrow> 'w \<Rightarrow> (bytes \<times> custom option \<times> 'w) run"
  clean_fn :: "custom option \<Rightarrow> 'w \<Rightarrow> (custom option \<times> 'w) run"
  disconnected :: bool

record 'b sensor_world =
  w_malloc :: "nat \<Rightarrow> bool"
  w_mallocs :: nat                \<comment> \<open>calls so far\<close>
  w_blocks :: int                 \<comment> \<open>sensor objects in memory\<close>
  w_claims :: "u8 \<times> u8 \<times> u8"
  w_loops :: "nat \<times> nat"
  w_clock :: "nat \<Rightarrow> u32"
  w_dht :: "nat \<Rightarrow> dht_env"
  w_round :: nat                  \<comment> \<open>measurements finished so far\<close>
  w_hw :: "dht_hw list"
  w_bus :: 'b
  w_ds :: ds_env
  w_taken :: "ds_resource list"

definition take_block :: "'b sensor_world \<Rightarrow> bool \<times> 'b sensor_world" where
  "take_block w =
    (let ok = w_malloc w (w_mallocs w)
     in (ok, w\<lparr>w_mallocs := w_mallocs w + 1, w_blocks := w_blocks w + (if ok then 1 else 0)\<rparr>))"

subsection \<open>The DHT sensor\<close>

definition init_fn_dht :: "custom option \<Rightarrow> 'b sensor_world \<Rightarrow> (u8 \<times> custom option \<times> 'b sensor_world) run" where
  "init_fn_dht custom w =
    (let (ok, w1) = take_block w in
     if \<not> ok then Inr (Some (1, custom, w1))
     else bindO (doneE (dht_init DHT_MODEL DHT_PIO DHT_DATA_PIN True (w_claims w1))) (\<lambda>(d, hw).
            Inr (Some (0, Some (Dht_Obj d), w1\<lparr>w_hw := w_hw w1 @ hw\<rparr>))))"

text \<open>The object behind the pointer. Taking an object of the other driver for it would read beyond it.\<close>

definition dht_at :: "custom option \<Rightarrow> dht_t ub" where
  "dht_at custom =
    (case custom of None \<Rightarrow> Inl Null_Deref | Some (Dht_Obj d) \<Rightarrow> Inr d | Some (Ds_Obj _) \<Rightarrow> Inl Out_Of_Bounds)"

definition auxiliary_fn_dht :: "custom option \<Rightarrow> 'b sensor_world \<Rightarrow> (custom option \<times> 'b sensor_world) run" where
  "auxiliary_fn_dht custom w =
    bindO (doneE (dht_at custom)) (\<lambda>d.
    bindO (doneE (dht_start_measurement (fst (w_loops w)) (snd (w_loops w)) (w_clock w (w_round w)) d)) (\<lambda>(d', hw).
      Inr (Some (Some (Dht_Obj d'), w\<lparr>w_hw := w_hw w @ hw\<rparr>))))"

definition dht_text :: "(fl \<times> fl) option \<Rightarrow> bytes" where
  "dht_text r =
    (case r of
       Some (humidity, temperature_c) \<Rightarrow>
         chars ''{\"r_humidity\":'' @ fmt2 humidity @ chars '',\"r_temperature\":'' @ fmt2 temperature_c @ chars ''}''
     | None \<Rightarrow> chars ''{\"r_humidity\":\"null\",\"r_temperature\":\"null\"}'')"

definition collect_fn_dht ::
  "bytes \<Rightarrow> nat \<Rightarrow> custom option \<Rightarrow> 'b sensor_world \<Rightarrow> (bytes \<times> custom option \<times> 'b sensor_world) run" where
  "collect_fn_dht str n custom w =
    bindO (doneE (dht_at custom)) (\<lambda>d.
    bindO (dht_finish_measurement_blocking (w_dht w (w_round w)) d) (\<lambda>((result, values), d', hw).
    bindO (doneE (snprintf str n (dht_text (if result = DHT_RESULT_OK then values else None)))) (\<lambda>str'.
      Inr (Some (str', Some (Dht_Obj d'), w\<lparr>w_round := w_round w + 1, w_hw := w_hw w @ hw\<rparr>)))))"

definition clean_fn_dht :: "custom option \<Rightarrow> 'b sensor_world \<Rightarrow> (custom option \<times> 'b sensor_world) run" where
  "clean_fn_dht custom w =
    (if custom = None then Inr (Some (None, w))
     else bindO (doneE (dht_at custom)) (\<lambda>d.
          bindO (doneE (dht_deinit d)) (\<lambda>(_, hw).
            Inr (Some (None, w\<lparr>w_hw := w_hw w @ hw, w_blocks := w_blocks w - 1\<rparr>)))))"

subsection \<open>The DS18B20 sensor\<close>

definition ds_at :: "custom option \<Rightarrow> ds18b20_t ub" where
  "ds_at custom =
    (case custom of None \<Rightarrow> Inl Null_Deref | Some (Ds_Obj d) \<Rightarrow> Inr d | Some (Dht_Obj _) \<Rightarrow> Inl Out_Of_Bounds)"

text \<open>The result code becomes the 8-bit return value.\<close>

definition init_fn_ds18b20 ::
  "'b pio_bus \<Rightarrow> nat \<Rightarrow> custom option \<Rightarrow> 'b sensor_world \<Rightarrow> (u8 \<times> custom option \<times> 'b sensor_world) run" where
  "init_fn_ds18b20 bus passes custom w =
    (let (ok, w1) = take_block w in
     if \<not> ok then Inr (Some (1, custom, w1))
     else bindO (ds18b20_init bus passes (w_ds w1) DS18B20_PIO DS18B20_PIN (w_bus w1)) (\<lambda>(res, ds, b, rs).
            Inr (Some (of_int res, Some (Ds_Obj ds), w1\<lparr>w_bus := b, w_taken := w_taken w1 @ rs\<rparr>))))"

definition auxiliary_fn_ds18b20 ::
  "'b pio_bus \<Rightarrow> custom option \<Rightarrow> 'b sensor_world \<Rightarrow> (custom option \<times> 'b sensor_world) run" where
  "auxiliary_fn_ds18b20 bus custom w =
    bindO (doneE (ds_at custom)) (\<lambda>ds.
    bindO (doneE (ds18b20_convert bus ds (w_bus w))) (\<lambda>b.
      Inr (Some (custom, w\<lparr>w_bus := b\<rparr>))))"

definition ds18b20_text :: "fl option \<Rightarrow> bytes" where
  "ds18b20_text t =
    (case t of None \<Rightarrow> chars ''{\"w_temp\":\"null\"}''
     | Some x \<Rightarrow> chars ''{\"w_temp\":'' @ fmt2 x @ chars ''}'')"

definition collect_fn_ds18b20 ::
  "'b pio_bus \<Rightarrow> bytes \<Rightarrow> nat \<Rightarrow> custom option \<Rightarrow> 'b sensor_world \<Rightarrow> (bytes \<times> custom option \<times> 'b sensor_world) run" where
  "collect_fn_ds18b20 bus str n custom w =
    bindO (doneE (ds_at custom)) (\<lambda>ds.
    bindO (doneE (ds18b20_read_temperature bus ds (w_bus w))) (\<lambda>(res, ds', b).
    bindO (doneE (snprintf str n (ds18b20_text (if res \<noteq> 0 then None else Some (temperature ds'))))) (\<lambda>str'.
      Inr (Some (str', Some (Ds_Obj ds'), w\<lparr>w_bus := b\<rparr>)))))"

definition clean_fn_ds18b20 :: "custom option \<Rightarrow> 'b sensor_world \<Rightarrow> (custom option \<times> 'b sensor_world) run" where
  "clean_fn_ds18b20 custom w =
    (if custom = None then Inr (Some (None, w))
     else bindO (doneE (ds_at custom)) (\<lambda>ds.
          bindO (doneE (ds18b20_deinit (Some ds))) (\<lambda>rs.
            Inr (Some (None, w\<lparr>w_taken := w_taken w @ rs, w_blocks := w_blocks w - 1\<rparr>)))))"

subsection \<open>The array and its loops\<close>

definition dht11_sensor :: "'b sensor_world sensor_wrap_t" where
  "dht11_sensor = \<lparr> sw_topic_name = char_array 8 ''dht11'', sw_topic_data = replicate 128 0, custom_data = None,
     init_fn = init_fn_dht, auxiliary_fn = Some auxiliary_fn_dht, collect_fn = collect_fn_dht,
     clean_fn = clean_fn_dht, disconnected = True \<rparr>"

text \<open>The entry that the preprocessor removes.\<close>

definition ds18b20_sensor :: "'b pio_bus \<Rightarrow> nat \<Rightarrow> 'b sensor_world sensor_wrap_t" where
  "ds18b20_sensor bus passes = \<lparr> sw_topic_name = char_array 8 ''ds18b20'', sw_topic_data = replicate 128 0,
     custom_data = None, init_fn = init_fn_ds18b20 bus passes, auxiliary_fn = Some (auxiliary_fn_ds18b20 bus),
     collect_fn = collect_fn_ds18b20 bus, clean_fn = clean_fn_ds18b20, disconnected = True \<rparr>"

definition sensors_arr :: "'b sensor_world sensor_wrap_t list" where
  "sensors_arr = [dht11_sensor]"

fun for_sensors :: "('s \<Rightarrow> 'w \<Rightarrow> ('s \<times> 'w) run) \<Rightarrow> 's list \<Rightarrow> 'w \<Rightarrow> ('s list \<times> 'w) run" where
  "for_sensors f [] w = Inr (Some ([], w))"
| "for_sensors f (s # ss) w =
    bindO (f s w) (\<lambda>(s', w1). bindO (for_sensors f ss w1) (\<lambda>(ss', w2). Inr (Some (s' # ss', w2))))"

definition init_sensor :: "'w sensor_wrap_t \<Rightarrow> 'w \<Rightarrow> ('w sensor_wrap_t \<times> 'w) run" where
  "init_sensor s w =
    bindO (init_fn s (custom_data s) w) (\<lambda>(r, c, w').
      Inr (Some (s\<lparr>custom_data := c, disconnected := (r \<noteq> 0)\<rparr>, w')))"

definition prepare_sensor :: "'w sensor_wrap_t \<Rightarrow> 'w \<Rightarrow> ('w sensor_wrap_t \<times> 'w) run" where
  "prepare_sensor s w =
    (case (disconnected s, auxiliary_fn s) of
       (False, Some f) \<Rightarrow> bindO (f (custom_data s) w) (\<lambda>(c, w'). Inr (Some (s\<lparr>custom_data := c\<rparr>, w')))
     | _ \<Rightarrow> Inr (Some (s, w)))"

definition collect_sensor :: "'w sensor_wrap_t \<Rightarrow> 'w \<Rightarrow> ('w sensor_wrap_t \<times> 'w) run" where
  "collect_sensor s w =
    (if disconnected s then Inr (Some (s, w))
     else bindO (collect_fn s (sw_topic_data s) 128 (custom_data s) w) (\<lambda>(t, c, w').
            Inr (Some (s\<lparr>sw_topic_data := t, custom_data := c\<rparr>, w'))))"

definition clean_sensor :: "'w sensor_wrap_t \<Rightarrow> 'w \<Rightarrow> ('w sensor_wrap_t \<times> 'w) run" where
  "clean_sensor s w =
    (if disconnected s then Inr (Some (s, w))
     else bindO (clean_fn s (custom_data s) w) (\<lambda>(c, w'). Inr (Some (s\<lparr>custom_data := c\<rparr>, w'))))"

definition init_sensors :: "'w sensor_wrap_t list \<Rightarrow> 'w \<Rightarrow> ('w sensor_wrap_t list \<times> 'w) run" where
  "init_sensors = for_sensors init_sensor"

definition prepare_sensors :: "'w sensor_wrap_t list \<Rightarrow> 'w \<Rightarrow> ('w sensor_wrap_t list \<times> 'w) run" where
  "prepare_sensors = for_sensors prepare_sensor"

definition collect_data_sensors :: "'w sensor_wrap_t list \<Rightarrow> 'w \<Rightarrow> ('w sensor_wrap_t list \<times> 'w) run" where
  "collect_data_sensors = for_sensors collect_sensor"

definition deinit_clean_sensors :: "'w sensor_wrap_t list \<Rightarrow> 'w \<Rightarrow> ('w sensor_wrap_t list \<times> 'w) run" where
  "deinit_clean_sensors = for_sensors clean_sensor"

text \<open>The topic number is the position in the array. The function it is given acts on a state of
  type \<open>'q\<close> and may block.\<close>

type_synonym 'q transfer_sensor_data_function = "bytes \<Rightarrow> nat \<Rightarrow> u8 \<Rightarrow> 'q \<Rightarrow> 'q run"

fun transfer_loop :: "'q transfer_sensor_data_function \<Rightarrow> nat \<Rightarrow> 'w sensor_wrap_t list \<Rightarrow> 'q \<Rightarrow> 'q run" where
  "transfer_loop transfer_fn i [] q = Inr (Some q)"
| "transfer_loop transfer_fn i (s # ss) q =
    bindO (if disconnected s then Inr (Some q) else transfer_fn (sw_topic_data s) 128 (of_nat i) q) (\<lambda>q'.
      transfer_loop transfer_fn (Suc i) ss q')"

definition transfer_data_sensors :: "'q transfer_sensor_data_function \<Rightarrow> 'w sensor_wrap_t list \<Rightarrow> 'q \<Rightarrow> 'q run" where
  "transfer_data_sensors transfer_fn arr = transfer_loop transfer_fn 0 arr"

section \<open>The contract of a sensor driver\<close>

text \<open>A sensor as the loops see it: its text buffer is a terminated string, and unless it is
  disconnected there is an object that satisfies \<open>P\<close>.\<close>

definition sensor_with :: "(custom \<Rightarrow> bool) \<Rightarrow> 'w sensor_wrap_t \<Rightarrow> bool" where
  "sensor_with P s \<longleftrightarrow> length (sw_topic_data s) = 128 \<and> 0 \<in> set (sw_topic_data s) \<and>
     (disconnected s \<or> (\<exists>c. custom_data s = Some c \<and> P c))"

lemma for_sensors_inv:
  assumes "\<And>s w. P s \<Longrightarrow> G w \<Longrightarrow> \<exists>s' w'. f s w = Inr (Some (s', w')) \<and> Q s' \<and> G w'"
    and "list_all P ss" "G w"
  shows "\<exists>ss' w'. for_sensors f ss w = Inr (Some (ss', w')) \<and> list_all Q ss' \<and> length ss' = length ss \<and> G w'"
  using assms(2,3)
proof (induction ss arbitrary: w)
  case (Cons s ss)
  then obtain s' w1 where s: "f s w = Inr (Some (s', w1))" "Q s'" "G w1" using assms(1) by fastforce
  from Cons.IH [OF _ s(3)] Cons.prems(1) obtain ss' w2 where
    "for_sensors f ss w1 = Inr (Some (ss', w2))" "list_all Q ss'" "length ss' = length ss" "G w2" by auto
  with s show ?case by auto
qed simp

text \<open>The number of sensors that are connected; the loops of a round leave them so.\<close>

definition attached :: "'w sensor_wrap_t list \<Rightarrow> nat" where
  "attached ss = length (filter Not (map disconnected ss))"

lemma attached_simps [simp]:
  "attached [] = 0" "attached (s # ss) = (if disconnected s then attached ss else Suc (attached ss))"
  by (simp_all add: attached_def)

lemma attached_le: "attached ss \<le> length ss"
  unfolding attached_def by (metis length_filter_le length_map)

lemma for_sensors_attached:
  assumes "\<And>s w s' w'. f s w = Inr (Some (s', w')) \<Longrightarrow> disconnected s' = disconnected s"
  shows "for_sensors f ss w = Inr (Some (ss', w')) \<Longrightarrow> attached ss' = attached ss"
  by (induction ss arbitrary: w ss') (auto simp: bindO_eq_Some dest: assms)

lemma round_attached:
  "prepare_sensors ss w = Inr (Some (ss', w')) \<Longrightarrow> attached ss' = attached ss"
  "collect_data_sensors ss w = Inr (Some (ss', w')) \<Longrightarrow> attached ss' = attached ss"
  unfolding prepare_sensors_def collect_data_sensors_def
  by (erule for_sensors_attached [rotated],
      auto simp: prepare_sensor_def collect_sensor_def bindO_eq_Some split: bool.splits option.splits if_splits)+

text \<open>What the loops rely on. \<open>env\<close> is the part of the world that is fixed in advance, \<open>good\<close> says that
  the hardware answers; an object is \<open>idle\<close> between measurements and \<open>busy\<close> during one; \<open>says\<close>
  describes the texts the driver reports.\<close>

locale sensor_driver =
  fixes initf :: "custom option \<Rightarrow> 'w \<Rightarrow> (u8 \<times> custom option \<times> 'w) run"
    and auxf :: "custom option \<Rightarrow> 'w \<Rightarrow> (custom option \<times> 'w) run"
    and collectf :: "bytes \<Rightarrow> nat \<Rightarrow> custom option \<Rightarrow> 'w \<Rightarrow> (bytes \<times> custom option \<times> 'w) run"
    and cleanf :: "custom option \<Rightarrow> 'w \<Rightarrow> (custom option \<times> 'w) run"
    and env :: "'w \<Rightarrow> 'e" and good :: "'e \<Rightarrow> bool" and idle :: "custom \<Rightarrow> bool"
    and busy :: "'e \<Rightarrow> custom \<Rightarrow> bool" and says :: "bytes \<Rightarrow> bool"
  assumes init_ok: "good (env w) \<Longrightarrow> \<exists>r cd w'. initf None w = Inr (Some (r, cd, w')) \<and> env w' = env w \<and>
      (r = 0 \<longrightarrow> (\<exists>c. cd = Some c \<and> idle c))"
    and aux_ok: "good (env w) \<Longrightarrow> idle c \<Longrightarrow>
      \<exists>c' w'. auxf (Some c) w = Inr (Some (Some c', w')) \<and> env w' = env w \<and> busy (env w) c'"
    and collect_ok: "good (env w) \<Longrightarrow> busy (env w) c \<Longrightarrow> length str = 128 \<Longrightarrow>
      \<exists>t c' w'. collectf str 128 (Some c) w = Inr (Some (t, Some c', w')) \<and> env w' = env w \<and> idle c' \<and>
        length t = 128 \<and> (\<exists>s. c_str t = Inr s \<and> says s)"
    and clean_ok: "idle c \<Longrightarrow> \<exists>w'. cleanf (Some c) w = Inr (Some (None, w')) \<and> env w' = env w"
    and clean_none: "cleanf None w = Inr (Some (None, w))"
begin

definition driven :: "'w sensor_wrap_t \<Rightarrow> bool" where
  "driven s \<longleftrightarrow> init_fn s = initf \<and> auxiliary_fn s = Some auxf \<and> collect_fn s = collectf \<and> clean_fn s = cleanf"

definition at_rest :: "'w sensor_wrap_t \<Rightarrow> bool" where
  "at_rest s \<longleftrightarrow> driven s \<and> sensor_with idle s"

definition measuring :: "'e \<Rightarrow> 'w sensor_wrap_t \<Rightarrow> bool" where
  "measuring e s \<longleftrightarrow> driven s \<and> sensor_with (busy e) s"

definition reported :: "'w sensor_wrap_t \<Rightarrow> bool" where
  "reported s \<longleftrightarrow> at_rest s \<and> (disconnected s \<or> (\<exists>t. c_str (sw_topic_data s) = Inr t \<and> says t))"

lemma init_step:
  assumes "driven s" "custom_data s = None" "length (sw_topic_data s) = 128" "0 \<in> set (sw_topic_data s)" "good (env w)"
  shows "\<exists>s' w'. init_sensor s w = Inr (Some (s', w')) \<and> at_rest s' \<and> env w' = env w"
  using init_ok [OF assms(5)] assms(1-4)
  by (auto simp: init_sensor_def at_rest_def driven_def sensor_with_def)

lemma prepare_step:
  assumes "at_rest s" "good (env w)"
  shows "\<exists>s' w'. prepare_sensor s w = Inr (Some (s', w')) \<and> measuring (env w) s' \<and> env w' = env w"
proof (cases "disconnected s")
  case True
  with assms show ?thesis by (auto simp: prepare_sensor_def at_rest_def measuring_def sensor_with_def)
next
  case False
  then obtain c where c: "custom_data s = Some c" "idle c" using assms(1) by (auto simp: at_rest_def sensor_with_def)
  from aux_ok [OF assms(2) c(2)] obtain c' w' where
    "auxf (Some c) w = Inr (Some (Some c', w'))" "env w' = env w" "busy (env w) c'" by blast
  with False c assms(1) show ?thesis
    by (simp add: prepare_sensor_def at_rest_def measuring_def sensor_with_def driven_def)
qed

lemma collect_step:
  assumes "measuring (env w) s" "good (env w)"
  shows "\<exists>s' w'. collect_sensor s w = Inr (Some (s', w')) \<and> reported s' \<and> env w' = env w"
proof (cases "disconnected s")
  case True
  with assms show ?thesis
    by (auto simp: collect_sensor_def at_rest_def measuring_def sensor_with_def reported_def)
next
  case False
  then obtain c where c: "custom_data s = Some c" "busy (env w) c" "length (sw_topic_data s) = 128"
    using assms(1) by (auto simp: measuring_def sensor_with_def)
  from collect_ok [OF assms(2) c(2,3)] obtain t c' w' u where
    t: "collectf (sw_topic_data s) 128 (Some c) w = Inr (Some (t, Some c', w'))" "env w' = env w" "idle c'"
    "length t = 128" "c_str t = Inr u" "says u" by blast
  then have "0 \<in> set t" by (auto simp: c_str_def split: if_splits)
  with False c t assms(1) show ?thesis
    by (simp add: collect_sensor_def at_rest_def measuring_def sensor_with_def driven_def reported_def)
qed

lemma clean_step:
  assumes "at_rest s"
  shows "\<exists>s' w'. clean_sensor s w = Inr (Some (s', w')) \<and> env w' = env w \<and> (disconnected s \<or> custom_data s' = None)"
  using assms clean_ok [of _ w] clean_none [of w]
  by (fastforce simp: clean_sensor_def at_rest_def sensor_with_def driven_def)

end

section \<open>The two drivers meet the contract\<close>

definition answers :: "'b sensor_world \<Rightarrow> (nat \<Rightarrow> u32) \<times> (nat \<Rightarrow> dht_env)" where
  "answers w = (w_clock w, w_dht w)"

text \<open>Each measurement is over, by delivery or by the clock, within what the driver polls.\<close>

definition answering :: "(nat \<Rightarrow> u32) \<times> (nat \<Rightarrow> dht_env) \<Rightarrow> bool" where
  "answering e \<longleftrightarrow> (\<forall>n m. dht_wait (fst e n) 24000 (polls (snd e m)) = Some ())"

text \<open>The clock runs: while the loop polls, or would poll if it went on, 24 milliseconds pass between some two of the polls,
  and less than the 71 minutes in which the 32-bit clock comes round. Nothing is said about the channel.\<close>

definition clock_runs :: "dht_env \<Rightarrow> bool" where
  "clock_runs env \<longleftrightarrow>
    (\<exists>i j. i < j \<and> j < length (polls env) \<and>
       24000 \<le> unat (snd (polls env ! j) - snd (polls env ! i)) \<and> unat (snd (polls env ! j) - snd (polls env ! i)) \<le> 2 ^ 32 - 24000)"

text \<open>Then every polling loop ends, wherever the clock stood at its start: two readings that far apart are not both within
  the time-out.\<close>

lemma no_gap:
  fixes x y :: u32
  assumes "unat x < 24000" "unat y < 24000" "24000 \<le> unat (y - x)"
  shows "2 ^ 32 - 24000 < unat (y - x)"
proof -
  have "unat (y - x) = (if unat x \<le> unat y then unat y - unat x else unat y + 2 ^ 32 - unat x)"
    by (simp add: unat_sub_if')
  with assms show ?thesis by (simp split: if_split_asm)
qed

lemma clock_ends_wait:
  assumes "clock_runs env"
  shows "dht_wait start 24000 (polls env) = Some ()"
proof -
  obtain i j where ij: "i < j" "j < length (polls env)" "24000 \<le> unat (snd (polls env ! j) - snd (polls env ! i))"
      "unat (snd (polls env ! j) - snd (polls env ! i)) \<le> 2 ^ 32 - 24000"
    using assms unfolding clock_runs_def by blast
  define x y where "x = snd (polls env ! i) - start" and "y = snd (polls env ! j) - start"
  have diff: "snd (polls env ! j) - snd (polls env ! i) = y - x" by (simp add: x_def y_def)
  have "\<not> (unat x < 24000 \<and> unat y < 24000)"
    using no_gap [of x y] ij(3,4) unfolding diff by linarith
  then have "\<not> x < 24000 \<or> \<not> y < 24000" by (simp add: word_less_nat_alt)
  moreover have "polls env ! i \<in> set (polls env)" "polls env ! j \<in> set (polls env)"
    by (rule nth_mem, use ij(1,2) in linarith)+
  ultimately obtain p where p: "p \<in> set (polls env)" "\<not> snd p - start < 24000" unfolding x_def y_def by blast
  show ?thesis unfolding dht_wait_iff by (rule bexI [OF _ p(1)]) (cases p, use p(2) in \<open>simp only: prod.case prod.sel simp_thms\<close>)
qed

lemma clock_answers: "\<forall>m. clock_runs (w_dht w m) \<Longrightarrow> answering (answers w)"
  by (simp add: answering_def answers_def clock_ends_wait)

definition dht_idle :: "custom \<Rightarrow> bool" where
  "dht_idle c \<longleftrightarrow> (\<exists>d. c = Dht_Obj d \<and> pio d \<noteq> None \<and> model d = DHT11 \<and> \<not> sm_on d)"

definition dht_busy :: "(nat \<Rightarrow> u32) \<times> (nat \<Rightarrow> dht_env) \<Rightarrow> custom \<Rightarrow> bool" where
  "dht_busy e c \<longleftrightarrow> (\<exists>d. c = Dht_Obj d \<and> pio d \<noteq> None \<and> model d = DHT11 \<and> sm_on d \<and> (\<exists>n. start_time d = fst e n))"

definition dht_says :: "bytes \<Rightarrow> bool" where
  "dht_says s \<longleftrightarrow> s = dht_text None \<or>
    (\<exists>h t. h < 100000 \<and> t < 100000 \<and> s = chars ''{\"r_humidity\":'' @ hundredths h @ chars '',\"r_temperature\":'' @ hundredths t @ chars ''}'')"

lemma dht_values:
  "fmt2 (decode_humidity DHT11 b0 b1) = hundredths (100 * unat b0 + 10 * unat b1)"
  "fmt2 (decode_temperature DHT11 b0 b1) = hundredths (if b1 AND 0x80 \<noteq> 0 then 0 else 100 * unat b0 + 10 * unat (b1 AND 0x7F))"
proof -
  have "fmt2 (fl_of_int 0) = hundredths 0"
    using fl_of_int_exact(1) [of 0] by (simp add: fmt2_def hundredths_def div_even_def Let_def)
  then show "fmt2 (decode_temperature DHT11 b0 b1) = hundredths (if b1 AND 0x80 \<noteq> 0 then 0 else 100 * unat b0 + 10 * unat (b1 AND 0x7F))"
    by (auto simp only: decode_temperature_def dht_model_t.case sum_tenth_prints split: if_split)
qed (simp only: decode_humidity_def dht_model_t.case sum_tenth_prints)

lemma dht_says_values:
  "dht_says (dht_text (Some (decode_humidity DHT11 b0 b1, decode_temperature DHT11 b2 b3)))"
proof -
  have b: "100 * unat x + 10 * unat y < 100000" for x y :: u8
    using unat_u8_bound [of x] unat_u8_bound [of y] by linarith
  let ?t = "if b3 AND 0x80 \<noteq> 0 then 0 else 100 * unat b2 + 10 * unat (b3 AND 0x7F)"
  have t: "?t < 100000" using b [of b2 "b3 AND 0x7F"] by (simp only: split: if_split) simp
  show ?thesis unfolding dht_says_def dht_text_def option.case prod.case dht_values
    using b [of b0 b1] t by blast
qed

lemma length_chars_eq: "length (chars s) = length s"
  by (simp add: chars_def)

lemma dht_says_text:
  assumes "dht_says s"
  shows "length s < 128" "0 \<notin> set s"
proof -
  show "0 \<notin> set s" using assms hundredths_no_zero by (auto simp: dht_says_def dht_text_def zero_in_chars)
  have "length (hundredths h) + length (hundredths t) < 96" if "h < 100000" "t < 100000" for h t
    using that hundredths_length [of h] hundredths_length [of t] by simp
  with assms show "length s < 128" by (auto simp: dht_says_def dht_text_def length_chars_eq)
qed

text \<open>A text that fits arrives as the string of the buffer.\<close>

lemma snprintf_string:
  assumes "length str = 128" "length s < 128" "0 \<notin> set s"
  shows "\<exists>t. snprintf str 128 s = Inr t \<and> length t = 128 \<and> c_str t = Inr s"
  using assms by (simp add: snprintf_ok)

definition ds_idle :: "custom \<Rightarrow> bool" where
  "ds_idle c \<longleftrightarrow> (\<exists>d. c = Ds_Obj d \<and> ow d \<noteq> None \<and> length (ds_data d) = 9)"

definition ds_says :: "bytes \<Rightarrow> bool" where
  "ds_says s \<longleftrightarrow> s = ds18b20_text None \<or> (\<exists>low high. s = ds18b20_text (Some (ds18b20_data_to_temperature low high)))"

lemma ds_says_text:
  assumes "ds_says s"
  shows "length s < 128" "0 \<notin> set s"
proof -
  show "0 \<notin> set s" using assms fmt2_no_zero by (auto simp: ds_says_def ds18b20_text_def zero_in_chars)
  have "length (fmt2 (ds18b20_data_to_temperature low high)) \<le> 8" for low high
  proof (rule fmt2_length [where n = 2048])
    let ?i = "sint (ucast low OR push_bit 8 (ucast high) :: u16)"
    have r: "- (2 ^ 15) \<le> ?i" "?i < 2 ^ 15"
      using sint_range_size [of "ucast low OR push_bit 8 (ucast high) :: u16"] by (simp_all add: word_size)
    then have "\<bar>?i\<bar> < 2 ^ 24" "nat \<bar>?i\<bar> \<le> 32768" by simp_all
    with fl_of_int_exact(1) [of ?i]
    show "fl_mant (ds18b20_data_to_temperature low high) \<le> 2048 * 2 ^ fl_scale (ds18b20_data_to_temperature low high)"
      by (simp add: ds18b20_data_to_temperature_def Let_def fl_shift_def fl_round_small)
  qed simp
  then have "length (fmt2 (ds18b20_data_to_temperature low high)) < 117" for low high
    by (rule le_less_trans) simp
  with assms show "length s < 128" by (auto simp: ds_says_def ds18b20_text_def length_chars_eq)
qed

lemma dht_collect:
  assumes "answering (answers w)" "dht_busy (answers w) c" "length str = 128"
  shows "\<exists>t c' w'. collect_fn_dht str 128 (Some c) w = Inr (Some (t, Some c', w')) \<and> answers w' = answers w \<and>
    dht_idle c' \<and> length t = 128 \<and> (\<exists>s. c_str t = Inr s \<and> dht_says s)"
proof -
  obtain d n where d: "c = Dht_Obj d" "pio d \<noteq> None" "model d = DHT11" "sm_on d" "start_time d = w_clock w n"
    using assms(2) by (auto simp: dht_busy_def answers_def)
  have "dht_wait (start_time d) 24000 (polls (w_dht w (w_round w))) = Some ()"
    using assms(1) d(5) by (simp add: answering_def answers_def)
  then obtain r d' hw where f: "dht_finish_measurement_blocking (w_dht w (w_round w)) d = Inr (Some (r, d', hw))"
    "pio d' \<noteq> None" "model d' = DHT11" "\<not> sm_on d'"
    "dht_says (dht_text (if fst r = DHT_RESULT_OK then snd r else None))"
    using d dht_says_values
    by (cases "busy_after (w_dht w (w_round w))";
        cases "received (w_dht w (w_round w)) ! 4 = dht_checksum (received (w_dht w (w_round w)))")
      (auto simp: dht_finish_measurement_blocking_def get_start_pulse_duration_us_def DHT_MEASUREMENT_TIMEOUT_US_def
        assertE_def Let_def dht_says_def)
  from snprintf_string [OF assms(3) dht_says_text [OF f(5)]] obtain t where
    "snprintf str 128 (dht_text (if fst r = DHT_RESULT_OK then snd r else None)) = Inr t" "length t = 128"
    "c_str t = Inr (dht_text (if fst r = DHT_RESULT_OK then snd r else None))" by blast
  with f d(1) show ?thesis
    by (auto simp: collect_fn_dht_def dht_at_def case_prod_beta answers_def dht_idle_def)
qed

interpretation dht_driver: sensor_driver init_fn_dht auxiliary_fn_dht collect_fn_dht clean_fn_dht
  answers answering dht_idle dht_busy dht_says
proof unfold_locales
  show "\<exists>r cd w'. init_fn_dht None w = Inr (Some (r, cd, w')) \<and> answers w' = answers w \<and> (r = 0 \<longrightarrow> (\<exists>c. cd = Some c \<and> dht_idle c))"
    for w :: "'a sensor_world"
    by (cases "w_malloc w (w_mallocs w)"; cases "w_claims w")
      (auto simp: init_fn_dht_def take_block_def Let_def dht_init_def assertE_def DHT_PIO_def DHT_MODEL_def answers_def dht_idle_def)
  show "\<exists>c' w'. auxiliary_fn_dht (Some c) w = Inr (Some (Some c', w')) \<and> answers w' = answers w \<and> dht_busy (answers w) c'"
    if "dht_idle c" for w :: "'a sensor_world" and c
    using that by (auto simp: auxiliary_fn_dht_def dht_at_def dht_idle_def dht_start_measurement_def assertE_def answers_def dht_busy_def)
  show "\<exists>w'. clean_fn_dht (Some c) w = Inr (Some (None, w')) \<and> answers w' = answers w"
    if "dht_idle c" for w :: "'a sensor_world" and c
    using that by (auto simp: clean_fn_dht_def dht_at_def dht_idle_def dht_deinit_def assertE_def answers_def)
  show "clean_fn_dht None w = Inr (Some (None, w))" for w :: "'a sensor_world" by (simp add: clean_fn_dht_def)
qed (rule dht_collect)

lemma ds_collect:
  assumes "ds_idle c" "length str = 128"
  shows "\<exists>t c' w'. collect_fn_ds18b20 bus str 128 (Some c) w = Inr (Some (t, Some c', w')) \<and> answers w' = answers w \<and>
    ds_idle c' \<and> length t = 128 \<and> (\<exists>s. c_str t = Inr s \<and> ds_says s)"
proof -
  obtain d i where d: "c = Ds_Obj d" "ow d = Some i" "length (ds_data d) = 9" using assms(1) by (auto simp: ds_idle_def)
  obtain bs b' where bs: "ow_reads bus 9 (scratchpad_start bus (w_bus w)) = (bs, b')" by fastforce
  from read_temperature_eq [OF d(2,3) bs] length_ow_reads [OF bs] d(2) obtain r d' where
    r: "ds18b20_read_temperature bus d (w_bus w) = Inr (r, d', b')" "ow d' = Some i" "length (ds_data d') = 9"
    "ds_says (ds18b20_text (if r \<noteq> 0 then None else Some (temperature d')))"
    by (auto simp: ds_says_def split: if_splits)
  from snprintf_string [OF assms(2) ds_says_text [OF r(4)]] obtain t where
    "snprintf str 128 (ds18b20_text (if r \<noteq> 0 then None else Some (temperature d'))) = Inr t" "length t = 128"
    "c_str t = Inr (ds18b20_text (if r \<noteq> 0 then None else Some (temperature d')))" by blast
  with r d(1) show ?thesis by (auto simp: collect_fn_ds18b20_def ds_at_def answers_def ds_idle_def)
qed

lemma ds_init:
  "\<exists>r cd w'. init_fn_ds18b20 device_bus 2 None w = Inr (Some (r, cd, w')) \<and> answers w' = answers w \<and>
    (r = 0 \<longrightarrow> (\<exists>c. cd = Some c \<and> ds_idle c))"
proof (cases "w_malloc w (w_mallocs w)")
  case True
  obtain code ds b rs where init: "ds18b20_init device_bus 2 (w_ds w) DS18B20_PIO DS18B20_PIN (w_bus w) = Inr (Some (code, ds, b, rs))"
    and code: "code = (if \<not> ow_malloc_ok (w_ds w) then 1 else if \<not> can_add_program (w_ds w) then 2
      else if claimed_sm (w_ds w) = - 1 then 3 else if roms (w_bus w) = [] then 4 else 0)"
    and ds: "ow ds \<noteq> None \<longleftrightarrow> ow_malloc_ok (w_ds w) \<and> can_add_program (w_ds w) \<and> claimed_sm (w_ds w) \<noteq> - 1"
      "length (ds_data ds) = 9"
    using ds18b20_init_devices [of "w_ds w" DS18B20_PIO DS18B20_PIN "w_bus w"] by blast
  have "(of_int code :: u8) = 0 \<Longrightarrow> code = 0" by (simp add: code split: if_splits)
  then have "(of_int code :: u8) = 0 \<Longrightarrow> ow ds \<noteq> None" using code ds(1) by (auto split: if_splits)
  with init ds(2) True show ?thesis
    by (auto simp: init_fn_ds18b20_def take_block_def Let_def answers_def ds_idle_def)
next
  case False
  then show ?thesis by (auto simp: init_fn_ds18b20_def take_block_def Let_def answers_def)
qed

interpretation ds_driver: sensor_driver "init_fn_ds18b20 device_bus 2" "auxiliary_fn_ds18b20 device_bus"
  "collect_fn_ds18b20 device_bus" clean_fn_ds18b20 answers answering ds_idle "\<lambda>_. ds_idle" ds_says
proof unfold_locales
  show "\<exists>c' w'. auxiliary_fn_ds18b20 device_bus (Some c) w = Inr (Some (Some c', w')) \<and> answers w' = answers w \<and> ds_idle c'"
    if "ds_idle c" for w c
    using that by (auto simp: auxiliary_fn_ds18b20_def ds_at_def ds18b20_convert_def ds_idle_def answers_def)
  show "\<exists>w'. clean_fn_ds18b20 (Some c) w = Inr (Some (None, w')) \<and> answers w' = answers w"
    if "ds_idle c" for w :: "devices sensor_world" and c
    using that by (auto simp: clean_fn_ds18b20_def ds_at_def ds18b20_deinit_def ds_idle_def answers_def)
  show "clean_fn_ds18b20 None w = Inr (Some (None, w))" for w :: "devices sensor_world"
    by (simp add: clean_fn_ds18b20_def)
qed (use ds_init ds_collect in blast)+

section \<open>Rounds of measurements\<close>

text \<open>One pass of the loop of \<open>main\<close> over the sensors, with the texts that are handed on.\<close>

definition sensor_round :: "'w sensor_wrap_t list \<Rightarrow> 'w \<Rightarrow> ('w sensor_wrap_t list \<times> 'w) run" where
  "sensor_round arr w = bindO (prepare_sensors arr w) (\<lambda>(arr1, w1). collect_data_sensors arr1 w1)"

fun sensor_rounds :: "nat \<Rightarrow> 'w sensor_wrap_t list \<Rightarrow> 'w \<Rightarrow> ('w sensor_wrap_t list \<times> 'w) run" where
  "sensor_rounds 0 arr w = Inr (Some (arr, w))"
| "sensor_rounds (Suc n) arr w = bindO (sensor_round arr w) (\<lambda>(arr1, w1). sensor_rounds n arr1 w1)"

text \<open>A sensor of either kind between rounds, during one, and with a fresh report.\<close>

definition resting :: "devices sensor_world sensor_wrap_t \<Rightarrow> bool" where
  "resting s \<longleftrightarrow> dht_driver.at_rest s \<or> ds_driver.at_rest s"

definition in_progress :: "(nat \<Rightarrow> u32) \<times> (nat \<Rightarrow> dht_env) \<Rightarrow> devices sensor_world sensor_wrap_t \<Rightarrow> bool" where
  "in_progress e s \<longleftrightarrow> dht_driver.measuring e s \<or> ds_driver.measuring e s"

definition fresh :: "devices sensor_world sensor_wrap_t \<Rightarrow> bool" where
  "fresh s \<longleftrightarrow> dht_driver.reported s \<or> ds_driver.reported s"

lemma fresh_resting: "fresh s \<Longrightarrow> resting s"
  by (auto simp: fresh_def resting_def dht_driver.reported_def ds_driver.reported_def)

lemma sensor_round_ok:
  assumes "list_all resting arr" "answering (answers w)"
  shows "\<exists>arr' w'. sensor_round arr w = Inr (Some (arr', w')) \<and> list_all fresh arr' \<and> length arr' = length arr \<and>
    answers w' = answers w"
proof -
  have "\<exists>s' w'. prepare_sensor s v = Inr (Some (s', w')) \<and> in_progress (answers w) s' \<and> answers w' = answers w"
    if "resting s" "answers v = answers w" for s v
    using that assms(2) dht_driver.prepare_step [of s v] ds_driver.prepare_step [of s v]
    by (auto simp: resting_def in_progress_def)
  from for_sensors_inv [of resting "\<lambda>v. answers v = answers w" prepare_sensor "in_progress (answers w)", OF this assms(1) refl] obtain arr1 w1 where
    p: "prepare_sensors arr w = Inr (Some (arr1, w1))" "list_all (in_progress (answers w)) arr1"
    "length arr1 = length arr" "answers w1 = answers w" by (auto simp: prepare_sensors_def)
  have "\<exists>s' w'. collect_sensor s v = Inr (Some (s', w')) \<and> fresh s' \<and> answers w' = answers w"
    if "in_progress (answers w) s" "answers v = answers w" for s v
    using that assms(2) dht_driver.collect_step [of v s] ds_driver.collect_step [of v s]
    by (auto simp: in_progress_def fresh_def)
  from for_sensors_inv [of "in_progress (answers w)" "\<lambda>v. answers v = answers w" collect_sensor fresh, OF this p(2,4)] p
  show ?thesis by (auto simp: sensor_round_def collect_data_sensors_def)
qed

lemma sensor_rounds_ok:
  assumes "list_all resting arr" "answering (answers w)"
  shows "\<exists>arr' w'. sensor_rounds n arr w = Inr (Some (arr', w')) \<and> list_all resting arr' \<and> (0 < n \<longrightarrow> list_all fresh arr') \<and>
    length arr' = length arr \<and> answers w' = answers w"
  using assms
proof (induction n arbitrary: arr w)
  case (Suc n)
  from sensor_round_ok [OF Suc.prems] obtain arr1 w1 where
    r: "sensor_round arr w = Inr (Some (arr1, w1))" "list_all fresh arr1" "length arr1 = length arr" "answers w1 = answers w"
    by blast
  then have "list_all resting arr1" by (auto intro: list.pred_mono_strong fresh_resting)
  with Suc.IH [of arr1 w1] Suc.prems(2) r obtain arr' w' where
    "sensor_rounds n arr1 w1 = Inr (Some (arr', w'))" "list_all resting arr'" "0 < n \<longrightarrow> list_all fresh arr'"
    "length arr' = length arr" "answers w' = answers w" by auto
  with r show ?case by (cases n) (auto intro: list.pred_mono_strong)
qed simp

lemma init_sensors_ok:
  assumes "list_all (\<lambda>s. s = dht11_sensor \<or> s = ds18b20_sensor device_bus 2) arr" "answering (answers w)"
  shows "\<exists>arr' w'. init_sensors arr w = Inr (Some (arr', w')) \<and> list_all resting arr' \<and>
    length arr' = length arr \<and> answers w' = answers w"
proof -
  have "\<exists>s' w'. init_sensor s v = Inr (Some (s', w')) \<and> resting s' \<and> answers w' = answers w"
    if "s = dht11_sensor \<or> s = ds18b20_sensor device_bus 2" "answers v = answers w" for s v
    using that assms(2) dht_driver.init_step [of dht11_sensor v] ds_driver.init_step [of "ds18b20_sensor device_bus 2" v]
    by (auto simp: resting_def dht11_sensor_def ds18b20_sensor_def dht_driver.driven_def ds_driver.driven_def)
  from for_sensors_inv [of "\<lambda>s. s = dht11_sensor \<or> s = ds18b20_sensor device_bus 2" "\<lambda>v. answers v = answers w"
      init_sensor resting, OF this assms(1) refl]
  show ?thesis by (simp add: init_sensors_def)
qed

section \<open>Properties\<close>

text \<open>C22: The sensor side of the firmware keeps going as long as the clock does. With the array as it is compiled, and also with the
  second sensor enabled, initialisation and any number of rounds complete without a fault, and every polling loop ends,
  whether or not the sensors are present, whatever the channel delivers and however often the clock comes
  round, provided only that the clock runs on while a loop polls; after every round each connected sensor holds a terminated text of
  at most 127 characters, which is a reading or the null report.\<close>

theorem sensors_keep_going:
  assumes "\<forall>m. clock_runs (w_dht w m)" "arr = sensors_arr \<or> arr = sensors_arr @ [ds18b20_sensor device_bus 2]"
  shows "\<exists>arr' w'. bindO (init_sensors arr w) (\<lambda>(a, w1). sensor_rounds (Suc n) a w1) = Inr (Some (arr', w')) \<and>
    length arr' = length arr \<and>
    (\<forall>s \<in> set arr'. disconnected s \<or> (\<exists>t. c_str (sw_topic_data s) = Inr t \<and> length t < 128 \<and> (dht_says t \<or> ds_says t)))"
proof -
  have drivers: "list_all (\<lambda>s. s = dht11_sensor \<or> s = ds18b20_sensor device_bus 2) arr"
    using assms(2) by (auto simp: sensors_arr_def)
  note answering = clock_answers [OF assms(1)]
  from init_sensors_ok [OF drivers answering] obtain a w1 where
    i: "init_sensors arr w = Inr (Some (a, w1))" "list_all resting a" "length a = length arr" "answers w1 = answers w" by blast
  from sensor_rounds_ok [OF i(2), of w1 "Suc n"] i(4) answering obtain arr' w' where
    r: "sensor_rounds (Suc n) a w1 = Inr (Some (arr', w'))" "list_all fresh arr'" "length arr' = length a" by auto
  have "disconnected s \<or> (\<exists>t. c_str (sw_topic_data s) = Inr t \<and> length t < 128 \<and> (dht_says t \<or> ds_says t))"
    if "fresh s" for s
    using that dht_says_text(1) ds_says_text(1)
    by (auto simp: fresh_def dht_driver.reported_def ds_driver.reported_def)
  with r i show ?thesis by (intro exI [of _ arr'] exI [of _ w']) (auto simp: list_all_iff simp del: sensor_rounds.simps)
qed

text \<open>What a round makes of the bytes a measurement of the DHT sensor delivers.\<close>

definition dht_values_of :: "dht_env \<Rightarrow> (fl \<times> fl) option" where
  "dht_values_of env =
    (let bs = received env in
     if \<not> busy_after env \<and> bs ! 4 = dht_checksum bs
     then Some (decode_humidity DHT11 (bs ! 0) (bs ! 1), decode_temperature DHT11 (bs ! 2) (bs ! 3)) else None)"

lemma dht_round_text:
  assumes "answering (answers w)" "pio d \<noteq> None" "model d = DHT11" "\<not> sm_on d" "length t = 128"
    and "s = dht11_sensor\<lparr>custom_data := Some (Dht_Obj d), disconnected := False, sw_topic_data := t\<rparr>"
  shows "\<exists>s' w'. sensor_round [s] w = Inr (Some ([s'], w')) \<and> \<not> disconnected s' \<and>
    c_str (sw_topic_data s') = Inr (dht_text (dht_values_of (w_dht w (w_round w))))"
proof -
  let ?now = "w_clock w (w_round w)"
  define env where "env = w_dht w (w_round w)"
  define r where "r = dht_values_of env"
  have wait: "dht_wait ?now 24000 (polls env) = Some ()"
    using assms(1) by (simp add: answering_def answers_def env_def)
  let ?d1 = "d\<lparr>data := replicate 5 0, start_time := ?now, sm_on := True\<rparr>"
  obtain hw1 where start: "dht_start_measurement (fst (w_loops w)) (snd (w_loops w)) ?now d = Inr (?d1, hw1)"
    using assms(2,4) by (simp add: dht_start_measurement_def assertE_def)
  obtain res d2 hw2 where fin: "dht_finish_measurement_blocking env ?d1 = Inr (Some ((res, r), d2, hw2))"
    "res = DHT_RESULT_OK \<longleftrightarrow> r \<noteq> None"
    using assms(2,3) wait
    by (cases "busy_after env"; cases "received env ! 4 = dht_checksum (received env)")
      (simp_all add: dht_finish_measurement_blocking_def get_start_pulse_duration_us_def DHT_MEASUREMENT_TIMEOUT_US_def
        assertE_def Let_def dht_values_of_def r_def)
  have says: "dht_says (dht_text r)" using dht_says_values by (auto simp: dht_says_def r_def dht_values_of_def Let_def)
  from snprintf_string [OF assms(5) dht_says_text [OF says]] obtain t' where
    t': "snprintf t 128 (dht_text r) = Inr t'" "c_str t' = Inr (dht_text r)" by blast
  have "(if res = DHT_RESULT_OK then r else None) = r" using fin(2) by (cases r) auto
  then obtain s' w' where "sensor_round [s] w = Inr (Some ([s'], w'))" "sw_topic_data s' = t'" "\<not> disconnected s'"
    using start fin(1) t'(1) assms(6) env_def
    by (simp add: sensor_round_def prepare_sensors_def collect_data_sensors_def prepare_sensor_def collect_sensor_def
        dht11_sensor_def auxiliary_fn_dht_def collect_fn_dht_def dht_at_def)
  with t'(2) show ?thesis by (auto simp: r_def env_def)
qed

lemma dht_text_digits:
  assumes "received env = [b0, b1, b2, b3, b4]"
  shows "dht_text (dht_values_of env) =
    (if \<not> busy_after env \<and> b4 = b0 + b1 + b2 + b3
     then chars ''{\"r_humidity\":'' @ hundredths (100 * unat b0 + 10 * unat b1) @ chars '',\"r_temperature\":'' @
          hundredths (if b3 AND 0x80 \<noteq> 0 then 0 else 100 * unat b2 + 10 * unat (b3 AND 0x7F)) @ chars ''}''
     else chars ''{\"r_humidity\":\"null\",\"r_temperature\":\"null\"}'')"
proof -
  have "dht_values_of env = (if \<not> busy_after env \<and> b4 = b0 + b1 + b2 + b3
      then Some (decode_humidity DHT11 b0 b1, decode_temperature DHT11 b2 b3) else None)"
    using assms by (simp add: dht_values_of_def Let_def dht_checksum_def)
  then show ?thesis
    by (cases "\<not> busy_after env \<and> b4 = b0 + b1 + b2 + b3")
      (simp_all only: dht_text_def dht_values option.case prod.case if_True if_False simp_thms)
qed

text \<open>C23: A round with the DHT sensor puts the reading into the topic text digit for digit: when the delivery is
  complete and its checksum is right, the text is the JSON object with the humidity and temperature
  the five bytes encode; on a time-out or a wrong checksum it is the null report.\<close>

theorem dht_report_correct:
  assumes "answering (answers w)" "pio d \<noteq> None" "model d = DHT11" "\<not> sm_on d" "length t = 128"
    and "s = dht11_sensor\<lparr>custom_data := Some (Dht_Obj d), disconnected := False, sw_topic_data := t\<rparr>"
    and "env = w_dht w (w_round w)" "received env = [b0, b1, b2, b3, b4]"
  shows "\<exists>s' w'. sensor_round [s] w = Inr (Some ([s'], w')) \<and>
    c_str (sw_topic_data s') = Inr
      (if \<not> busy_after env \<and> b4 = b0 + b1 + b2 + b3
       then chars ''{\"r_humidity\":'' @ hundredths (100 * unat b0 + 10 * unat b1) @ chars '',\"r_temperature\":'' @
            hundredths (if b3 AND 0x80 \<noteq> 0 then 0 else 100 * unat b2 + 10 * unat (b3 AND 0x7F)) @ chars ''}''
       else chars ''{\"r_humidity\":\"null\",\"r_temperature\":\"null\"}'')"
  using dht_round_text [OF assms(1-6)] unfolding assms(7) [symmetric] dht_text_digits [OF assms(8)] by blast

text \<open>A sensor whose initialisation fails for want of a device is never cleaned up: the cleanup before the
  restart skips it, and its object, the driver object, the state machine and the program memory
  all stay taken.\<close>

theorem failed_sensor_leaks:
  assumes "w_malloc w (w_mallocs w)" "ow_malloc_ok (w_ds w)" "can_add_program (w_ds w)" "claimed_sm (w_ds w) \<noteq> - 1"
    and "roms (w_bus w) = []"
  shows "\<exists>arr w'. bindO (init_sensors [ds18b20_sensor device_bus 2] w) (\<lambda>(a, w1). deinit_clean_sensors a w1) = Inr (Some (arr, w')) \<and>
    list_all disconnected arr \<and> w_blocks w' = w_blocks w + 1 \<and> w_taken w' = w_taken w @ [Ow_Malloc, Program_Add, Sm_Claim]"
proof -
  obtain ds b where "ds18b20_init device_bus 2 (w_ds w) DS18B20_PIO DS18B20_PIN (w_bus w) =
      Inr (Some (4, ds, b, [Ow_Malloc, Program_Add, Sm_Claim]))"
    using ds18b20_init_devices [of "w_ds w" DS18B20_PIO DS18B20_PIN "w_bus w"] assms(2-5) by auto
  with assms(1) show ?thesis
    by (simp add: init_sensors_def deinit_clean_sensors_def init_sensor_def clean_sensor_def ds18b20_sensor_def
        init_fn_ds18b20_def take_block_def Let_def)
qed

definition demo_world :: "devices sensor_world" where
  "demo_world = \<lparr> w_malloc = (\<lambda>_. True), w_mallocs = 0, w_blocks = 0, w_claims = (0, 0, 0), w_loops = (1, 1),
     w_clock = (\<lambda>_. 0), w_dht = (\<lambda>_. \<lparr> polls = [(True, 0), (False, 24000)], busy_after = False, received = [45, 3, 21, 8, 77] \<rparr>),
     w_round = 0, w_hw = [], w_bus = two_sensors\<lparr>roms := []\<rparr>,
     w_ds = \<lparr> ow_malloc_ok = True, can_add_program = True, program_offset = 5, claimed_sm = 3, reset_instr = 0, romcode_stack = 0 \<rparr>,
     w_taken = [] \<rparr>"

lemma demo_answering: "answering (answers demo_world)"
  by (simp add: answering_def answers_def demo_world_def)

lemma demo_clock: "clock_runs (w_dht demo_world m)"
  unfolding clock_runs_def by (intro exI [of _ 0] exI [of _ 1]) (simp add: demo_world_def)

theorem sensors_keep_going_witness:
  "\<exists>arr' w'. bindO (init_sensors sensors_arr demo_world) (\<lambda>(a, w1). sensor_rounds (Suc 4) a w1) = Inr (Some (arr', w')) \<and>
    length arr' = 1 \<and>
    (\<forall>s \<in> set arr'. disconnected s \<or> (\<exists>t. c_str (sw_topic_data s) = Inr t \<and> length t < 128 \<and> (dht_says t \<or> ds_says t)))"
  using sensors_keep_going [OF allI [OF demo_clock], of sensors_arr 4] by (simp add: sensors_arr_def del: sensor_rounds.simps)

theorem dht_report_correct_witness:
  "\<exists>s' w'. sensor_round [dht11_sensor\<lparr>custom_data := Some (Dht_Obj (demo_dht\<lparr>sm_on := False\<rparr>)), disconnected := False,
      sw_topic_data := replicate 128 0\<rparr>] demo_world = Inr (Some ([s'], w')) \<and>
    c_str (sw_topic_data s') = Inr (chars ''{\"r_humidity\":45.30,\"r_temperature\":21.80}'')"
proof -
  have d: "pio (demo_dht\<lparr>sm_on := False\<rparr>) \<noteq> None" "model (demo_dht\<lparr>sm_on := False\<rparr>) = DHT11"
    "\<not> sm_on (demo_dht\<lparr>sm_on := False\<rparr>)" by (simp_all add: demo_dht_def)
  have r: "received (w_dht demo_world (w_round demo_world)) = [45, 3, 21, 8, 77]"
    "\<not> busy_after (w_dht demo_world (w_round demo_world))" by (simp_all add: demo_world_def)
  have "hundredths (100 * unat (45 :: u8) + 10 * unat (3 :: u8)) = chars ''45.30''"
    "hundredths (if (8 :: u8) AND 0x80 \<noteq> 0 then 0 else 100 * unat (21 :: u8) + 10 * unat (8 AND 0x7F :: u8)) = chars ''21.80''"
    by (simp_all add: hundredths_def decimal.simps chars_def)
  with dht_report_correct [OF demo_answering d length_replicate refl refl r(1)] r(2)
  show ?thesis by (simp add: chars_def)
qed

theorem failed_sensor_leaks_witness:
  "\<exists>arr w'. bindO (init_sensors [ds18b20_sensor device_bus 2] demo_world) (\<lambda>(a, w1). deinit_clean_sensors a w1) = Inr (Some (arr, w')) \<and>
    list_all disconnected arr \<and> w_blocks w' = 1 \<and> w_taken w' = [Ow_Malloc, Program_Add, Sm_Claim]"
  using failed_sensor_leaks [of demo_world] by (simp add: demo_world_def)

end
