(* ===== verification/Non_Volatile.thy ===== *)
theory Non_Volatile
  imports Pico_Prelude
begin

text \<open>
  \<open>src/non_volatile.c\<close>: the store at the end of the flash.

  The flash is a function from offsets to bytes. The two flash primitives come from the Pico
  SDK and are parameters, a record \<open>flash_dev\<close>; what the code relies on is the documented
  behaviour \<open>flash_dev_ok\<close>: erasing whole 4096-byte sectors sets them to \<open>0xFF\<close>,
  programming whole 256-byte pages clears bits, and neither touches other bytes. Nothing is
  assumed of calls that are not aligned or leave the chip. The order of the calls that open
  and close the critical section is kept as a trace.
\<close>

section \<open>Model\<close>

type_synonym flash = "nat \<Rightarrow> u8"

record flash_dev =
  flash_range_erase :: "nat \<Rightarrow> nat \<Rightarrow> flash \<Rightarrow> flash"
  flash_range_program :: "nat \<Rightarrow> bytes \<Rightarrow> flash \<Rightarrow> flash"

definition NON_VOL_SEGMENT_SIZE :: nat where "NON_VOL_SEGMENT_SIZE = 4096"
definition NON_VOL_PAGE_SIZE :: nat where "NON_VOL_PAGE_SIZE = 256"

text \<open>The chip of the board: 2 MB.\<close>

definition PICO_FLASH_SIZE_BYTES :: nat where "PICO_FLASH_SIZE_BYTES = 2097152"

text \<open>The result is computed in \<open>int\<close> and cut to the 8 bits of the return type.\<close>

definition number_of_segments :: "u16 \<Rightarrow> nat \<Rightarrow> u8" where
  "number_of_segments len segment = of_nat ((unat len + segment - 1) div segment)"

text \<open>The flash offset both functions compute. Reading goes through the memory-mapped
  window at \<open>XIP_BASE\<close>, so the read address is this offset plus that constant; the model
  reads the flash at the offset.\<close>

definition nv_start :: "u16 \<Rightarrow> nat" where
  "nv_start len = PICO_FLASH_SIZE_BYTES -
     NON_VOL_SEGMENT_SIZE * unat (number_of_segments len NON_VOL_SEGMENT_SIZE)"

definition read_from_non_volatile :: "u16 \<Rightarrow> flash \<Rightarrow> bytes" where
  "read_from_non_volatile len fl = map (\<lambda>i. fl (nv_start len + i)) [0..<unat len]"

datatype nv_call =
    Save_And_Disable_Interrupts
  | Multicore_Lockout_Start
  | Flash_Range_Erase nat nat
  | Flash_Range_Program nat nat
  | Multicore_Lockout_End
  | Restore_Interrupts

text \<open>\<open>mem\<close> is the readable memory from the \<open>data\<close> pointer on. The program call reads
  whole pages, so it needs \<open>number_of_pages * NON_VOL_PAGE_SIZE\<close> readable bytes, whatever
  \<open>len\<close> is.\<close>

definition write_in_non_volatile ::
  "flash_dev \<Rightarrow> bytes \<Rightarrow> u16 \<Rightarrow> flash \<Rightarrow> (nv_call list \<times> flash) ub" where
  "write_in_non_volatile dev mem len fl =
    (let num_segments = number_of_segments len NON_VOL_SEGMENT_SIZE;
         write_start = nv_start len;
         number_of_pages = number_of_segments len NON_VOL_PAGE_SIZE;
         erase_count = NON_VOL_SEGMENT_SIZE * unat num_segments;
         program_count = unat number_of_pages * NON_VOL_PAGE_SIZE;
         fl1 = flash_range_erase dev write_start erase_count fl
     in if program_count \<le> length mem
        then Inr ([Save_And_Disable_Interrupts, Multicore_Lockout_Start,
                   Flash_Range_Erase write_start erase_count,
                   Flash_Range_Program write_start program_count,
                   Multicore_Lockout_End, Restore_Interrupts],
                  flash_range_program dev write_start (take program_count mem) fl1)
        else Inl Out_Of_Bounds)"

section \<open>What the code relies on\<close>

definition in_range :: "nat \<Rightarrow> nat \<Rightarrow> nat \<Rightarrow> bool" where
  "in_range off n a \<longleftrightarrow> off \<le> a \<and> a < off + n"

definition flash_dev_ok :: "flash_dev \<Rightarrow> bool" where
  "flash_dev_ok dev \<longleftrightarrow>
    (\<forall>off n fl. off mod 4096 = 0 \<and> n mod 4096 = 0 \<and> off + n \<le> PICO_FLASH_SIZE_BYTES \<longrightarrow>
       flash_range_erase dev off n fl = (\<lambda>a. if in_range off n a then 0xFF else fl a)) \<and>
    (\<forall>off bs fl. off mod 256 = 0 \<and> length bs mod 256 = 0 \<and>
       off + length bs \<le> PICO_FLASH_SIZE_BYTES \<longrightarrow>
       flash_range_program dev off bs fl =
         (\<lambda>a. if in_range off (length bs) a then fl a AND bs ! (a - off) else fl a))"

text \<open>A device that behaves as documented.\<close>

definition nor_flash :: flash_dev where
  "nor_flash = \<lparr>
     flash_range_erase = (\<lambda>off n fl a. if in_range off n a then 0xFF else fl a),
     flash_range_program =
       (\<lambda>off bs fl a. if in_range off (length bs) a then fl a AND bs ! (a - off) else fl a) \<rparr>"

lemma nor_flash_ok: "flash_dev_ok nor_flash"
  by (simp add: flash_dev_ok_def nor_flash_def)

section \<open>The critical section\<close>

text \<open>A trace is guarded if every flash operation in it happens after interrupts are off and
  the other core is locked out, and before either is undone.\<close>

fun guarded :: "bool \<Rightarrow> bool \<Rightarrow> nv_call list \<Rightarrow> bool" where
  "guarded irq_off locked [] = (\<not> irq_off \<and> \<not> locked)"
| "guarded irq_off locked (Save_And_Disable_Interrupts # cs) = guarded True locked cs"
| "guarded irq_off locked (Restore_Interrupts # cs) = guarded False locked cs"
| "guarded irq_off locked (Multicore_Lockout_Start # cs) = guarded irq_off True cs"
| "guarded irq_off locked (Multicore_Lockout_End # cs) = guarded irq_off False cs"
| "guarded irq_off locked (Flash_Range_Erase a n # cs) =
     (irq_off \<and> locked \<and> guarded irq_off locked cs)"
| "guarded irq_off locked (Flash_Range_Program a n # cs) =
     (irq_off \<and> locked \<and> guarded irq_off locked cs)"

section \<open>Lemmas\<close>

lemmas nv_consts = NON_VOL_SEGMENT_SIZE_def NON_VOL_PAGE_SIZE_def PICO_FLASH_SIZE_BYTES_def

lemma unat_u16_bound: "unat (len :: u16) \<le> 65535"
proof -
  have "unat len < 2 ^ LENGTH(16)" by (rule unsigned_less)
  then show ?thesis by simp
qed

lemma unat_segments: "unat (number_of_segments len NON_VOL_SEGMENT_SIZE) = (unat len + 4095) div 4096"
proof -
  have "(unat len + 4095) div 4096 < 256" using unat_u16_bound [of len] by simp
  then show ?thesis by (simp add: number_of_segments_def nv_consts unat_of_nat)
qed

lemma unat_pages:
  assumes "unat len \<le> 65280"
  shows "unat (number_of_segments len NON_VOL_PAGE_SIZE) = (unat len + 255) div 256"
proof -
  have "(unat len + 255) div 256 < 256" using assms by simp
  then show ?thesis by (simp add: number_of_segments_def nv_consts unat_of_nat)
qed

lemma unat_pages_wrap:
  assumes "65280 < unat len"
  shows "number_of_segments len NON_VOL_PAGE_SIZE = 0"
proof -
  have "(unat len + 255) div 256 = 256" using assms unat_u16_bound [of len] by simp
  then have "(unat len + NON_VOL_PAGE_SIZE - 1) div NON_VOL_PAGE_SIZE = 256"
    by (simp add: nv_consts add.commute)
  then show ?thesis unfolding number_of_segments_def by simp
qed

definition program_count :: "u16 \<Rightarrow> nat" where
  "program_count len = unat (number_of_segments len NON_VOL_PAGE_SIZE) * NON_VOL_PAGE_SIZE"

definition erase_count :: "u16 \<Rightarrow> nat" where
  "erase_count len = NON_VOL_SEGMENT_SIZE * unat (number_of_segments len NON_VOL_SEGMENT_SIZE)"

lemma erase_count_eq: "erase_count len = 4096 * ((unat len + 4095) div 4096)"
  unfolding erase_count_def unat_segments by (simp add: nv_consts)

lemma program_count_eq:
  "program_count len = (if unat len \<le> 65280 then 256 * ((unat len + 255) div 256) else 0)"
  unfolding program_count_def using unat_pages [of len] unat_pages_wrap [of len]
  by (simp add: NON_VOL_PAGE_SIZE_def)

lemma erase_count_bounds:
  "unat len \<le> erase_count len" "erase_count len \<le> 65536" "erase_count len mod 4096 = 0"
  using unat_u16_bound [of len] by (simp_all add: erase_count_eq)

lemma program_count_bounds:
  "unat len \<le> 65280 \<Longrightarrow> unat len \<le> program_count len"
  "program_count len \<le> erase_count len" "program_count len mod 256 = 0"
  by (simp_all add: program_count_eq erase_count_eq) arith

lemma nv_start_eq: "nv_start len = PICO_FLASH_SIZE_BYTES - erase_count len"
  by (simp add: nv_start_def erase_count_def)

lemma nv_start_bounds:
  "nv_start len + erase_count len = PICO_FLASH_SIZE_BYTES" "nv_start len mod 4096 = 0"
proof -
  show "nv_start len + erase_count len = PICO_FLASH_SIZE_BYTES"
    using erase_count_bounds(2) [of len] by (simp add: nv_start_eq nv_consts)
  have "4096 dvd erase_count len" "4096 dvd PICO_FLASH_SIZE_BYTES"
    using erase_count_bounds(3) [of len] by (auto simp: nv_consts)
  then show "nv_start len mod 4096 = 0"
    by (simp add: nv_start_eq dvd_eq_mod_eq_0 [symmetric])
qed

lemma nv_start_page: "nv_start len mod 256 = 0"
  using nv_start_bounds(2) [of len] mod_mod_cancel [of 256 4096 "nv_start len"] by simp

text \<open>The whole effect of a write on a device that behaves as documented.\<close>

definition written :: "bytes \<Rightarrow> u16 \<Rightarrow> flash \<Rightarrow> flash" where
  "written mem len fl = (\<lambda>a.
     if in_range (nv_start len) (program_count len) a then mem ! (a - nv_start len)
     else if in_range (nv_start len) (erase_count len) a then 0xFF else fl a)"

lemma and_ff [simp]: "(0xFF :: u8) AND x = x"
  by (rule bit_word_eqI) (simp add: bit_simps, auto simp: less_Suc_eq numeral_eq_Suc)

lemma write_in_non_volatile_eq:
  assumes ok: "flash_dev_ok dev" and mem: "program_count len \<le> length mem"
  shows "write_in_non_volatile dev mem len fl =
    Inr ([Save_And_Disable_Interrupts, Multicore_Lockout_Start,
          Flash_Range_Erase (nv_start len) (erase_count len),
          Flash_Range_Program (nv_start len) (program_count len),
          Multicore_Lockout_End, Restore_Interrupts], written mem len fl)"
proof -
  let ?s = "nv_start len" and ?e = "erase_count len" and ?p = "program_count len"
  have erase: "flash_range_erase dev ?s ?e fl = (\<lambda>a. if in_range ?s ?e a then 0xFF else fl a)"
    using ok nv_start_bounds [of len] erase_count_bounds(3) [of len]
    by (simp add: flash_dev_ok_def)
  have fits: "?s + ?p \<le> PICO_FLASH_SIZE_BYTES"
    using nv_start_bounds(1) [of len] program_count_bounds(2) [of len] by linarith
  have prog: "flash_range_program dev ?s (take ?p mem) f =
      (\<lambda>a. if in_range ?s ?p a then f a AND mem ! (a - ?s) else f a)" for f
    using ok mem fits nv_start_page [of len] program_count_bounds(3) [of len]
    by (auto simp: flash_dev_ok_def fun_eq_iff in_range_def min_def)
  have sub: "in_range ?s ?p a \<Longrightarrow> in_range ?s ?e a" for a
    using program_count_bounds(2) [of len] by (auto simp: in_range_def)
  have "flash_range_program dev ?s (take ?p mem) (flash_range_erase dev ?s ?e fl) = written mem len fl"
    unfolding erase prog written_def using sub by (auto simp: fun_eq_iff)
  then show ?thesis using mem
    by (simp add: write_in_non_volatile_def Let_def program_count_def erase_count_def)
qed

lemma write_in_non_volatile_oob:
  "length mem < program_count len \<Longrightarrow> write_in_non_volatile dev mem len fl = Inl Out_Of_Bounds"
  by (simp add: write_in_non_volatile_def Let_def program_count_def)

lemma read_written:
  assumes "unat len \<le> 65280" and "program_count len \<le> length mem"
  shows "read_from_non_volatile len (written mem len fl) = take (unat len) mem"
proof (rule nth_equalityI)
  have "unat len \<le> length mem" using assms program_count_bounds(1) [of len] by simp
  then show "length (read_from_non_volatile len (written mem len fl)) = length (take (unat len) mem)"
    by (simp add: read_from_non_volatile_def)
  fix i assume "i < length (read_from_non_volatile len (written mem len fl))"
  then show "read_from_non_volatile len (written mem len fl) ! i = take (unat len) mem ! i"
    using program_count_bounds(1) [OF assms(1)] assms(2)
    by (simp add: read_from_non_volatile_def written_def in_range_def)
qed

section \<open>The store as an interface\<close>

text \<open>What a client of the store relies on: a write with enough readable memory succeeds,
  a later read of the same length returns what was written, and bytes below the store are
  never touched.\<close>

locale nv_store =
  fixes dev_ok :: "'d \<Rightarrow> bool"
    and need :: "u16 \<Rightarrow> nat"
    and wr :: "'d \<Rightarrow> bytes \<Rightarrow> u16 \<Rightarrow> 's \<Rightarrow> ('t \<times> 's) ub"
    and rd :: "u16 \<Rightarrow> 's \<Rightarrow> bytes"
  assumes wr_ok: "dev_ok d \<Longrightarrow> need len \<le> length mem \<Longrightarrow> \<exists>t s'. wr d mem len s = Inr (t, s')"
    and wr_rd: "dev_ok d \<Longrightarrow> unat len \<le> 65280 \<Longrightarrow> wr d mem len s = Inr (t, s') \<Longrightarrow>
      rd len s' = take (unat len) mem"
begin

lemma last_write_wins:
  assumes "dev_ok d" and "unat len \<le> 65280"
    and "wr d mem1 len s = Inr (t1, s1)" and "wr d mem2 len s1 = Inr (t2, s2)"
  shows "rd len s2 = take (unat len) mem2"
  using assms by (blast intro: wr_rd)

lemma write_then_read:
  assumes "dev_ok d" and "unat len \<le> 65280" and "need len \<le> length mem"
  shows "\<exists>t s'. wr d mem len s = Inr (t, s') \<and> rd len s' = take (unat len) mem"
  using wr_ok [OF assms(1,3)] wr_rd [OF assms(1,2)] by blast

end

interpretation nv: nv_store flash_dev_ok program_count write_in_non_volatile read_from_non_volatile
proof unfold_locales
  fix d len and mem :: bytes and s :: flash
  assume "flash_dev_ok d" and "program_count len \<le> length mem"
  then show "\<exists>t s'. write_in_non_volatile d mem len s = Inr (t, s')"
    by (simp add: write_in_non_volatile_eq)
next
  fix d len t and mem :: bytes and s s' :: flash
  assume ok: "flash_dev_ok d" and len: "unat len \<le> 65280"
    and wr: "write_in_non_volatile d mem len s = Inr (t, s')"
  have mem: "program_count len \<le> length mem"
    using wr write_in_non_volatile_oob [of mem len d s] by (metis linorder_not_less sum.distinct(1))
  then have "s' = written mem len s"
    using wr write_in_non_volatile_eq [OF ok mem] by simp
  then show "read_from_non_volatile len s' = take (unat len) mem"
    using read_written [OF len mem] by simp
qed

section \<open>Properties\<close>

text \<open>A write of up to 65280 bytes happens entirely between switching interrupts off with the other
  core locked out and undoing both, touches only the last whole segments of the chip, and a read
  of the same length gives the bytes back; a second write replaces the first.\<close>

theorem nv_write_correct:
  assumes "flash_dev_ok dev" and "unat len \<le> 65280" and "program_count len \<le> length mem"
  shows "\<exists>t fl'. write_in_non_volatile dev mem len fl = Inr (t, fl') \<and> guarded False False t \<and>
    read_from_non_volatile len fl' = take (unat len) mem \<and>
    (\<forall>a. a < PICO_FLASH_SIZE_BYTES - erase_count len \<longrightarrow> fl' a = fl a) \<and>
    (\<forall>mem' t' fl''. write_in_non_volatile dev mem' len fl' = Inr (t', fl'') \<longrightarrow>
       read_from_non_volatile len fl'' = take (unat len) mem')"
proof -
  have "written mem len fl a = fl a" if "a < PICO_FLASH_SIZE_BYTES - erase_count len" for a
    using that by (simp add: written_def in_range_def nv_start_eq)
  then show ?thesis
    using write_in_non_volatile_eq [OF assms(1,3)] read_written [OF assms(2,3)] nv.wr_rd [OF assms(1,2)]
    by simp
qed

theorem nv_write_correct_witness:
  "\<exists>t fl'. write_in_non_volatile nor_flash (replicate 256 7) 3 (\<lambda>_. 0) = Inr (t, fl') \<and>
    guarded False False t \<and> read_from_non_volatile 3 fl' = replicate 3 7"
proof -
  have "unat (3 :: u16) \<le> 65280" "program_count 3 \<le> length (replicate 256 (7 :: u8))"
    by (simp_all add: program_count_eq)
  from nv_write_correct [OF nor_flash_ok this, of "\<lambda>_. 0"]
  obtain t fl' where "write_in_non_volatile nor_flash (replicate 256 7) 3 (\<lambda>_. 0) = Inr (t, fl')"
    "guarded False False t" "read_from_non_volatile 3 fl' = take (unat (3 :: u16)) (replicate 256 7)" by blast
  moreover have "take (unat (3 :: u16)) (replicate 256 (7 :: u8)) = replicate 3 7" by simp
  ultimately show ?thesis by metis
qed

text \<open>For more than 65280 bytes the page count, kept in eight bits, is zero: the segments are erased
  and nothing is programmed, so the data reads back as erased flash.\<close>

theorem nv_page_count_wraps:
  assumes "flash_dev_ok dev" and "65280 < unat len"
  shows "\<exists>t fl'. write_in_non_volatile dev mem len fl = Inr (t, fl') \<and>
    read_from_non_volatile len fl' = replicate (unat len) 0xFF"
proof -
  have p: "program_count len = 0" using assms(2) by (simp add: program_count_eq)
  have "written mem len fl (nv_start len + i) = 0xFF" if "i < unat len" for i
    using that p erase_count_bounds(1) [of len] by (simp add: written_def in_range_def)
  then have "read_from_non_volatile len (written mem len fl) = replicate (unat len) 0xFF"
    unfolding read_from_non_volatile_def by (intro nth_equalityI) auto
  then show ?thesis using write_in_non_volatile_eq [OF assms(1), of len mem fl] p by simp
qed

theorem nv_page_count_wraps_witness:
  "\<exists>t fl'. write_in_non_volatile nor_flash (replicate 65535 7) 65535 (\<lambda>_. 0) = Inr (t, fl') \<and>
    read_from_non_volatile 65535 fl' = replicate 65535 0xFF"
  using nv_page_count_wraps [OF nor_flash_ok, of 65535 "replicate 65535 7" "\<lambda>_. 0"] by simp

end
