(* ===== verification/Runtime_Settings.thy ===== *)
theory Runtime_Settings
  imports Non_Volatile
begin

text \<open>
  \<open>src/runtime_settings.c\<close>, \<open>src/runtime_settings.h\<close> and the defaults of
  \<open>src/crypto_consts.h\<close> (built without \<open>ENABLE_TLS\<close>): the settings object, its
  byte layout, the table of addressable fields, and loading, storing and resetting it.
\<close>

section \<open>Model\<close>

subsection \<open>The struct and its layout\<close>

record tls_mqtt_settings =
  flag :: u32
  wifi_ssid :: bytes
  wifi_pass :: bytes
  tls_mqtt_broker_hostname :: bytes
  tls_mqtt_broker_port :: bytes
  tls_mqtt_broker_CN :: bytes
  tls_mqtt_client_id :: bytes
  tls_mqtt_client_name :: bytes
  tls_mqtt_client_password :: bytes
  padding :: bytes  \<comment> \<open>the byte that aligns \<open>end_flag\<close>\<close>
  end_flag :: u32

text \<open>Members in order, with their alignment and size.\<close>

definition settings_members :: "(string \<times> nat \<times> nat) list" where
  "settings_members =
    [(''flag'', 4, 4), (''wifi_ssid'', 1, 33), (''wifi_pass'', 1, 64),
     (''tls_mqtt_broker_hostname'', 1, 200), (''tls_mqtt_broker_port'', 1, 6),
     (''tls_mqtt_broker_CN'', 1, 200), (''tls_mqtt_client_id'', 1, 100),
     (''tls_mqtt_client_name'', 1, 100), (''tls_mqtt_client_password'', 1, 100),
     (''end_flag'', 4, 4)]"

definition align_up :: "nat \<Rightarrow> nat \<Rightarrow> nat" where
  "align_up a n = (n + a - 1) div a * a"

fun offset_in :: "nat \<Rightarrow> (string \<times> nat \<times> nat) list \<Rightarrow> string \<Rightarrow> nat" where
  "offset_in pos [] nm = pos"
| "offset_in pos ((m, al, sz) # ms) nm =
     (if m = nm then align_up al pos else offset_in (align_up al pos + sz) ms nm)"

definition offsetof :: "string \<Rightarrow> nat" where
  "offsetof nm = offset_in 0 settings_members nm"

definition sizeof_member :: "string \<Rightarrow> nat" where
  "sizeof_member nm = (case map_of settings_members nm of Some (_, sz) \<Rightarrow> sz | None \<Rightarrow> 0)"

definition sizeof_settings :: nat where
  "sizeof_settings = align_up 4 (offset_in 0 settings_members '''')"

text \<open>The object representation and back.\<close>

definition settings_bytes :: "tls_mqtt_settings \<Rightarrow> bytes" where
  "settings_bytes s =
     le_bytes (flag s) @ wifi_ssid s @ wifi_pass s @ tls_mqtt_broker_hostname s @
     tls_mqtt_broker_port s @ tls_mqtt_broker_CN s @ tls_mqtt_client_id s @
     tls_mqtt_client_name s @ tls_mqtt_client_password s @ padding s @ le_bytes (end_flag s)"

definition settings_of_bytes :: "bytes \<Rightarrow> tls_mqtt_settings" where
  "settings_of_bytes b = \<lparr>
     flag = le_word (slice b 0 4),
     wifi_ssid = slice b 4 33,
     wifi_pass = slice b 37 64,
     tls_mqtt_broker_hostname = slice b 101 200,
     tls_mqtt_broker_port = slice b 301 6,
     tls_mqtt_broker_CN = slice b 307 200,
     tls_mqtt_client_id = slice b 507 100,
     tls_mqtt_client_name = slice b 607 100,
     tls_mqtt_client_password = slice b 707 100,
     padding = slice b 807 1,
     end_flag = le_word (slice b 808 4) \<rparr>"

text \<open>Every array has its declared size.\<close>

definition settings_wf :: "tls_mqtt_settings \<Rightarrow> bool" where
  "settings_wf s \<longleftrightarrow>
     length (wifi_ssid s) = 33 \<and> length (wifi_pass s) = 64 \<and>
     length (tls_mqtt_broker_hostname s) = 200 \<and> length (tls_mqtt_broker_port s) = 6 \<and>
     length (tls_mqtt_broker_CN s) = 200 \<and> length (tls_mqtt_client_id s) = 100 \<and>
     length (tls_mqtt_client_name s) = 100 \<and> length (tls_mqtt_client_password s) = 100 \<and>
     length (padding s) = 1"

subsection \<open>The field table\<close>

record field_info_t =
  field_name :: bytes
  offset :: u16
  fsize :: u16

definition FIELD_ENTRY :: "string \<Rightarrow> field_info_t" where
  "FIELD_ENTRY nm = \<lparr> field_name = literal nm, offset = of_nat (offsetof nm),
     fsize = of_nat (sizeof_member nm) \<rparr>"

definition field_names :: "string list" where
  "field_names =
    [''wifi_ssid'', ''wifi_pass'', ''tls_mqtt_broker_hostname'', ''tls_mqtt_broker_port'',
     ''tls_mqtt_broker_CN'', ''tls_mqtt_client_id'', ''tls_mqtt_client_name'',
     ''tls_mqtt_client_password'']"

definition get_settings_fields :: "field_info_t list" where
  "get_settings_fields = map FIELD_ENTRY field_names"

definition get_settings_fields_count :: u8 where
  "get_settings_fields_count = of_nat (length get_settings_fields)"

subsection \<open>Loading, storing, defaults\<close>

definition SETTINGS_FLAG :: u32 where "SETTINGS_FLAG = 0xA5A5A5"

text \<open>The pointer argument is \<open>None\<close> when null. The object is overwritten before the flags
  are looked at, on the error returns too.\<close>

definition read_settings_from_flash ::
  "flash \<Rightarrow> tls_mqtt_settings option \<Rightarrow> int \<times> tls_mqtt_settings option" where
  "read_settings_from_flash fl settings =
    (case settings of
       None \<Rightarrow> (1, None)
     | Some _ \<Rightarrow>
        (let s = settings_of_bytes (read_from_non_volatile (of_nat sizeof_settings) fl)
         in if flag s \<noteq> SETTINGS_FLAG then (2, Some s)
            else if flag s \<noteq> end_flag s then (3, Some s)
            else (0, Some s)))"

text \<open>\<open>after\<close> is the memory that follows the object.\<close>

definition write_settings_in_flash ::
  "flash_dev \<Rightarrow> bytes \<Rightarrow> tls_mqtt_settings option \<Rightarrow> flash \<Rightarrow>
     (tls_mqtt_settings option \<times> flash) ub" where
  "write_settings_in_flash dev after settings fl =
    (case settings of
       None \<Rightarrow> Inr (None, fl)
     | Some s \<Rightarrow>
        (let s' = s\<lparr>flag := SETTINGS_FLAG, end_flag := SETTINGS_FLAG\<rparr>
         in bindE (write_in_non_volatile dev (settings_bytes s' @ after) (of_nat sizeof_settings) fl)
              (\<lambda>(_, fl'). Inr (Some s', fl'))))"

definition WIFI_SSID :: string where "WIFI_SSID = ''SSID''"
definition WIFI_PASSWORD :: string where "WIFI_PASSWORD = ''11111111''"
definition MQTT_SERVER_HOST :: string where "MQTT_SERVER_HOST = ''192.168.0.2''"
definition PICO_HOSTNAME :: string where "PICO_HOSTNAME = ''PicoWClient1''"
definition TLS_MQTT_CLIENT_NAME :: string where "TLS_MQTT_CLIENT_NAME = ''''"
definition TLS_MQTT_CLIENT_PASS :: string where "TLS_MQTT_CLIENT_PASS = ''''"
definition BROKER_MQTT_PORT :: string where "BROKER_MQTT_PORT = ''1883''"

definition default_settings :: tls_mqtt_settings where
  "default_settings = \<lparr>
     flag = 123456,
     wifi_ssid = char_array 33 WIFI_SSID,
     wifi_pass = char_array 64 WIFI_PASSWORD,
     tls_mqtt_broker_hostname = char_array 200 MQTT_SERVER_HOST,
     tls_mqtt_broker_port = char_array 6 BROKER_MQTT_PORT,
     tls_mqtt_broker_CN = char_array 200 MQTT_SERVER_HOST,
     tls_mqtt_client_id = char_array 100 PICO_HOSTNAME,
     tls_mqtt_client_name = char_array 100 TLS_MQTT_CLIENT_NAME,
     tls_mqtt_client_password = char_array 100 TLS_MQTT_CLIENT_PASS,
     padding = [0],
     end_flag = 123456 \<rparr>"

definition initialize_default_settings :: "tls_mqtt_settings option \<Rightarrow> tls_mqtt_settings option ub" where
  "initialize_default_settings settings =
     bindE (assertE (settings \<noteq> None)) (\<lambda>_. Inr (Some default_settings))"

section \<open>Lemmas\<close>

subsection \<open>Layout\<close>

lemma sizeof_settings_eq: "sizeof_settings = 812"
  by (simp add: sizeof_settings_def settings_members_def align_up_def)

lemma unat_sizeof_settings [simp]: "unat (of_nat sizeof_settings :: u16) = 812"
  by (simp add: sizeof_settings_eq)

lemma settings_program_count: "program_count (of_nat sizeof_settings) = 1024"
  by (simp add: program_count_eq)

lemma offsets:
  "offsetof ''wifi_ssid'' = 4" "offsetof ''wifi_pass'' = 37"
  "offsetof ''tls_mqtt_broker_hostname'' = 101" "offsetof ''tls_mqtt_broker_port'' = 301"
  "offsetof ''tls_mqtt_broker_CN'' = 307" "offsetof ''tls_mqtt_client_id'' = 507"
  "offsetof ''tls_mqtt_client_name'' = 607" "offsetof ''tls_mqtt_client_password'' = 707"
  "offsetof ''end_flag'' = 808"
  by (simp_all add: offsetof_def settings_members_def align_up_def)

lemma sizes:
  "sizeof_member ''wifi_ssid'' = 33" "sizeof_member ''wifi_pass'' = 64"
  "sizeof_member ''tls_mqtt_broker_hostname'' = 200" "sizeof_member ''tls_mqtt_broker_port'' = 6"
  "sizeof_member ''tls_mqtt_broker_CN'' = 200" "sizeof_member ''tls_mqtt_client_id'' = 100"
  "sizeof_member ''tls_mqtt_client_name'' = 100" "sizeof_member ''tls_mqtt_client_password'' = 100"
  by (simp_all add: sizeof_member_def settings_members_def)

lemma length_settings_bytes: "settings_wf s \<Longrightarrow> length (settings_bytes s) = 812"
  by (simp add: settings_bytes_def settings_wf_def)

lemma settings_of_bytes_wf: "length b = 812 \<Longrightarrow> settings_wf (settings_of_bytes b)"
  by (simp add: settings_of_bytes_def settings_wf_def)

lemma settings_of_bytes_settings_bytes:
  assumes "settings_wf s"
  shows "settings_of_bytes (settings_bytes s) = s"
  using assms by (simp add: settings_of_bytes_def settings_bytes_def settings_wf_def slice_def)

lemma slice_append_slice:
  "slice b off n @ slice b (off + n) m = slice b off (n + m)"
  by (simp add: slice_def take_add) (simp add: add.commute)

lemma settings_bytes_settings_of_bytes:
  assumes "length b = 812"
  shows "settings_bytes (settings_of_bytes b) = b"
proof -
  note j = slice_append_slice [of b]
  have "slice b 0 812 = b" using assms by (simp add: slice_def)
  moreover have "slice b 0 4 @ slice b 4 33 @ slice b 37 64 @ slice b 101 200 @ slice b 301 6 @
      slice b 307 200 @ slice b 507 100 @ slice b 607 100 @ slice b 707 100 @ slice b 807 1 @
      slice b 808 4 = slice b 0 812"
    using assms j [of 807 1 4] j [of 707 100 5] j [of 607 100 105] j [of 507 100 205]
      j [of 307 200 305] j [of 301 6 505] j [of 101 200 511] j [of 37 64 711] j [of 4 33 775]
      j [of 0 4 808]
    by simp
  ultimately show ?thesis
    using assms by (simp add: settings_bytes_def settings_of_bytes_def le_bytes_le_word)
qed

lemma default_settings_wf: "settings_wf default_settings"
  by (simp add: settings_wf_def default_settings_def char_array_def WIFI_SSID_def WIFI_PASSWORD_def
      MQTT_SERVER_HOST_def PICO_HOSTNAME_def TLS_MQTT_CLIENT_NAME_def TLS_MQTT_CLIENT_PASS_def
      BROKER_MQTT_PORT_def)

subsection \<open>Store and load\<close>

abbreviation stamped :: "tls_mqtt_settings \<Rightarrow> tls_mqtt_settings" where
  "stamped s \<equiv> s\<lparr>flag := SETTINGS_FLAG, end_flag := SETTINGS_FLAG\<rparr>"

lemma stamped_wf [simp]: "settings_wf (stamped s) = settings_wf s"
  by (simp add: settings_wf_def)

lemma write_settings_ok:
  assumes ok: "flash_dev_ok dev" and wf: "settings_wf s" and after: "212 \<le> length after"
  shows "\<exists>fl'. write_settings_in_flash dev after (Some s) fl = Inr (Some (stamped s), fl') \<and>
    read_from_non_volatile (of_nat sizeof_settings) fl' = settings_bytes (stamped s)"
proof -
  let ?mem = "settings_bytes (stamped s) @ after"
  have len: "length (settings_bytes (stamped s)) = 812"
    using wf by (simp add: length_settings_bytes)
  have "program_count (of_nat sizeof_settings) \<le> length ?mem"
    using after len by (simp add: settings_program_count)
  with nv.write_then_read [OF ok, of "of_nat sizeof_settings" ?mem fl]
  obtain t fl' where "write_in_non_volatile dev ?mem (of_nat sizeof_settings) fl = Inr (t, fl')"
    "read_from_non_volatile (of_nat sizeof_settings) fl' = take 812 ?mem"
    by auto
  then show ?thesis
    using len by (simp add: write_settings_in_flash_def)
qed

lemma read_settings_stamped:
  assumes "settings_wf s"
    and "read_from_non_volatile (of_nat sizeof_settings) fl = settings_bytes (stamped s)"
  shows "read_settings_from_flash fl (Some any) = (0, Some (stamped s))"
  using assms
  by (simp add: read_settings_from_flash_def settings_of_bytes_settings_bytes)

lemma read_settings_result_wf:
  "read_settings_from_flash fl (Some any) = (r, s') \<Longrightarrow> \<exists>s. s' = Some s \<and> settings_wf s"
  by (auto simp: read_settings_from_flash_def Let_def read_from_non_volatile_def
      settings_of_bytes_wf split: if_splits)

section \<open>The layout\<close>

text \<open>C16: The byte layout, the table of fields and the members agree. The object representation of well-formed settings has
  the size of the struct and determines them; the entries of the table, in the 16 bits their members have, read out of
  it exactly the eight strings in the order they are declared; the entries follow each other without overlap, between
  the two flags; and every image of that size is the representation of well-formed settings.\<close>

theorem settings_layout_typed:
  assumes "settings_wf s"
  shows "length (settings_bytes s) = sizeof_settings \<and> settings_of_bytes (settings_bytes s) = s \<and>
    map (\<lambda>f. slice (settings_bytes s) (unat (offset f)) (unat (fsize f))) get_settings_fields =
      [wifi_ssid s, wifi_pass s, tls_mqtt_broker_hostname s, tls_mqtt_broker_port s, tls_mqtt_broker_CN s,
       tls_mqtt_client_id s, tls_mqtt_client_name s, tls_mqtt_client_password s] \<and>
    sorted_wrt (\<lambda>f g. unat (offset f) + unat (fsize f) \<le> unat (offset g)) get_settings_fields \<and>
    (\<forall>f \<in> set get_settings_fields. sizeof_member ''flag'' \<le> unat (offset f) \<and> unat (offset f) + unat (fsize f) \<le> offsetof ''end_flag'') \<and>
    (\<forall>b. length b = sizeof_settings \<longrightarrow> settings_wf (settings_of_bytes b) \<and> settings_bytes (settings_of_bytes b) = b)"
proof -
  note entries = get_settings_fields_def field_names_def FIELD_ENTRY_def offsets sizes
  have "map (\<lambda>f. slice (settings_bytes s) (unat (offset f)) (unat (fsize f))) get_settings_fields =
      [wifi_ssid s, wifi_pass s, tls_mqtt_broker_hostname s, tls_mqtt_broker_port s, tls_mqtt_broker_CN s,
       tls_mqtt_client_id s, tls_mqtt_client_name s, tls_mqtt_client_password s]"
    using assms by (simp add: entries settings_bytes_def settings_wf_def slice_def)
  moreover have "sizeof_member ''flag'' = 4" by (simp add: sizeof_member_def settings_members_def)
  ultimately show ?thesis using assms
    by (simp add: length_settings_bytes sizeof_settings_eq settings_of_bytes_settings_bytes settings_of_bytes_wf settings_bytes_settings_of_bytes)
      (simp add: entries)
qed

theorem settings_layout_typed_witness:
  "settings_of_bytes (settings_bytes default_settings) = default_settings \<and> length (settings_bytes default_settings) = 812"
  using settings_layout_typed [OF default_settings_wf] by (simp add: sizeof_settings_eq)

end
