(* ===== verification/Http_Control.thy ===== *)
theory Http_Control
  imports Pico_Prelude
begin

text \<open>
  \<open>src/access_point_httpd/http_control.c\<close>: the POST handlers that the lwIP web server calls,
  and the parser of the form they collect. The function that receives the parsed pairs is
  registered by the main program; it acts on a state of type \<open>'s\<close>.
\<close>

section \<open>Model\<close>

definition MAX_POST_DATA_LEN :: nat where "MAX_POST_DATA_LEN = 1024"

text \<open>The lwIP status codes the firmware names; any other code is \<open>Err_Other\<close>.\<close>

datatype err_t = ERR_OK | ERR_MEM | ERR_VAL | ERR_ARG | ERR_CONN | Err_Other int

text \<open>A pbuf: its payload and the rest of the chain.\<close>

datatype pbuf = Pbuf (payload: bytes) (pbuf_next: "pbuf option")

type_synonym 's process_post_field_fn = "bytes \<Rightarrow> bytes \<Rightarrow> 's \<Rightarrow> 's ub"

text \<open>The file's static variables. \<open>static_store_settings_flag\<close> is the flag behind the
  pointer, \<open>None\<close> while the pointer is null.\<close>

record 's http_control =
  post_data_buffer :: bytes
  post_data_index :: u16
  process_post_field_cb :: "'s process_post_field_fn option"
  static_store_settings_flag :: "bool option"

definition http_control_boot :: "'s http_control" where
  "http_control_boot = \<lparr> post_data_buffer = replicate MAX_POST_DATA_LEN 0, post_data_index = 0,
     process_post_field_cb = None, static_store_settings_flag = None \<rparr>"

definition httpd_post_begin ::
  "int \<Rightarrow> bytes \<Rightarrow> u16 \<Rightarrow> 's http_control \<Rightarrow> (err_t \<times> bytes \<times> 's http_control) ub" where
  "httpd_post_begin content_len response_uri response_uri_len h =
    (if content_len > int MAX_POST_DATA_LEN
     then bindE (strncpy response_uri (literal ''/index.ssi'') (unat response_uri_len))
            (\<lambda>uri. Inr (ERR_VAL, uri, h))
     else Inr (ERR_OK, response_uri, h\<lparr>post_data_index := 0\<rparr>))"

text \<open>The boolean says whether the pbuf was freed.\<close>

definition httpd_post_receive_data ::
  "pbuf option \<Rightarrow> 's http_control \<Rightarrow> (err_t \<times> bool \<times> 's http_control) ub" where
  "httpd_post_receive_data p h =
    (case p of
       None \<Rightarrow> Inr (ERR_ARG, False, h)
     | Some pb \<Rightarrow>
        (let data = payload pb; len = (of_nat (length data) :: u16) in
         if unat (post_data_index h) + unat len > MAX_POST_DATA_LEN
         then Inr (ERR_MEM, True, h)
         else bindE (memcpy (post_data_buffer h) (unat (post_data_index h)) data (unat len))
                (\<lambda>buf. Inr (ERR_OK, True,
                   h\<lparr>post_data_buffer := buf, post_data_index := post_data_index h + len\<rparr>))))"

text \<open>\<open>strtok(p, "&")\<close> on the memory from the scan position on: the next token and the memory
  from the new scan position. Running off the end of the object is a fault.\<close>

abbreviation amp :: u8 where "amp \<equiv> 38"
abbreviation eq_sign :: u8 where "eq_sign \<equiv> 61"
abbreviation digit_zero :: u8 where "digit_zero \<equiv> 48"

definition strtok_amp :: "bytes \<Rightarrow> (bytes \<times> bytes) option ub" where
  "strtok_amp mem =
    (let skipped = dropWhile (\<lambda>b. b = amp) mem in
     bindE (buf_get skipped 0) (\<lambda>c.
       if c = 0 then Inr None
       else (let token = takeWhile (\<lambda>b. b \<noteq> amp \<and> b \<noteq> 0) skipped;
                 tail = drop (length token) skipped
             in bindE (buf_get tail 0) (\<lambda>d.
                  Inr (Some (token, if d = 0 then tail else tl tail))))))"

text \<open>The loop over one token, which strtok has terminated with a zero: at the first equals
  sign the token is cut in two and handed to the callback. A value that starts with the
  character zero is replaced by the empty string.\<close>

definition handle_token :: "'s process_post_field_fn \<Rightarrow> bytes \<Rightarrow> 's \<Rightarrow> 's ub" where
  "handle_token cb token st =
    (if eq_sign \<in> set token
     then (let key = takeWhile (\<lambda>b. b \<noteq> eq_sign) token;
               value = tl (dropWhile (\<lambda>b. b \<noteq> eq_sign) token)
           in if (value @ [0]) ! 0 \<noteq> digit_zero then cb key value st else cb key [] st)
     else Inr st)"

lemma strtok_amp_shorter:
  assumes "strtok_amp mem = Inr (Some (token, rest))"
  shows "length rest < length mem"
proof -
  let ?sk = "dropWhile (\<lambda>b. b = amp) mem"
  let ?tl = "drop (length (takeWhile (\<lambda>b. b \<noteq> amp \<and> b \<noteq> 0) ?sk)) ?sk"
  from assms have ne: "?sk \<noteq> []" "hd ?sk \<noteq> 0" and rest: "rest = ?tl \<or> rest = tl ?tl"
    by (auto simp: strtok_amp_def Let_def buf_get_Inr_iff hd_conv_nth split: if_splits)
  from ne(1) have "hd ?sk \<noteq> amp" by (metis (mono_tags, lifting) hd_dropWhile)
  with ne have "takeWhile (\<lambda>b. b \<noteq> amp \<and> b \<noteq> 0) ?sk \<noteq> []"
    by (metis (mono_tags, lifting) takeWhile_eq_Nil_iff)
  then have "length ?tl < length ?sk"
    using ne(1) by simp
  moreover have "length ?sk \<le> length mem" by (rule length_dropWhile_le)
  ultimately show ?thesis using rest by auto
qed

function parse_buffer :: "'s process_post_field_fn \<Rightarrow> bytes \<Rightarrow> 's \<Rightarrow> 's ub" where
  "parse_buffer cb mem st =
    (case strtok_amp mem of
       Inl f \<Rightarrow> Inl f
     | Inr None \<Rightarrow> Inr st
     | Inr (Some (token, rest)) \<Rightarrow>
        (case handle_token cb token st of
           Inl f \<Rightarrow> Inl f
         | Inr st' \<Rightarrow> parse_buffer cb rest st'))"
  by pat_completeness auto
termination
  by (relation "measure (\<lambda>(cb, mem, st). length mem)") (auto dest: strtok_amp_shorter)

declare parse_buffer.simps [simp del]

text \<open>The handlers' pointers are set by \<open>my_httpd_run\<close> before the server starts; calling
  through a null pointer is a fault.\<close>

definition httpd_post_finished ::
  "bytes \<Rightarrow> u16 \<Rightarrow> 's \<times> 's http_control \<Rightarrow> (bytes \<times> 's \<times> 's http_control) ub" where
  "httpd_post_finished response_uri response_uri_len = (\<lambda>(st, h).
    bindE (case process_post_field_cb h of
             None \<Rightarrow> parse_buffer (\<lambda>_ _ _. Inl Null_Deref) (post_data_buffer h) st
           | Some cb \<Rightarrow> parse_buffer cb (post_data_buffer h) st)
      (\<lambda>st'.
        if static_store_settings_flag h = None then Inl Null_Deref
        else bindE (strncpy response_uri (literal ''/index.ssi'') (unat response_uri_len))
          (\<lambda>uri. Inr (uri, st', h\<lparr>static_store_settings_flag := Some True,
                   post_data_buffer := replicate (length (post_data_buffer h)) 0\<rparr>))))"

datatype httpd_call = Lwip_Begin | Http_Set_Ssi_Handler "bytes list" u8 | Httpd_Init | Lwip_End

definition my_httpd_run ::
  "bytes list \<Rightarrow> u8 \<Rightarrow> 's process_post_field_fn \<Rightarrow> bool \<Rightarrow> 's http_control \<Rightarrow>
     int \<times> httpd_call list \<times> 's http_control" where
  "my_httpd_run ssitags number_of_tags process_post_field store_settings_flag h =
    (0, [Lwip_Begin, Http_Set_Ssi_Handler ssitags number_of_tags, Httpd_Init, Lwip_End],
     h\<lparr>process_post_field_cb := Some process_post_field,
       static_store_settings_flag := Some store_settings_flag\<rparr>)"

section \<open>Reference parser\<close>

text \<open>The pairs of an \<open>application/x-www-form-urlencoded\<close> body as the firmware understands
  it: non-empty pieces between ampersands, cut at their first equals sign.\<close>

fun pieces :: "bytes \<Rightarrow> bytes list" where
  "pieces [] = [[]]"
| "pieces (b # bs) = (if b = amp then [] # pieces bs
     else (case pieces bs of [] \<Rightarrow> [[b]] | p # ps \<Rightarrow> (b # p) # ps))"

definition form_pairs :: "bytes \<Rightarrow> (bytes \<times> bytes) list" where
  "form_pairs body =
     map (\<lambda>t. (takeWhile (\<lambda>b. b \<noteq> eq_sign) t, tl (dropWhile (\<lambda>b. b \<noteq> eq_sign) t)))
       (filter (\<lambda>t. eq_sign \<in> set t) (pieces body))"

definition firmware_value :: "bytes \<Rightarrow> bytes" where
  "firmware_value v = (case v of [] \<Rightarrow> [] | b # _ \<Rightarrow> if b = digit_zero then [] else v)"

fun deliver :: "'s process_post_field_fn \<Rightarrow> (bytes \<times> bytes) list \<Rightarrow> 's \<Rightarrow> 's ub" where
  "deliver cb [] st = Inr st"
| "deliver cb ((k, v) # ps) st = bindE (cb k (firmware_value v) st) (deliver cb ps)"

section \<open>Lemmas\<close>

subsection \<open>Parsing\<close>

lemma pieces_not_Nil [simp]: "pieces bs \<noteq> []"
  by (induction bs) (auto split: list.splits)

lemma pieces_append:
  "amp \<notin> set t \<Longrightarrow> pieces (t @ bs) = (t @ hd (pieces bs)) # tl (pieces bs)"
  by (induction t) (auto split: list.splits)

lemma pieces_token: "amp \<notin> set t \<Longrightarrow> pieces (t @ amp # bs) = t # pieces bs"
  by (simp add: pieces_append)

lemma pieces_last: "amp \<notin> set t \<Longrightarrow> pieces t = [t]"
  using pieces_append [of t "[]"] by simp

lemma form_pairs_amp [simp]: "form_pairs (amp # bs) = form_pairs bs"
  by (simp add: form_pairs_def)

lemma form_pairs_skip: "form_pairs (dropWhile (\<lambda>b. b = amp) bs) = form_pairs bs"
  by (induction bs) auto

lemma form_pairs_Nil [simp]: "form_pairs [] = []"
  by (simp add: form_pairs_def)

lemma deliver_Nil_fun [simp]: "deliver cb [] = Inr"
  by (simp add: fun_eq_iff)

lemma handle_token_deliver:
  "amp \<notin> set t \<Longrightarrow> handle_token cb t st = deliver cb (form_pairs t) st"
  by (cases "tl (dropWhile (\<lambda>b. b \<noteq> eq_sign) t)")
    (simp_all add: handle_token_def form_pairs_def pieces_last firmware_value_def Let_def)

lemma form_pairs_token:
  "amp \<notin> set t \<Longrightarrow> form_pairs (t @ amp # bs) = form_pairs t @ form_pairs bs"
  by (simp add: form_pairs_def pieces_token pieces_last)

lemma deliver_append: "deliver cb (ps @ qs) st = bindE (deliver cb ps st) (deliver cb qs)"
  by (induction cb ps st rule: deliver.induct) (auto simp: bindE_assoc, metis)

lemma dropWhile_zero_mem:
  "0 \<notin> set body \<Longrightarrow> dropWhile (\<lambda>b. b = amp) (body @ 0 # rest) = dropWhile (\<lambda>b. b = amp) body @ 0 # rest"
  by (induction body) auto

lemma takeWhile_zero_mem:
  "0 \<notin> set s \<Longrightarrow> takeWhile (\<lambda>b. b \<noteq> amp \<and> b \<noteq> 0) (s @ 0 # rest) = takeWhile (\<lambda>b. b \<noteq> amp) s"
  by (induction s) auto

text \<open>One call of strtok on a terminated string.\<close>

lemma strtok_amp_end:
  assumes "0 \<notin> set body" and "dropWhile (\<lambda>b. b = amp) body = []"
  shows "strtok_amp (body @ 0 # rest) = Inr None"
  using assms by (simp add: strtok_amp_def dropWhile_zero_mem)

lemma strtok_amp_token:
  assumes z: "0 \<notin> set body" and s: "dropWhile (\<lambda>b. b = amp) body = s" "s \<noteq> []"
  shows "\<exists>t. t = takeWhile (\<lambda>b. b \<noteq> amp) s \<and> amp \<notin> set t \<and>
    (s = t \<and> strtok_amp (body @ 0 # rest) = Inr (Some (t, 0 # rest)) \<or>
     (\<exists>u. s = t @ amp # u \<and> strtok_amp (body @ 0 # rest) = Inr (Some (t, u @ 0 # rest))))"
proof -
  let ?t = "takeWhile (\<lambda>b. b \<noteq> amp) s" and ?d = "dropWhile (\<lambda>b. b \<noteq> amp) s"
  have zs: "0 \<notin> set s" using z s(1) by (metis set_dropWhileD)
  have hd: "hd s \<noteq> 0" using zs s(2) by (cases s) auto
  have na: "amp \<notin> set ?t" by (auto dest: set_takeWhileD)
  have sk: "dropWhile (\<lambda>b. b = amp) (body @ 0 # rest) = s @ 0 # rest"
    using z s(1) by (simp add: dropWhile_zero_mem)
  have tw: "takeWhile (\<lambda>b. b \<noteq> amp \<and> b \<noteq> 0) (s @ 0 # rest) = ?t"
    using zs by (rule takeWhile_zero_mem)
  have dr: "drop (length ?t) (s @ 0 # rest) = ?d @ 0 # rest"
    by (metis append_assoc append_eq_conv_conj takeWhile_dropWhile_id)
  have call: "strtok_amp (body @ 0 # rest) =
      bindE (buf_get (?d @ 0 # rest) 0) (\<lambda>d. Inr (Some (?t, if d = 0 then ?d @ 0 # rest else tl (?d @ 0 # rest))))"
    unfolding strtok_amp_def Let_def sk tw dr using hd s(2) by (cases s) auto
  show ?thesis
  proof (cases ?d)
    case Nil
    then have "s = ?t" by (metis append_Nil2 takeWhile_dropWhile_id)
    then show ?thesis using na call Nil by auto
  next
    case (Cons c u)
    then have "c = amp" by (metis (mono_tags, lifting) dropWhile_eq_Cons_conv)
    then have "s = ?t @ amp # u" using Cons by (metis takeWhile_dropWhile_id)
    then show ?thesis using na call Cons \<open>c = amp\<close> by auto
  qed
qed

lemma parse_buffer_end: "parse_buffer cb (0 # rest) st = Inr st"
  by (subst parse_buffer.simps) (simp add: strtok_amp_def)

lemma parse_buffer_string:
  assumes "0 \<notin> set body"
  shows "parse_buffer cb (body @ 0 # rest) st = deliver cb (form_pairs body) st"
  using assms
proof (induction "length body" arbitrary: body st rule: less_induct)
  case less
  define s where "s = dropWhile (\<lambda>b. b = amp) body"
  have fp: "form_pairs body = form_pairs s" unfolding s_def by (rule form_pairs_skip [symmetric])
  show ?case
  proof (cases "s = []")
    case True
    with fp have "form_pairs body = []" by simp
    moreover from True have "strtok_amp (body @ 0 # rest) = Inr None"
      using strtok_amp_end [OF less.prems] unfolding s_def by blast
    ultimately show ?thesis by (subst parse_buffer.simps) simp
  next
    case False
    from strtok_amp_token [OF less.prems s_def [symmetric] False]
    obtain t where na: "amp \<notin> set t"
      and alt: "s = t \<and> strtok_amp (body @ 0 # rest) = Inr (Some (t, 0 # rest)) \<or>
        (\<exists>u. s = t @ amp # u \<and> strtok_amp (body @ 0 # rest) = Inr (Some (t, u @ 0 # rest)))"
      by blast
    from alt show ?thesis
    proof (elim disjE exE conjE)
      assume "s = t" and "strtok_amp (body @ 0 # rest) = Inr (Some (t, 0 # rest))"
      then show ?thesis
        using handle_token_deliver [OF na, of cb st] fp
        by (subst parse_buffer.simps) (auto simp: parse_buffer_end split: sum.splits)
    next
      fix u assume u: "s = t @ amp # u"
        and tok: "strtok_amp (body @ 0 # rest) = Inr (Some (t, u @ 0 # rest))"
      have "length s \<le> length body" unfolding s_def by (rule length_dropWhile_le)
      then have len: "length u < length body" using u by simp
      have zu: "0 \<notin> set u" using u less.prems unfolding s_def
        by (metis in_set_conv_decomp set_dropWhileD append_assoc append_Cons in_set_conv_decomp)
      have "form_pairs body = form_pairs t @ form_pairs u"
        using fp u form_pairs_token [OF na] by simp
      then show ?thesis
        using tok handle_token_deliver [OF na, of cb st] less.hyps [OF len zu]
        by (subst parse_buffer.simps) (auto simp: deliver_append split: sum.splits)
    qed
  qed
qed

subsection \<open>The receive buffer\<close>

definition http_wf :: "'s http_control \<Rightarrow> bool" where
  "http_wf h \<longleftrightarrow> length (post_data_buffer h) = MAX_POST_DATA_LEN \<and>
     unat (post_data_index h) \<le> MAX_POST_DATA_LEN"

lemma http_boot_wf: "http_wf http_control_boot"
  by (simp add: http_wf_def http_control_boot_def)

lemma u16_of_length_le: "unat (of_nat n :: u16) \<le> n"
  by (simp add: unat_of_nat)

lemma u16_add_small:
  "unat (i :: u16) + unat j \<le> 1024 \<Longrightarrow> unat (i + j) = unat i + unat j"
  by (simp add: unat_word_ariths)

lemma receive_wf:
  assumes "http_wf h"
  shows "\<exists>e fr h'. httpd_post_receive_data p h = Inr (e, fr, h') \<and> http_wf h'"
  using assms u16_of_length_le
  by (auto simp: httpd_post_receive_data_def http_wf_def MAX_POST_DATA_LEN_def Let_def memcpy_def
      u16_add_small split: option.splits)

lemma begin_wf:
  assumes "http_wf h" and "unat ulen \<le> length uri"
  shows "\<exists>e uri' h'. httpd_post_begin n uri ulen h = Inr (e, uri', h') \<and> http_wf h'"
  using assms by (auto simp: httpd_post_begin_def http_wf_def strncpy_def Let_def literal_def)

text \<open>A run of the receive handler over a list of single-segment pbufs.\<close>

fun receive_all :: "bytes list \<Rightarrow> 's http_control \<Rightarrow> (err_t \<times> 's http_control) ub" where
  "receive_all [] h = Inr (ERR_OK, h)"
| "receive_all (c # cs) h =
     bindE (httpd_post_receive_data (Some (Pbuf c None)) h)
       (\<lambda>(e, _, h'). if e = ERR_OK then receive_all cs h' else Inr (e, h'))"

text \<open>The server's part of one POST request: the handlers in the order lwIP calls them. The web
  server finishes the request after a failed receive too.\<close>

definition post_request ::
  "int \<Rightarrow> bytes list \<Rightarrow> bytes \<Rightarrow> u16 \<Rightarrow> 's \<times> 's http_control \<Rightarrow> (err_t \<times> 's \<times> 's http_control) ub" where
  "post_request content_len chunks uri ulen = (\<lambda>(st, h).
     bindE (httpd_post_begin content_len uri ulen h) (\<lambda>(e, uri1, h1).
       if e \<noteq> ERR_OK then Inr (e, st, h1)
       else bindE (receive_all chunks h1) (\<lambda>(e2, h2).
         bindE (httpd_post_finished uri1 ulen (st, h2))
           (\<lambda>(_, st', h3). Inr (e2, st', h3)))))"

definition post_clean :: "'s http_control \<Rightarrow> bool" where
  "post_clean h \<longleftrightarrow> post_data_buffer h = replicate MAX_POST_DATA_LEN 0"

lemma receive_one:
  assumes "length c < 65536" and "length (post_data_buffer h) = 1024"
    and "unat (post_data_index h) + length c \<le> 1024"
  shows "httpd_post_receive_data (Some (Pbuf c nx)) h =
    Inr (ERR_OK, True, h\<lparr>post_data_buffer := overlay (post_data_buffer h) (unat (post_data_index h)) c,
                       post_data_index := post_data_index h + of_nat (length c)\<rparr>)"
  using assms
  by (simp add: httpd_post_receive_data_def Let_def MAX_POST_DATA_LEN_def memcpy_def unat_of_nat)

lemma receive_too_long:
  assumes "length c < 65536" and "1024 < unat (post_data_index h) + length c"
  shows "httpd_post_receive_data (Some (Pbuf c nx)) h = Inr (ERR_MEM, True, h)"
  using assms by (simp add: httpd_post_receive_data_def Let_def MAX_POST_DATA_LEN_def unat_of_nat)

lemma overlay_extend: "length pre + length c \<le> length (pre @ suf) \<Longrightarrow>
    overlay (pre @ suf) (length pre) c = pre @ c @ drop (length c) suf"
  by (simp add: overlay_def)

lemma receive_all_appends:
  assumes "post_data_buffer h = pre @ suf" and "unat (post_data_index h) = length pre"
    and "length pre + length suf = 1024" and "length (concat cs) \<le> length suf"
  shows "\<exists>i. receive_all cs h = Inr (ERR_OK,
      h\<lparr>post_data_buffer := pre @ concat cs @ drop (length (concat cs)) suf, post_data_index := i\<rparr>) \<and>
      unat i = length pre + length (concat cs)"
  using assms
proof (induction cs arbitrary: h pre suf)
  case Nil
  then show ?case
    by (auto intro!: exI [of _ "post_data_index h"])
next
  case (Cons c cs)
  let ?h = "h\<lparr>post_data_buffer := pre @ c @ drop (length c) suf,
              post_data_index := post_data_index h + of_nat (length c)\<rparr>"
  have c: "length c \<le> length suf" "length c < 65536" using Cons.prems by auto
  have step: "httpd_post_receive_data (Some (Pbuf c None)) h = Inr (ERR_OK, True, ?h)"
    using receive_one [of c h None] Cons.prems c overlay_extend [of pre c suf] by simp
  have idx: "unat (post_data_index h + of_nat (length c)) = length (pre @ c)"
    using Cons.prems c by (subst u16_add_small) (simp_all add: unat_of_nat)
  have "\<exists>i. receive_all cs ?h = Inr (ERR_OK, ?h\<lparr>post_data_buffer := (pre @ c) @ concat cs @
      drop (length (concat cs)) (drop (length c) suf), post_data_index := i\<rparr>) \<and>
      unat i = length (pre @ c) + length (concat cs)"
    by (rule Cons.IH) (use Cons.prems c idx in auto)
  then show ?case using step by (auto simp: add.commute)
qed

lemma post_finished_string:
  assumes "post_data_buffer h = body @ 0 # rest" and "0 \<notin> set body"
    and "process_post_field_cb h = Some cb" and "static_store_settings_flag h = Some b"
    and "unat ulen \<le> length uri" and "deliver cb (form_pairs body) st = Inr st'"
  shows "\<exists>uri'. httpd_post_finished uri ulen (st, h) = Inr (uri', st',
     h\<lparr>static_store_settings_flag := Some True,
       post_data_buffer := replicate (length (post_data_buffer h)) 0\<rparr>)"
  using assms by (simp add: httpd_post_finished_def parse_buffer_string strncpy_def Let_def literal_def)

text \<open>A whole request on a clean buffer.\<close>

lemma post_request_delivers:
  assumes clean: "post_clean h" and cb: "process_post_field_cb h = Some cb"
    and fl: "static_store_settings_flag h = Some b" and uri: "unat ulen \<le> length uri"
    and body: "body = concat cs" "0 \<notin> set body" "length body < MAX_POST_DATA_LEN"
    and len: "n \<le> int MAX_POST_DATA_LEN" and st: "deliver cb (form_pairs body) st = Inr st'"
  shows "\<exists>h'. post_request n cs uri ulen (st, h) = Inr (ERR_OK, st', h') \<and> post_clean h' \<and>
    static_store_settings_flag h' = Some True \<and> process_post_field_cb h' = Some cb"
proof -
  let ?h1 = "h\<lparr>post_data_index := 0\<rparr>" and ?k = "MAX_POST_DATA_LEN - length body"
  have "post_data_buffer ?h1 = [] @ replicate 1024 0"
    using clean by (simp add: post_clean_def MAX_POST_DATA_LEN_def)
  from receive_all_appends [OF this, of cs] obtain i where
    rc: "receive_all cs ?h1 =
      Inr (ERR_OK, ?h1\<lparr>post_data_buffer := body @ replicate ?k 0, post_data_index := i\<rparr>)"
    using body by (auto simp: MAX_POST_DATA_LEN_def)
  let ?h2 = "?h1\<lparr>post_data_buffer := body @ replicate ?k 0, post_data_index := i\<rparr>"
  have "replicate ?k 0 = 0 # replicate (?k - 1) (0 :: u8)"
    using body(3) by (simp add: replicate_Suc [symmetric] del: replicate_Suc)
  then have "post_data_buffer ?h2 = body @ 0 # replicate (?k - 1) 0" by simp
  from post_finished_string [OF this body(2) _ _ uri st] obtain uri' where
    fin: "httpd_post_finished uri ulen (st, ?h2) = Inr (uri', st',
      ?h2\<lparr>static_store_settings_flag := Some True, post_data_buffer := replicate (length (post_data_buffer ?h2)) 0\<rparr>)"
    using cb fl by fastforce
  have "length (post_data_buffer ?h2) = MAX_POST_DATA_LEN" using body(3) by simp
  then show ?thesis
    using rc fin len cb by (simp add: post_request_def httpd_post_begin_def post_clean_def)
qed

text \<open>A body that fills the buffer completely leaves no terminator for strtok.\<close>

lemma strtok_amp_off_end:
  assumes "0 \<notin> set mem" and "amp \<notin> set mem"
  shows "strtok_amp mem = Inl Out_Of_Bounds"
proof -
  have "dropWhile (\<lambda>b. b = amp) mem = mem" using assms(2) by (cases mem) auto
  moreover have "takeWhile (\<lambda>b. b \<noteq> amp \<and> b \<noteq> 0) mem = mem"
    using assms by (metis (mono_tags, lifting) takeWhile_eq_all_conv)
  ultimately show ?thesis
    using assms(1) by (cases mem) (auto simp: strtok_amp_def)
qed

lemma pieces_bytes: "\<forall>t \<in> set (pieces body). \<forall>x \<in> set t. x \<in> set body"
  by (induction body) (auto split: list.splits)

lemma form_pairs_bytes:
  assumes "(k, v) \<in> set (form_pairs body)" and "x \<in> set k \<or> x \<in> set v"
  shows "x \<in> set body"
proof -
  obtain t where t: "t \<in> set (pieces body)" "k = takeWhile (\<lambda>b. b \<noteq> eq_sign) t"
    "v = tl (dropWhile (\<lambda>b. b \<noteq> eq_sign) t)"
    using assms(1) by (auto simp: form_pairs_def)
  have "y \<in> set xs" if "y \<in> set (tl xs)" for y and xs :: bytes
    using that by (cases xs) auto
  then have "x \<in> set t"
    using assms(2) t(2,3) by (auto dest: set_takeWhileD set_dropWhileD)
  then show ?thesis using pieces_bytes t(1) by blast
qed

section \<open>The callback as an interface\<close>

text \<open>What the form parser needs of the registered callback: on terminated strings it does not
  fail, keeps an invariant, and acts on an abstract state as a function of the pair.\<close>

locale form_sink =
  fixes cb :: "'s process_post_field_fn"
    and inv :: "'s \<Rightarrow> bool"
    and abs_of :: "'s \<Rightarrow> 'a"
    and upd :: "bytes \<Rightarrow> bytes \<Rightarrow> 'a \<Rightarrow> 'a"
  assumes cb_ok: "inv st \<Longrightarrow> 0 \<notin> set k \<Longrightarrow> 0 \<notin> set v \<Longrightarrow>
    \<exists>st'. cb k v st = Inr st' \<and> inv st' \<and> abs_of st' = upd k v (abs_of st)"
begin

lemma deliver_refines:
  assumes "inv st" and "\<forall>(k, v) \<in> set ps. 0 \<notin> set k \<and> 0 \<notin> set v"
  shows "\<exists>st'. deliver cb ps st = Inr st' \<and> inv st' \<and>
    abs_of st' = fold (\<lambda>(k, v). upd k (firmware_value v)) ps (abs_of st)"
  using assms
proof (induction ps arbitrary: st)
  case (Cons p ps)
  obtain k v where p: "p = (k, v)" by fastforce
  have "0 \<notin> set (firmware_value v)"
    using Cons.prems(2) p by (auto simp: firmware_value_def split: list.splits if_splits)
  then obtain st1 where "cb k (firmware_value v) st = Inr st1" "inv st1"
    "abs_of st1 = upd k (firmware_value v) (abs_of st)"
    using cb_ok [of st k "firmware_value v"] Cons.prems p by auto
  then show ?case using Cons.IH [of st1] Cons.prems p by simp
qed simp

lemma post_refines:
  assumes "post_clean h" and "process_post_field_cb h = Some cb" and "static_store_settings_flag h = Some b"
    and "unat ulen \<le> length uri" and "0 \<notin> set (concat cs)" and "length (concat cs) < MAX_POST_DATA_LEN"
    and "n \<le> int MAX_POST_DATA_LEN" and "inv st"
  shows "\<exists>st' h'. post_request n cs uri ulen (st, h) = Inr (ERR_OK, st', h') \<and> post_clean h' \<and>
    static_store_settings_flag h' = Some True \<and> inv st' \<and>
    abs_of st' = fold (\<lambda>(k, v). upd k (firmware_value v)) (form_pairs (concat cs)) (abs_of st)"
proof -
  have "\<forall>(k, v) \<in> set (form_pairs (concat cs)). 0 \<notin> set k \<and> 0 \<notin> set v"
    using form_pairs_bytes [of _ _ "concat cs"] assms(5) by blast
  from deliver_refines [OF assms(8) this] obtain st' where
    "deliver cb (form_pairs (concat cs)) st = Inr st'" "inv st'"
    "abs_of st' = fold (\<lambda>(k, v). upd k (firmware_value v)) (form_pairs (concat cs)) (abs_of st)" by blast
  then show ?thesis
    using post_request_delivers [OF assms(1-4) refl assms(5-7)] by blast
qed

end
end
