(* ===== verification/Mqtt_Client.thy ===== *)
theory Mqtt_Client
  imports Runtime_Settings Http_Control
begin

text \<open>
  \<open>src/tls_mqtt_client.c\<close> in the build without TLS: the MQTT client around lwIP's.

  Memory from \<open>malloc\<close> is a typed heap, so that every \<open>free\<close> is checked against what is
  allocated. The client object's block is in the heap; its members are a record of their own.
  The topic states are a static array that the client object points to. Calls into lwIP are
  collected in order; what they return is an argument. The function that executes a command is
  an argument that acts on a state of type \<open>'s\<close>.
\<close>

section \<open>Model\<close>

subsection \<open>Status codes\<close>

datatype TLS_MQTT_RET =
    TLS_MQTT_OK | TLS_MQTT_ERR_ALLOC | TLS_MQTT_ERR_DNS | TLS_MQTT_ERR_CERTS
  | TLS_MQTT_ERR_CONNECT | TLS_MQTT_ERR_UNIT_STATE | MQTT_REFUSED_PROTOCOL_VERSION
  | MQTT_REFUSED_IDENTIFIER | MQTT_REFUSED_SERVER | MQTT_REFUSED_USERNAME_PASS
  | MQTT_REFUSED_NOT_AUTHORIZED | MQTT_DISCONNECTED | MQTT_TIMEOUT | TOPIC_ERR_MQTT_UNDEFINED
  | TOPIC_ERR_MQTT_EXCEDEED_LENGTH | TOPIC_ERR_MQTT_NO_ZERO_TERM | TLS_MQTT_PUBLISH_ERR
  | TLS_MQTT_RECONF_CERTS | TLS_MQTT_RECONF_CLIENT

text \<open>The enumerators in order; the position is the value.\<close>

definition tls_mqtt_rets :: "TLS_MQTT_RET list" where
  "tls_mqtt_rets =
    [TLS_MQTT_OK, TLS_MQTT_ERR_ALLOC, TLS_MQTT_ERR_DNS, TLS_MQTT_ERR_CERTS,
     TLS_MQTT_ERR_CONNECT, TLS_MQTT_ERR_UNIT_STATE, MQTT_REFUSED_PROTOCOL_VERSION,
     MQTT_REFUSED_IDENTIFIER, MQTT_REFUSED_SERVER, MQTT_REFUSED_USERNAME_PASS,
     MQTT_REFUSED_NOT_AUTHORIZED, MQTT_DISCONNECTED, MQTT_TIMEOUT, TOPIC_ERR_MQTT_UNDEFINED,
     TOPIC_ERR_MQTT_EXCEDEED_LENGTH, TOPIC_ERR_MQTT_NO_ZERO_TERM, TLS_MQTT_PUBLISH_ERR,
     TLS_MQTT_RECONF_CERTS, TLS_MQTT_RECONF_CLIENT]"

fun ret_index :: "TLS_MQTT_RET list \<Rightarrow> TLS_MQTT_RET \<Rightarrow> nat" where
  "ret_index [] r = 0"
| "ret_index (x # xs) r = (if x = r then 0 else Suc (ret_index xs r))"

definition tls_mqtt_error_messages :: "string list" where
  "tls_mqtt_error_messages =
    [''Success'',
     ''Error allocating dynamic memory'',
     ''Error retrieving server's IP during DNS lookup'',
     ''Error parsing certificates'',
     ''Error establishing connection'',
     ''Error uninitialized state'',
     ''Connection refused: wrong protocol version'',
     ''Connection refused: wrong ID'',
     ''Connection refused: server'',
     ''Connection refused: wrong credentials'',
     ''Connection refused: not authorized'',
     ''Disconnected - common error'',
     ''Disconnected - timeout'',
     ''Subscription topic is undefined'',
     ''Message from the broker exceeded buffer length'',
     ''Null terminator is absent'',
     ''Error publishing message'',
     ''Certs should be reconfigured'',
     ''Client information should be reconfigured'']"

definition tls_mqtt_strerr :: "TLS_MQTT_RET \<Rightarrow> string ub" where
  "tls_mqtt_strerr status =
    (let i = ret_index tls_mqtt_rets status in
     if i < length tls_mqtt_error_messages then Inr (tls_mqtt_error_messages ! i) else Inl Out_Of_Bounds)"

subsection \<open>Topics and the client object\<close>

definition topics :: "bytes list" where
  "topics = [char_array 116 (PICO_HOSTNAME @ ''/control/water''),
             char_array 116 (PICO_HOSTNAME @ ''/control/light'')]"

definition TLS_MQTT_NUMBER_OF_TOPICS :: nat where
  "TLS_MQTT_NUMBER_OF_TOPICS = length topics"

definition QOS :: u8 where "QOS = 1"

record TopicState =
  topic_buffer :: bytes
  topic_number :: u8
  topic_name :: bytes
  topic_buffer_length :: u32
  is_subscribed :: bool
  data_in :: u32

definition topics_sessions :: "TopicState list" where
  "topics_sessions =
    [\<lparr> topic_buffer = replicate 128 0, topic_number = 0, topic_name = topics ! 0,
       topic_buffer_length = 0, is_subscribed = False, data_in = 0 \<rparr>,
     \<lparr> topic_buffer = replicate 128 0, topic_number = 1, topic_name = topics ! 1,
       topic_buffer_length = 0, is_subscribed = False, data_in = 0 \<rparr>]"

text \<open>What \<open>free\<close> may be given: null, a static object, or an address from \<open>malloc\<close>.\<close>

type_synonym addr = nat

datatype ptr = Null | Static | Heap addr

record MQTTMessage =
  m_topic :: "addr option"
  m_payload :: "addr option"
  m_payload_length :: u16

text \<open>The members of lwIP's \<open>mqtt_connect_client_info_t\<close> that the client sets. The three
  strings are members of the settings object.\<close>

record connect_info =
  client_id :: bytes
  client_user :: "bytes option"
  client_pass :: "bytes option"
  keep_alive :: u16
  will_topic :: "bytes option"
  will_msg :: "bytes option"
  will_retain :: u8
  will_qos :: u8

record MQTT_CLIENT_T =
  ci :: "addr option"
  remote_addr :: u32
  mqtt_client :: "nat option"
  topics_states :: "TopicState list"
  err_state :: TLS_MQTT_RET
  is_connected :: bool
  topic_incom_data :: int
  settings_ptr :: ptr
  settings :: tls_mqtt_settings   \<comment> \<open>the object behind the pointer\<close>

datatype mqtt_call =
    Arch_Begin
  | Arch_End
  | Mqtt_Sub_Unsub bytes u8 bool
  | Mqtt_Publish bytes bytes u16 u8 u8 addr
  | Mqtt_Client_Connect u32 u16 "addr option"
  | Mqtt_Set_Inpub_Callback
  | Mqtt_Is_Connected
  | Mqtt_Disconnect
  | Mqtt_Client_Free
  | Dns_Gethostbyname bytes
  | Tls_Free_Config "nat option"            \<comment> \<open>in the build with \<open>ENABLE_TLS\<close>\<close>
  | Tls_Create_Config nat nat nat nat       \<comment> \<open>lengths of the four buffers\<close>

subsection \<open>The heap\<close>

datatype cell = Raw bytes | Message MQTTMessage | Connect_Info connect_info | Client_Block

record heap =
  cells :: "addr \<rightharpoonup> cell"
  brk :: addr

definition malloc :: "bool \<Rightarrow> cell \<Rightarrow> heap \<Rightarrow> addr option \<times> heap" where
  "malloc ok c h =
    (if ok then (Some (brk h), h\<lparr>cells := (cells h)(brk h \<mapsto> c), brk := brk h + 1\<rparr>) else (None, h))"

fun free :: "ptr \<Rightarrow> heap \<Rightarrow> heap ub" where
  "free Null h = Inr h"
| "free Static h = Inl Invalid_Free"
| "free (Heap a) h = (if cells h a = None then Inl Invalid_Free else Inr (h\<lparr>cells := (cells h)(a := None)\<rparr>))"

definition store :: "addr \<Rightarrow> cell \<Rightarrow> heap \<Rightarrow> heap" where
  "store a c h = h\<lparr>cells := (cells h)(a \<mapsto> c)\<rparr>"

fun ptr_of :: "addr option \<Rightarrow> ptr" where
  "ptr_of None = Null"
| "ptr_of (Some a) = Heap a"

subsection \<open>Subscribing\<close>

text \<open>The status of each request is only logged.\<close>

fun sub_unsub_loop :: "bool \<Rightarrow> TopicState list \<Rightarrow> mqtt_call list" where
  "sub_unsub_loop sub [] = []"
| "sub_unsub_loop sub (s # ss) =
    (if sub \<noteq> is_subscribed s
     then [Arch_Begin, Mqtt_Sub_Unsub (topic_name s) QOS sub, Arch_End] else [])
    @ sub_unsub_loop sub ss"

definition tls_mqtt_sub_unsub_topics :: "MQTT_CLIENT_T \<Rightarrow> bool \<Rightarrow> mqtt_call list" where
  "tls_mqtt_sub_unsub_topics client sub =
     sub_unsub_loop sub (take TLS_MQTT_NUMBER_OF_TOPICS (topics_states client))"

text \<open>\<open>arg\<close> is the session the request was made for; \<open>static_ok\<close> says that the static client
  pointer is set.\<close>

definition tls_mqtt_subscribe_request_cb ::
  "bool \<Rightarrow> TopicState \<Rightarrow> err_t \<Rightarrow> (TopicState \<times> mqtt_call list) ub" where
  "tls_mqtt_subscribe_request_cb static_ok session err =
    (if err = ERR_OK then Inr (session\<lparr>is_subscribed := \<not> is_subscribed session\<rparr>, [])
     else if \<not> static_ok then Inl Null_Deref
     else Inr (session, [Mqtt_Sub_Unsub (topic_name session) QOS (\<not> is_subscribed session)]))"

subsection \<open>Connecting\<close>

text \<open>\<open>strtoul(s, NULL, 10)\<close>: white space, an optional sign, digits; the value saturates at
  the largest \<open>unsigned long\<close>.\<close>

definition is_space :: "u8 \<Rightarrow> bool" where
  "is_space b \<longleftrightarrow> b = 32 \<or> (9 \<le> b \<and> b \<le> 13)"

definition is_digit :: "u8 \<Rightarrow> bool" where
  "is_digit b \<longleftrightarrow> 48 \<le> b \<and> b \<le> 57"

definition digits_value :: "bytes \<Rightarrow> nat" where
  "digits_value ds = foldl (\<lambda>acc d. 10 * acc + (unat d - 48)) 0 ds"

definition strtoul10 :: "bytes \<Rightarrow> u32" where
  "strtoul10 s =
    (let s1 = dropWhile is_space s;
         neg = (s1 \<noteq> [] \<and> hd s1 = 45);
         s2 = (if s1 \<noteq> [] \<and> (hd s1 = 43 \<or> hd s1 = 45) then tl s1 else s1);
         v = digits_value (takeWhile is_digit s2)
     in if v > 4294967295 then 0xffffffff else if neg then - of_nat v else of_nat v)"

text \<open>\<open>err\<close>: what \<open>mqtt_client_connect\<close> returns. The port parameter of that function has 16
  bits.\<close>

definition tls_mqtt_connect :: "err_t \<Rightarrow> MQTT_CLIENT_T \<Rightarrow> (err_t \<times> MQTT_CLIENT_T \<times> mqtt_call list) ub" where
  "tls_mqtt_connect err state =
    (if settings_ptr state = Null then Inl Null_Deref
     else bindE (c_str (tls_mqtt_broker_port (settings state))) (\<lambda>s.
       (let port = ucast (strtoul10 s);
            cs = [Arch_Begin, Mqtt_Client_Connect (remote_addr state) port (ci state), Arch_End]
        in if err \<noteq> ERR_OK then Inr (err, state, cs)
           else Inr (err, state\<lparr>err_state := TLS_MQTT_OK\<rparr>,
                     cs @ [Arch_Begin, Mqtt_Set_Inpub_Callback, Arch_End]))))"

datatype mqtt_connection_status_t =
    MQTT_CONNECT_ACCEPTED | MQTT_CONNECT_REFUSED nat | MQTT_CONNECT_DISCONNECTED | MQTT_CONNECT_TIMEOUT

definition tls_mqtt_connection_cb ::
  "err_t \<Rightarrow> mqtt_connection_status_t \<Rightarrow> MQTT_CLIENT_T \<Rightarrow> (MQTT_CLIENT_T \<times> mqtt_call list) ub" where
  "tls_mqtt_connection_cb err status state =
    (case status of
       MQTT_CONNECT_ACCEPTED \<Rightarrow>
         (let state' = state\<lparr>is_connected := True\<rparr> in Inr (state', tls_mqtt_sub_unsub_topics state' True))
     | MQTT_CONNECT_DISCONNECTED \<Rightarrow>
         bindE (tls_mqtt_connect err (state\<lparr>is_connected := False\<rparr>)) (\<lambda>(_, state', cs). Inr (state', cs))
     | MQTT_CONNECT_TIMEOUT \<Rightarrow>
         bindE (tls_mqtt_connect err (state\<lparr>is_connected := False\<rparr>)) (\<lambda>(_, state', cs). Inr (state', cs))
     | MQTT_CONNECT_REFUSED _ \<Rightarrow> Inr (state\<lparr>is_connected := False\<rparr>, []))"

subsection \<open>Incoming messages\<close>

text \<open>\<open>topic\<close> is the terminated string lwIP passes. The loop leaves the index of the first
  session with that name.\<close>

fun find_session :: "TopicState list \<Rightarrow> bytes \<Rightarrow> nat \<Rightarrow> nat option ub" where
  "find_session [] topic i = Inr None"
| "find_session (s # ss) topic i =
    bindE (strcmp_eq (topic_name s) topic) (\<lambda>same.
      if same then Inr (Some i) else find_session ss topic (i + 1))"

definition tls_mqtt_incoming_publish_cb :: "bytes \<Rightarrow> u32 \<Rightarrow> MQTT_CLIENT_T \<Rightarrow> MQTT_CLIENT_T ub" where
  "tls_mqtt_incoming_publish_cb topic tot_len state =
    (let st0 = state\<lparr>topic_incom_data := int TLS_MQTT_NUMBER_OF_TOPICS\<rparr> in
     bindE (find_session (take TLS_MQTT_NUMBER_OF_TOPICS (topics_states st0)) topic 0) (\<lambda>r.
       case r of
         None \<Rightarrow> Inr (st0\<lparr>err_state := TOPIC_ERR_MQTT_UNDEFINED\<rparr>)
       | Some i \<Rightarrow>
          (let st1 = st0\<lparr>topic_incom_data := int i, err_state := TLS_MQTT_OK\<rparr>;
               session = (topics_states st1 ! i)\<lparr>topic_buffer_length := 0, data_in := 0\<rparr>
           in if tot_len > of_nat (length (topic_buffer session)) - 1
              then Inr (st1\<lparr>topics_states := (topics_states st1)[i := session],
                            err_state := TOPIC_ERR_MQTT_EXCEDEED_LENGTH\<rparr>)
              else Inr (st1\<lparr>topics_states := (topics_states st1)[i := session\<lparr>data_in := tot_len\<rparr>],
                            err_state := TLS_MQTT_OK\<rparr>))))"

definition MQTT_DATA_FLAG_LAST :: u8 where "MQTT_DATA_FLAG_LAST = 1"

type_synonym 's data_handler_fn = "u8 \<Rightarrow> bytes \<Rightarrow> u32 \<Rightarrow> 's \<Rightarrow> 's ub"

text \<open>The copy of one portion into the session's buffer, with the terminator after it.\<close>

definition append_portion :: "bytes \<Rightarrow> u16 \<Rightarrow> TopicState \<Rightarrow> TopicState ub" where
  "append_portion data len session =
    (let n = ucast len in
     bindE (memcpy (topic_buffer session) (unat (topic_buffer_length session)) data (unat len)) (\<lambda>buf.
     bindE (buf_put buf (unat (topic_buffer_length session + n)) 0) (\<lambda>buf'.
       Inr (session\<lparr>data_in := data_in session - n, topic_buffer := buf',
                    topic_buffer_length := topic_buffer_length session + n\<rparr>))))"

text \<open>In the \<open>TLS_MQTT_OK\<close> case the session pointer is used; it is only set when the topic
  number is one of the topics.\<close>

definition tls_mqtt_incoming_data_cb ::
  "'s data_handler_fn \<Rightarrow> bytes \<Rightarrow> u16 \<Rightarrow> u8 \<Rightarrow> 's \<times> MQTT_CLIENT_T \<Rightarrow> ('s \<times> MQTT_CLIENT_T) ub" where
  "tls_mqtt_incoming_data_cb pass_incom_data data len flags = (\<lambda>(app, state).
    (case err_state state of
       TLS_MQTT_OK \<Rightarrow>
         if \<not> topic_incom_data state < int TLS_MQTT_NUMBER_OF_TOPICS then Inl Uninitialised
         else if topic_incom_data state < 0 then Inl Out_Of_Bounds
         else (let i = nat (topic_incom_data state); session = topics_states state ! i in
           if data_in session > 0
           then bindE (append_portion data len session) (\<lambda>s1.
             if data_in s1 = 0
             then bindE (if flags AND MQTT_DATA_FLAG_LAST \<noteq> 0
                         then pass_incom_data (topic_number s1) (topic_buffer s1) (topic_buffer_length s1) app
                         else Inr app) (\<lambda>app'.
               bindE (buf_put (topic_buffer s1) 0 0) (\<lambda>buf.
                 Inr (app', state\<lparr>topics_states := (topics_states state)[i :=
                        s1\<lparr>topic_buffer_length := 0, topic_buffer := buf\<rparr>]\<rparr>)))
             else Inr (app, state\<lparr>topics_states := (topics_states state)[i := s1]\<rparr>))
           else Inr (app, state))
     | _ \<Rightarrow> Inr (app, state)))"

subsection \<open>Publishing\<close>

definition clean_message :: "addr option \<Rightarrow> heap \<Rightarrow> heap ub" where
  "clean_message message h =
    (case message of
       None \<Rightarrow> Inr h
     | Some a \<Rightarrow>
        (case cells h a of
           Some (Message m) \<Rightarrow>
             bindE (free (ptr_of (m_topic m)) h) (\<lambda>h1.
             bindE (free (ptr_of (m_payload m)) h1) (\<lambda>h2.
               free (Heap a) h2))
         | _ \<Rightarrow> Inl Invalid_Free))"

definition tls_mqtt_pub_request_cb :: "addr option \<Rightarrow> err_t \<Rightarrow> heap \<Rightarrow> heap ub" where
  "tls_mqtt_pub_request_cb arg err h = clean_message arg h"

text \<open>\<open>ok1\<close> to \<open>ok3\<close>: the three allocations succeed; \<open>pub_err\<close>: what \<open>mqtt_publish\<close> returns.
  Null strings are \<open>None\<close>.\<close>

definition tls_mqtt_publish ::
  "bool \<times> bool \<times> bool \<Rightarrow> err_t \<Rightarrow> MQTT_CLIENT_T \<Rightarrow> bytes option \<Rightarrow> bytes option \<Rightarrow> u16 \<Rightarrow> u8 \<Rightarrow> heap \<Rightarrow>
     (err_t \<times> mqtt_call list \<times> heap) ub" where
  "tls_mqtt_publish = (\<lambda>(ok1, ok2, ok3) pub_err client topic payload payload_size qos h.
    if \<not> is_connected client then Inr (ERR_OK, [], h)
    else case (topic, payload) of
      (Some tp, Some pl) \<Rightarrow>
        if payload_size = 0 then Inr (ERR_OK, [], h)
        else (let m0 = \<lparr> m_topic = None, m_payload = None, m_payload_length = 0 \<rparr>;
                  (r1, h1) = malloc ok1 (Message m0) h in
          case r1 of None \<Rightarrow> Inr (ERR_MEM, [], h1)
          | Some a \<Rightarrow>
            bindE (c_str tp) (\<lambda>s.
            (let size = (of_nat (length s) :: u16);
                 (r2, h2) = malloc ok2 (Raw (replicate (unat size + 1) 0)) h1 in
             case r2 of None \<Rightarrow> bindE (clean_message (Some a) h2) (\<lambda>h3. Inr (ERR_MEM, [], h3))
             | Some t \<Rightarrow>
               bindE (memcpy (replicate (unat size + 1) 0) 0 (s @ [0]) (length s + 1)) (\<lambda>tbuf.
               bindE (buf_put tbuf (unat size) 0) (\<lambda>tbuf'.
               (let m1 = m0\<lparr>m_topic := Some t\<rparr>;
                    h3 = store a (Message m1) (store t (Raw tbuf') h2);
                    (r3, h4) = malloc ok3 (Raw (replicate (unat payload_size) 0)) h3 in
                case r3 of None \<Rightarrow> bindE (clean_message (Some a) h4) (\<lambda>h5. Inr (ERR_MEM, [], h5))
                | Some p \<Rightarrow>
                  bindE (memcpy (replicate (unat payload_size) 0) 0 pl (unat payload_size)) (\<lambda>pbuf.
                  (let m2 = m1\<lparr>m_payload := Some p, m_payload_length := payload_size\<rparr>;
                       h5 = store a (Message m2) (store p (Raw pbuf) h4)
                   in Inr (pub_err,
                           [Arch_Begin, Mqtt_Publish tbuf' pbuf payload_size qos 0 a, Arch_End], h5)))))))))
    | _ \<Rightarrow> Inr (ERR_OK, [], h))"

subsection \<open>Set-up and clean-up\<close>

definition tls_mqtt_reconfigure_client ::
  "bool \<Rightarrow> MQTT_CLIENT_T \<Rightarrow> heap \<Rightarrow> (TLS_MQTT_RET \<times> MQTT_CLIENT_T \<times> heap) ub" where
  "tls_mqtt_reconfigure_client ok state h =
    bindE (free (ptr_of (ci state)) h) (\<lambda>h1.
      (let s = settings state;
           info = \<lparr> client_id = tls_mqtt_client_id s,
             client_user = (if tls_mqtt_client_name s ! 0 = 0 then None else Some (tls_mqtt_client_name s)),
             client_pass = (if tls_mqtt_client_password s ! 0 = 0 then None else Some (tls_mqtt_client_password s)),
             keep_alive = 300, will_topic = None, will_msg = None, will_retain = 0, will_qos = 0 \<rparr>;
           (r, h2) = malloc ok (Connect_Info info) h1
       in case r of
            None \<Rightarrow> Inr (TLS_MQTT_ERR_ALLOC, state, h2)
          | Some a \<Rightarrow> Inr (TLS_MQTT_OK, state\<lparr>ci := Some a\<rparr>, h2)))"

definition clean_session :: "TopicState \<Rightarrow> TopicState ub" where
  "clean_session s = bindE (buf_put (topic_buffer s) 0 0) (\<lambda>buf.
     Inr (s\<lparr>topic_buffer := buf, is_subscribed := False, topic_buffer_length := 0, data_in := 0\<rparr>))"

fun clean_sessions :: "TopicState list \<Rightarrow> TopicState list ub" where
  "clean_sessions [] = Inr []"
| "clean_sessions (s # ss) =
    bindE (clean_session s) (\<lambda>s'. bindE (clean_sessions ss) (\<lambda>ss'. Inr (s' # ss')))"

text \<open>\<open>self\<close> is the block of the client object. The result is the static array afterwards; the
  pointers to the client are null from then on.\<close>

definition tls_mqtt_clean ::
  "addr \<Rightarrow> MQTT_CLIENT_T \<Rightarrow> heap \<Rightarrow> (TopicState list \<times> mqtt_call list \<times> heap) ub" where
  "tls_mqtt_clean self client h =
    bindE (clean_sessions (topics_states client)) (\<lambda>ts.
    bindE (free (settings_ptr client) h) (\<lambda>h1.
    bindE (free (ptr_of (ci client)) h1) (\<lambda>h2.
    bindE (free (Heap self) h2) (\<lambda>h3.
      Inr (ts, [Arch_Begin, Mqtt_Client_Free, Arch_End], h3)))))"

text \<open>\<open>connected\<close>: what lwIP says of the connection.\<close>

definition tls_mqtt_deinit ::
  "bool \<Rightarrow> (addr \<times> MQTT_CLIENT_T) option \<Rightarrow> heap \<Rightarrow>
     ((TopicState list) option \<times> mqtt_call list \<times> heap) ub" where
  "tls_mqtt_deinit connected client_ptr h =
    (case client_ptr of
       None \<Rightarrow> Inr (None, [], h)
     | Some (self, client) \<Rightarrow>
        bindE (tls_mqtt_clean self client h) (\<lambda>(ts, cs, h').
          Inr (Some ts,
               [Arch_Begin, Mqtt_Is_Connected, Arch_End] @
               (if connected then tls_mqtt_sub_unsub_topics client False else []) @
               [Arch_Begin, Mqtt_Disconnect, Arch_End] @ cs, h')))"

subsection \<open>Name lookup and initialisation\<close>

definition dns_found_cb :: "u32 option \<Rightarrow> MQTT_CLIENT_T \<Rightarrow> MQTT_CLIENT_T" where
  "dns_found_cb ipaddr state =
    (case ipaddr of
       None \<Rightarrow> state\<lparr>err_state := TLS_MQTT_ERR_DNS\<rparr>
     | Some a \<Rightarrow> state\<lparr>remote_addr := a, err_state := TLS_MQTT_OK\<rparr>)"

text \<open>The waiting loop. The list says, for each round, whether the library calls back and with
  what; a result of \<open>None\<close> means that the loop is still waiting when the list ends.\<close>

definition dns_waiting :: "MQTT_CLIENT_T \<Rightarrow> bool" where
  "dns_waiting state \<longleftrightarrow> remote_addr state = 0 \<and> err_state state \<noteq> TLS_MQTT_ERR_DNS"

fun dns_wait :: "u32 option option list \<Rightarrow> MQTT_CLIENT_T \<Rightarrow> MQTT_CLIENT_T option" where
  "dns_wait [] state = (if dns_waiting state then None else Some state)"
| "dns_wait (e # es) state =
    (if dns_waiting state
     then dns_wait es (case e of None \<Rightarrow> state | Some a \<Rightarrow> dns_found_cb a state)
     else Some state)"

text \<open>\<open>immediate\<close> is the address \<open>dns_gethostbyname\<close> stores when it returns \<open>ERR_OK\<close>. The
  status itself is only logged.\<close>

definition run_dns_lookup ::
  "err_t \<times> u32 \<Rightarrow> u32 option option list \<Rightarrow> MQTT_CLIENT_T \<Rightarrow> bytes \<Rightarrow> MQTT_CLIENT_T option \<times> mqtt_call list" where
  "run_dns_lookup = (\<lambda>(err, immediate) events state host.
    (let state1 = (if err = ERR_OK then state\<lparr>remote_addr := immediate\<rparr> else state)
     in (dns_wait events state1, [Arch_Begin, Dns_Gethostbyname host, Arch_End])))"

record init_env =
  ok_client :: bool
  new_client :: "nat option"
  gethost :: "err_t \<times> u32"
  dns_events :: "u32 option option list"
  ok_ci :: bool

record init_result =
  i_ret :: TLS_MQTT_RET
  i_client :: "(addr \<times> MQTT_CLIENT_T) option"
  i_static :: "addr option"
  i_sessions :: "TopicState list"
  i_calls :: "mqtt_call list"
  i_heap :: heap

text \<open>The early returns of the initialisation: clean up, report the status, leave the
  caller's pointer alone.\<close>

definition init_fail ::
  "TLS_MQTT_RET \<Rightarrow> addr \<Rightarrow> MQTT_CLIENT_T \<Rightarrow> mqtt_call list \<Rightarrow> heap \<Rightarrow> init_result ub" where
  "init_fail ret self client cs h =
    bindE (tls_mqtt_clean self client h) (\<lambda>(ts, cs', h').
      Inr \<lparr> i_ret = ret, i_client = None, i_static = None, i_sessions = ts, i_calls = cs @ cs', i_heap = h' \<rparr>)"

text \<open>The result is \<open>Inr None\<close> while the name lookup has not come back.\<close>

definition tls_mqtt_init ::
  "init_env \<Rightarrow> ptr \<Rightarrow> tls_mqtt_settings \<Rightarrow> addr option \<Rightarrow> TopicState list \<Rightarrow> heap \<Rightarrow> init_result option ub" where
  "tls_mqtt_init env sp s static ts h =
    (let (r, h1) = malloc (ok_client env) Client_Block h in
     case r of
       None \<Rightarrow> Inr (Some \<lparr> i_ret = TLS_MQTT_ERR_ALLOC, i_client = None, i_static = static,
                          i_sessions = ts, i_calls = [], i_heap = h1 \<rparr>)
     | Some self \<Rightarrow>
        (let client = \<lparr> ci = None, remote_addr = 0, mqtt_client = new_client env, topics_states = ts,
                        err_state = TLS_MQTT_OK, is_connected = False,
                        topic_incom_data = int TLS_MQTT_NUMBER_OF_TOPICS,
                        settings_ptr = sp, settings = s \<rparr>
         in if mqtt_client client = None
            then bindE (init_fail TLS_MQTT_ERR_ALLOC self client [] h1) (\<lambda>x. Inr (Some x))
            else (let (w, cs) = run_dns_lookup (gethost env) (dns_events env) client (tls_mqtt_broker_hostname s) in
              case w of
                None \<Rightarrow> Inr None
              | Some client1 \<Rightarrow>
                 if err_state client1 \<noteq> TLS_MQTT_OK
                 then bindE (init_fail (err_state client1) self client1 cs h1) (\<lambda>x. Inr (Some x))
                 else bindE (tls_mqtt_reconfigure_client (ok_ci env) client1 h1) (\<lambda>(ret, client2, h2).
                   if ret \<noteq> TLS_MQTT_OK
                   then bindE (init_fail ret self (client2\<lparr>err_state := ret\<rparr>) cs h2) (\<lambda>x. Inr (Some x))
                   else Inr (Some \<lparr> i_ret = TLS_MQTT_OK, i_client = Some (self, client2), i_static = Some self,
                                   i_sessions = topics_states client2, i_calls = cs, i_heap = h2 \<rparr>)))))"

end
