(* ===== verification/Mqtt_Correct.thy ===== *)
theory Mqtt_Correct
  imports Mqtt_Client
begin

text \<open>
  Correctness of the MQTT client: reassembly of incoming messages, ownership of the memory of
  outgoing ones, subscriptions across reconnects, the name lookup and the port number.
\<close>

section \<open>Well-formed state\<close>

definition session_ok :: "TopicState \<Rightarrow> bool" where
  "session_ok s \<longleftrightarrow> length (topic_buffer s) = 128 \<and>
     unat (topic_buffer_length s) + unat (data_in s) \<le> 127"

text \<open>The names, as strings.\<close>

definition topic_strings :: "bytes list" where
  "topic_strings = map chars [PICO_HOSTNAME @ ''/control/water'', PICO_HOSTNAME @ ''/control/light'']"

definition mqtt_wf :: "MQTT_CLIENT_T \<Rightarrow> bool" where
  "mqtt_wf st \<longleftrightarrow> length (topics_states st) = 2 \<and>
     (\<forall>i < 2. session_ok (topics_states st ! i) \<and> topic_name (topics_states st ! i) = topics ! i \<and>
        topic_number (topics_states st ! i) = of_nat i)"

lemma number_of_topics [simp]: "TLS_MQTT_NUMBER_OF_TOPICS = 2"
  by (simp add: TLS_MQTT_NUMBER_OF_TOPICS_def topics_def)

lemma less_2: "i < 2 \<longleftrightarrow> i = 0 \<or> i = Suc 0" for i :: nat
  by auto

lemma topics_str: "i < 2 \<Longrightarrow> topics ! i = topic_strings ! i @ replicate (116 - length (topic_strings ! i)) 0"
  by (auto simp: less_2 topics_def topic_strings_def char_array_def PICO_HOSTNAME_def)

lemma topic_strings_ok: "i < 2 \<Longrightarrow> 0 \<notin> set (topic_strings ! i) \<and> length (topic_strings ! i) < 116"
  by (auto simp: less_2 topic_strings_def zero_in_chars PICO_HOSTNAME_def)

lemma strcmp_topic:
  assumes "i < 2" and "0 \<notin> set t"
  shows "strcmp_eq (topics ! i) (t @ [0]) = Inr (topic_strings ! i = t)"
proof -
  obtain k where "116 - length (topic_strings ! i) = Suc k"
    using topic_strings_ok [OF assms(1)] by (metis Suc_diff_Suc)
  then have "topics ! i = topic_strings ! i @ 0 # replicate k 0"
    using topics_str [OF assms(1)] by simp
  then show ?thesis using assms topic_strings_ok [OF assms(1)] by (simp add: strcmp_eq_def)
qed

lemma distinct_topic_strings: "distinct topic_strings"
  by (simp add: topic_strings_def chars_inj PICO_HOSTNAME_def)

lemma find_session_wf:
  assumes wf: "mqtt_wf st" and t: "0 \<notin> set t"
  shows "find_session (take 2 (topics_states st)) (t @ [0]) 0 =
    Inr (if t = topic_strings ! 0 then Some 0 else if t = topic_strings ! 1 then Some 1 else None)"
proof -
  obtain s0 s1 where s: "topics_states st = [s0, s1]"
    using wf by (auto simp: mqtt_wf_def length_Suc_conv numeral_2_eq_2)
  have "topic_name s0 = topics ! 0" "topic_name s1 = topics ! 1"
    using wf s unfolding mqtt_wf_def by (metis nth_Cons_0 zero_less_numeral, metis One_nat_def nth_Cons_0 nth_Cons_Suc one_less_numeral_iff semiring_norm(76))
  then show ?thesis using s strcmp_topic [OF _ t, of 0] strcmp_topic [OF _ t, of 1] by auto
qed

section \<open>Incoming messages\<close>

lemma publish_cb_known:
  assumes wf: "mqtt_wf st" and i: "i < 2"
  shows "\<exists>st'. tls_mqtt_incoming_publish_cb (topic_strings ! i @ [0]) n st = Inr st' \<and> mqtt_wf st' \<and>
    topic_incom_data st' = int i \<and>
    (if n \<le> 127 then err_state st' = TLS_MQTT_OK \<and> data_in (topics_states st' ! i) = n \<and>
        topic_buffer_length (topics_states st' ! i) = 0
     else err_state st' = TOPIC_ERR_MQTT_EXCEDEED_LENGTH)"
proof -
  let ?s = "topics_states st ! i"
  have f: "find_session (take 2 (topics_states st)) (topic_strings ! i @ [0]) 0 = Inr (Some i)"
    using find_session_wf [OF wf] topic_strings_ok [OF i] i distinct_topic_strings
    by (auto simp: less_2 topic_strings_def chars_inj PICO_HOSTNAME_def)
  have len: "length (topic_buffer ?s) = 128" "length (topics_states st) = 2"
    using wf i by (auto simp: mqtt_wf_def session_ok_def)
  have n: "unat n \<le> 127" if "n \<le> 127" using that by (simp add: word_le_nat_alt)
  have keep: "session_ok (?s\<lparr>topic_buffer_length := 0, data_in := m\<rparr>)" if "unat m \<le> 127" for m
    using that len by (simp add: session_ok_def)
  show ?thesis
    using f len wf n keep [of n] keep [of 0] i
    by (auto simp: tls_mqtt_incoming_publish_cb_def Let_def not_less mqtt_wf_def nth_list_update)
qed

lemma publish_cb_unknown:
  assumes wf: "mqtt_wf st" and t: "0 \<notin> set t" "t \<notin> set topic_strings"
  shows "tls_mqtt_incoming_publish_cb (t @ [0]) n st =
    Inr (st\<lparr>topic_incom_data := 2, err_state := TOPIC_ERR_MQTT_UNDEFINED\<rparr>)"
proof -
  have "t \<noteq> topic_strings ! 0" "t \<noteq> topic_strings ! 1" using t(2) by (auto simp: topic_strings_def)
  then have "find_session (take 2 (topics_states st)) (t @ [0]) 0 = Inr None"
    using find_session_wf [OF wf t(1)] by simp
  then show ?thesis by (simp add: tls_mqtt_incoming_publish_cb_def)
qed

text \<open>One portion, on a session that has received \<open>acc\<close> and expects \<open>d\<close> more bytes.\<close>

definition collecting :: "bytes \<Rightarrow> nat \<Rightarrow> TopicState \<Rightarrow> bool" where
  "collecting acc d s \<longleftrightarrow> length (topic_buffer s) = 128 \<and> topic_buffer_length s = of_nat (length acc) \<and>
     take (length acc) (topic_buffer s) = acc \<and> data_in s = of_nat d \<and> length acc + d \<le> 127"

lemma append_portion_ok:
  assumes c: "collecting acc d s" and len: "length x \<le> d"
  shows "\<exists>s'. append_portion x (of_nat (length x)) s = Inr s' \<and> collecting (acc @ x) (d - length x) s' \<and>
    topic_buffer s' ! length (acc @ x) = 0 \<and>
    topic_number s' = topic_number s \<and> topic_name s' = topic_name s \<and> is_subscribed s' = is_subscribed s"
proof -
  have b: "length acc + length x \<le> 127" "length (topic_buffer s) = 128" using c len by (auto simp: collecting_def)
  have u: "unat (of_nat (length x) :: u16) = length x" "ucast (of_nat (length x) :: u16) = (of_nat (length x) :: u32)"
    "unat (topic_buffer_length s) = length acc" "unat (topic_buffer_length s + of_nat (length x)) = length acc + length x"
    using c b by (simp_all add: collecting_def unat_of_nat unsigned_of_nat take_bit_nat_eq_self flip: of_nat_add)
  let ?b = "overlay (topic_buffer s) (length acc) x"
  have tk: "take (length acc + length x) ?b = acc @ x"
    using c b by (simp add: overlay_def collecting_def)
  have m: "memcpy (topic_buffer s) (length acc) x (length x) = Inr ?b"
    using b by (simp add: memcpy_def)
  have "append_portion x (of_nat (length x)) s = Inr (s\<lparr>data_in := data_in s - of_nat (length x),
      topic_buffer := ?b[length acc + length x := 0], topic_buffer_length := topic_buffer_length s + of_nat (length x)\<rparr>)"
    using m u b by (simp add: append_portion_def Let_def buf_put_def)
  then show ?thesis using c b len tk by (auto simp: collecting_def of_nat_diff)
qed

text \<open>What lwIP does with a message: the announcement, then the payload in non-empty portions,
  the last one flagged.\<close>

fun receive_portions :: "'s data_handler_fn \<Rightarrow> bytes list \<Rightarrow> 's \<times> MQTT_CLIENT_T \<Rightarrow> ('s \<times> MQTT_CLIENT_T) ub" where
  "receive_portions h [] x = Inr x"
| "receive_portions h [c] x = tls_mqtt_incoming_data_cb h c (of_nat (length c)) MQTT_DATA_FLAG_LAST x"
| "receive_portions h (c # cs) x =
    bindE (tls_mqtt_incoming_data_cb h c (of_nat (length c)) 0 x) (receive_portions h cs)"

definition mqtt_receive ::
  "'s data_handler_fn \<Rightarrow> bytes \<Rightarrow> bytes list \<Rightarrow> 's \<times> MQTT_CLIENT_T \<Rightarrow> ('s \<times> MQTT_CLIENT_T) ub" where
  "mqtt_receive h topic cs = (\<lambda>(app, st).
     bindE (tls_mqtt_incoming_publish_cb (topic @ [0]) (of_nat (length (concat cs))) st)
       (\<lambda>st'. receive_portions h cs (app, st')))"

lemma length_topic_strings: "length topic_strings = 2"
  by (simp add: topic_strings_def)

lemma of_nat_small: "0 < k \<Longrightarrow> k \<le> 127 \<Longrightarrow> (of_nat k :: u32) \<noteq> 0 \<and> 0 < (of_nat k :: u32)"
  by (auto simp: word_gt_0 word_of_nat_eq_0_iff dest: dvd_imp_le)

lemma collecting_session_ok: "collecting acc d s \<Longrightarrow> session_ok s"
  by (auto simp: collecting_def session_ok_def unat_of_nat)

lemma mqtt_wf_update:
  assumes "mqtt_wf st" and "i < 2" and "session_ok s" and "topic_name s = topics ! i" and "topic_number s = of_nat i"
  shows "mqtt_wf (st\<lparr>topics_states := (topics_states st)[i := s]\<rparr>)"
  using assms by (auto simp: mqtt_wf_def nth_list_update)

lemma data_cb_middle:
  assumes wf: "mqtt_wf st" and i: "i < 2" "topic_incom_data st = int i" "err_state st = TLS_MQTT_OK"
    and c: "collecting acc d (topics_states st ! i)" and len: "length x < d"
  shows "\<exists>st'. tls_mqtt_incoming_data_cb h x (of_nat (length x)) fl (app, st) = Inr (app, st') \<and> mqtt_wf st' \<and>
    topic_incom_data st' = int i \<and> err_state st' = TLS_MQTT_OK \<and>
    collecting (acc @ x) (d - length x) (topics_states st' ! i)"
proof -
  let ?s = "topics_states st ! i"
  obtain s' where s': "append_portion x (of_nat (length x)) ?s = Inr s'" "collecting (acc @ x) (d - length x) s'"
    "topic_number s' = topic_number ?s" "topic_name s' = topic_name ?s"
    using append_portion_ok [OF c, of x] len by auto
  have wi: "topic_name ?s = topics ! i" "topic_number ?s = of_nat i" "length (topics_states st) = 2"
    using wf i by (auto simp: mqtt_wf_def)
  have "d \<le> 127" "d - length x \<le> 127" "0 < d" "0 < d - length x"
    using c len unfolding collecting_def by linarith+
  then have "(0 :: u32) < of_nat d" "(of_nat (d - length x) :: u32) \<noteq> 0"
    using of_nat_small by blast+
  then have d: "data_in ?s > 0" "data_in s' \<noteq> 0"
    using c s'(2) unfolding collecting_def by metis+
  let ?st = "st\<lparr>topics_states := (topics_states st)[i := s']\<rparr>"
  have "tls_mqtt_incoming_data_cb h x (of_nat (length x)) fl (app, st) = Inr (app, ?st)"
    using i s'(1) d by (simp add: tls_mqtt_incoming_data_cb_def Let_def)
  moreover have "mqtt_wf ?st"
    using mqtt_wf_update [OF wf i(1) collecting_session_ok [OF s'(2)]] s' wi by simp
  ultimately show ?thesis using i s'(2) wi by auto
qed

lemma data_cb_last:
  assumes wf: "mqtt_wf st" and i: "i < 2" "topic_incom_data st = int i" "err_state st = TLS_MQTT_OK"
    and c: "collecting acc (length x) (topics_states st ! i)" and ne: "x \<noteq> []"
  shows "\<exists>buf st'. length buf = 128 \<and> take (length (acc @ x)) buf = acc @ x \<and> buf ! length (acc @ x) = 0 \<and> mqtt_wf st' \<and>
    is_connected st' = is_connected st \<and>
    tls_mqtt_incoming_data_cb h x (of_nat (length x)) MQTT_DATA_FLAG_LAST (app, st) =
      bindE (h (of_nat i) buf (of_nat (length (acc @ x))) app) (\<lambda>app'. Inr (app', st'))"
proof -
  let ?s = "topics_states st ! i"
  obtain s' where s': "append_portion x (of_nat (length x)) ?s = Inr s'" "collecting (acc @ x) 0 s'"
    "topic_buffer s' ! length (acc @ x) = 0" "topic_number s' = topic_number ?s" "topic_name s' = topic_name ?s"
    using append_portion_ok [OF c, of x] by auto
  have wi: "topic_name ?s = topics ! i" "topic_number ?s = of_nat i" "length (topics_states st) = 2"
    using wf i by (auto simp: mqtt_wf_def)
  have d: "data_in ?s > 0" "data_in s' = 0" "length (topic_buffer s') = 128"
    "topic_buffer_length s' = of_nat (length (acc @ x))" "take (length (acc @ x)) (topic_buffer s') = acc @ x"
    using c s'(2) ne by (auto simp: collecting_def word_gt_0 word_of_nat_eq_0_iff dest: dvd_imp_le)
  let ?st = "st\<lparr>topics_states := (topics_states st)[i := s'\<lparr>topic_buffer_length := 0, topic_buffer := (topic_buffer s')[0 := 0]\<rparr>]\<rparr>"
  have "tls_mqtt_incoming_data_cb h x (of_nat (length x)) MQTT_DATA_FLAG_LAST (app, st) =
      bindE (h (topic_number s') (topic_buffer s') (topic_buffer_length s') app) (\<lambda>app'. Inr (app', ?st))"
    using i s'(1) d by (simp add: tls_mqtt_incoming_data_cb_def Let_def MQTT_DATA_FLAG_LAST_def buf_put_def)
  moreover have "mqtt_wf ?st"
    using d wi s' by (intro mqtt_wf_update [OF wf i(1)]) (auto simp: session_ok_def)
  ultimately show ?thesis using d s' wi
    by (intro exI [of _ "topic_buffer s'"] exI [of _ ?st]) simp
qed

lemma receive_portions_ok:
  assumes "mqtt_wf st" and "i < 2" and "topic_incom_data st = int i" and "err_state st = TLS_MQTT_OK"
    and "collecting acc (length (concat cs)) (topics_states st ! i)" and "cs \<noteq> []" and "\<forall>c \<in> set cs. c \<noteq> []"
  shows "\<exists>buf st'. length buf = 128 \<and> take (length (acc @ concat cs)) buf = acc @ concat cs \<and>
    buf ! length (acc @ concat cs) = 0 \<and> mqtt_wf st' \<and>
    receive_portions h cs (app, st) =
      bindE (h (of_nat i) buf (of_nat (length (acc @ concat cs))) app) (\<lambda>app'. Inr (app', st'))"
  using assms
proof (induction cs arbitrary: st acc)
  case (Cons c cs)
  show ?case
  proof (cases "cs = []")
    case True
    then show ?thesis using data_cb_last [OF Cons.prems(1-4), of acc c h app] Cons.prems by auto
  next
    case False
    then have ne: "\<forall>c \<in> set cs. c \<noteq> []" "0 < length (concat cs)" "length c < length (concat (c # cs))"
      using Cons.prems(7) by (cases cs; auto)+
    obtain st' where st': "tls_mqtt_incoming_data_cb h c (of_nat (length c)) 0 (app, st) = Inr (app, st')" "mqtt_wf st'"
      "topic_incom_data st' = int i" "err_state st' = TLS_MQTT_OK"
      "collecting (acc @ c) (length (concat cs)) (topics_states st' ! i)"
      using data_cb_middle [OF Cons.prems(1-5) ne(3), of h 0 app] by auto
    have "receive_portions h (c # cs) (app, st) = receive_portions h cs (app, st')"
      using False st'(1) by (cases cs) auto
    then show ?thesis using Cons.IH [OF st'(2) Cons.prems(2) st'(3,4,5) False ne(1)] by simp
  qed
qed simp

text \<open>Portions are ignored in any error state, and when nothing is expected.\<close>

lemma receive_portions_error: "err_state st \<noteq> TLS_MQTT_OK \<Longrightarrow> receive_portions h cs (app, st) = Inr (app, st)"
proof (induction h cs "(app, st)" rule: receive_portions.induct)
  case (2 h c)
  then show ?case by (simp add: tls_mqtt_incoming_data_cb_def split: TLS_MQTT_RET.splits)
next
  case (3 h c v va)
  then have "tls_mqtt_incoming_data_cb h c (of_nat (length c)) 0 (app, st) = Inr (app, st)"
    by (simp add: tls_mqtt_incoming_data_cb_def split: TLS_MQTT_RET.splits)
  then show ?case using 3 by simp
qed simp

section \<open>Properties of the receive path\<close>

lemma mqtt_receive_known:
  assumes "mqtt_wf st" and "i < 2" and "\<forall>c \<in> set cs. c \<noteq> []" and "cs \<noteq> []" and "length (concat cs) \<le> 127"
  shows "\<exists>buf st'. mqtt_receive handler (topic_strings ! i) cs (app, st) =
      bindE (handler (of_nat i) buf (of_nat (length (concat cs))) app) (\<lambda>app'. Inr (app', st')) \<and>
    take (length (concat cs)) buf = concat cs \<and> buf ! length (concat cs) = 0 \<and> length buf = 128 \<and> mqtt_wf st'"
proof -
  have n: "(of_nat (length (concat cs)) :: u32) \<le> 127"
    using assms(5) by (simp add: word_le_nat_alt unat_of_nat)
  obtain st1 where st1: "tls_mqtt_incoming_publish_cb (topic_strings ! i @ [0]) (of_nat (length (concat cs))) st = Inr st1"
    "mqtt_wf st1" "topic_incom_data st1 = int i" "err_state st1 = TLS_MQTT_OK"
    "data_in (topics_states st1 ! i) = of_nat (length (concat cs))" "topic_buffer_length (topics_states st1 ! i) = 0"
    using publish_cb_known [OF assms(1,2), of "of_nat (length (concat cs))"] n by auto
  have "collecting [] (length (concat cs)) (topics_states st1 ! i)"
    using st1 assms(2,5) by (auto simp: collecting_def mqtt_wf_def session_ok_def)
  from receive_portions_ok [OF st1(2) assms(2) st1(3,4) this assms(4,3), of handler app] show ?thesis
    unfolding mqtt_receive_def using st1(1) by auto
qed

lemma mqtt_receive_other:
  assumes "mqtt_wf st" and "0 \<notin> set topic" and "length (concat cs) < 2 ^ 32"
    and "topic \<notin> set topic_strings \<or> 127 < length (concat cs) \<or> cs = [[]]"
  shows "\<exists>st'. mqtt_receive handler topic cs (app, st) = Inr (app, st') \<and> mqtt_wf st'"
proof (cases "topic \<in> set topic_strings")
  case False
  let ?st = "st\<lparr>topic_incom_data := 2, err_state := TOPIC_ERR_MQTT_UNDEFINED\<rparr>"
  have "mqtt_wf ?st" using assms(1) by (simp add: mqtt_wf_def)
  then show ?thesis using publish_cb_unknown [OF assms(1,2) False] receive_portions_error [of ?st handler cs app]
    by (auto simp: mqtt_receive_def)
next
  case True
  then obtain i where i: "i < 2" "topic = topic_strings ! i" 
    by (auto simp: in_set_conv_nth length_topic_strings)
  obtain st1 where st1: "tls_mqtt_incoming_publish_cb (topic @ [0]) (of_nat (length (concat cs))) st = Inr st1"
    "mqtt_wf st1" "topic_incom_data st1 = int i"
    "if (of_nat (length (concat cs)) :: u32) \<le> 127 then err_state st1 = TLS_MQTT_OK \<and> data_in (topics_states st1 ! i) = of_nat (length (concat cs))
     else err_state st1 = TOPIC_ERR_MQTT_EXCEDEED_LENGTH"
    using publish_cb_known [OF assms(1) i(1), of "of_nat (length (concat cs))"] i(2) by (auto split: if_splits)
  have le: "(of_nat (length (concat cs)) :: u32) \<le> 127 \<longleftrightarrow> length (concat cs) \<le> 127"
    using assms(3) by (simp add: word_le_nat_alt unat_of_nat)
  show ?thesis
  proof (cases "127 < length (concat cs)")
    case True
    then show ?thesis using st1 le receive_portions_error [of st1 handler cs app]
      by (auto simp: mqtt_receive_def)
  next
    case False
    then have "cs = [[]]" using assms(4) \<open>topic \<in> set topic_strings\<close> by simp
    then show ?thesis using st1 i
      by (auto simp: mqtt_receive_def tls_mqtt_incoming_data_cb_def Let_def)
  qed
qed

text \<open>Receiving changes the topic states and the status only.\<close>

definition same_link :: "MQTT_CLIENT_T \<Rightarrow> MQTT_CLIENT_T \<Rightarrow> bool" where
  "same_link st st' \<longleftrightarrow> is_connected st' = is_connected st \<and> settings st' = settings st \<and> settings_ptr st' = settings_ptr st"

lemma same_link_trans: "same_link a b \<Longrightarrow> same_link b c \<Longrightarrow> same_link a c"
  by (simp add: same_link_def)

lemma publish_cb_link: "tls_mqtt_incoming_publish_cb topic n st = Inr st' \<Longrightarrow> same_link st st'"
  by (auto simp: tls_mqtt_incoming_publish_cb_def Let_def same_link_def split: option.splits if_splits)

lemma data_cb_link:
  assumes "tls_mqtt_incoming_data_cb h x n fl (app, st) = Inr (app', st')"
  shows "same_link st st'"
proof (cases "err_state st = TLS_MQTT_OK")
  case True
  then show ?thesis using assms
    by (auto simp: tls_mqtt_incoming_data_cb_def Let_def same_link_def split: if_splits)
next
  case False
  then have "st' = st" using assms by (cases "err_state st") (simp_all add: tls_mqtt_incoming_data_cb_def)
  then show ?thesis by (simp add: same_link_def)
qed

lemma receive_portions_link: "receive_portions h cs (app, st) = Inr (app', st') \<Longrightarrow> same_link st st'"
proof (induction cs arbitrary: app st rule: induct_list012)
  case (3 x y zs)
  then obtain a1 st1 where "tls_mqtt_incoming_data_cb h x (of_nat (length x)) 0 (app, st) = Inr (a1, st1)"
    "receive_portions h (y # zs) (a1, st1) = Inr (app', st')" by auto
  then show ?case by (rule same_link_trans [OF data_cb_link 3(2)])
next
  case (2 x)
  then show ?case by (simp add: data_cb_link)
qed (simp add: same_link_def)

lemma mqtt_receive_link:
  assumes "mqtt_receive h topic cs (app, st) = Inr (app', st')"
  shows "same_link st st'"
proof -
  obtain st1 where "tls_mqtt_incoming_publish_cb (topic @ [0]) (of_nat (length (concat cs))) st = Inr st1"
    "receive_portions h cs (app, st1) = Inr (app', st')"
    using assms by (auto simp: mqtt_receive_def)
  then show ?thesis by (rule same_link_trans [OF publish_cb_link receive_portions_link])
qed

text \<open>C24: a message on one of the two control topics, of one to 127 bytes and in any number of portions,
  is reassembled and handed over exactly once, with its topic's number, its length and a
  terminator after its bytes; the client is ready for the next message.\<close>

theorem mqtt_message_delivered:
  assumes "mqtt_wf st" and "i < 2" and "\<forall>c \<in> set cs. c \<noteq> []" and "cs \<noteq> []" and "length (concat cs) \<le> 127"
  shows "\<exists>buf st'. mqtt_receive handler (topic_strings ! i) cs (app, st) =
      bindE (handler (of_nat i) buf (of_nat (length (concat cs))) app) (\<lambda>app'. Inr (app', st')) \<and>
    take (length (concat cs)) buf = concat cs \<and> buf ! length (concat cs) = 0 \<and> length buf = 128 \<and> mqtt_wf st'"
  using assms by (rule mqtt_receive_known)

text \<open>C25: a message on any other topic, one longer than 127 bytes, and an empty one leave the command
  handler alone, whatever the handler is, and the client well-formed.\<close>

theorem mqtt_message_dropped:
  assumes "mqtt_wf st" and "0 \<notin> set topic" and "length (concat cs) < 2 ^ 32"
    and "topic \<notin> set topic_strings \<or> 127 < length (concat cs) \<or> cs = [[]]"
  shows "\<exists>st'. mqtt_receive handler topic cs (app, st) = Inr (app, st') \<and> mqtt_wf st'"
  using assms by (rule mqtt_receive_other)

section \<open>Ownership of outgoing messages\<close>

text \<open>Addresses at or above the break are unused.\<close>

definition heap_wf :: "heap \<Rightarrow> bool" where
  "heap_wf h \<longleftrightarrow> (\<forall>a \<ge> brk h. cells h a = None)"

text \<open>An allocator as its clients see it: a fresh address or nothing, and a way back.\<close>

locale allocator =
  fixes wf :: "'h \<Rightarrow> bool"
    and live :: "'h \<Rightarrow> 'a \<Rightarrow> 'c option"
    and alloc :: "bool \<Rightarrow> 'c \<Rightarrow> 'h \<Rightarrow> 'a option \<times> 'h"
    and dealloc :: "'a \<Rightarrow> 'h \<Rightarrow> 'h ub"
  assumes alloc_none: "alloc False c h = (None, h)"
    and alloc_some: "wf h \<Longrightarrow> \<exists>a h'. alloc True c h = (Some a, h') \<and> wf h' \<and>
      live h a = None \<and> live h' = (live h)(a \<mapsto> c)"
    and dealloc_ok: "wf h \<Longrightarrow> live h a \<noteq> None \<Longrightarrow>
      \<exists>h'. dealloc a h = Inr h' \<and> wf h' \<and> live h' = (live h)(a := None)"
    and dealloc_bad: "live h a = None \<Longrightarrow> dealloc a h = Inl Invalid_Free"
begin

lemma alloc_free_restores:
  assumes "wf h"
  shows "\<exists>a h1 h2. alloc True c h = (Some a, h1) \<and> dealloc a h1 = Inr h2 \<and> live h2 = live h \<and> wf h2"
proof -
  obtain a h1 where a: "alloc True c h = (Some a, h1)" "wf h1" "live h a = None" "live h1 = (live h)(a \<mapsto> c)"
    using alloc_some [OF assms] by blast
  then obtain h2 where "dealloc a h1 = Inr h2" "wf h2" "live h2 = (live h1)(a := None)"
    using dealloc_ok [of h1 a] by auto
  then show ?thesis using a by (intro exI conjI) (auto simp: fun_upd_idem)
qed

lemma double_free:
  assumes "wf h" and "dealloc a h = Inr h1"
  shows "dealloc a h1 = Inl Invalid_Free"
proof (cases "live h a = None")
  case True
  then show ?thesis using dealloc_bad assms(2) by simp
next
  case False
  then have "live h1 a = None" using dealloc_ok [OF assms(1) False] assms(2) by auto
  then show ?thesis by (rule dealloc_bad)
qed

end

interpretation heap: allocator heap_wf cells malloc "\<lambda>a. free (Heap a)"
proof unfold_locales
  fix h :: heap and c :: cell
  assume "heap_wf h"
  then show "\<exists>a h'. malloc True c h = (Some a, h') \<and> heap_wf h' \<and> cells h a = None \<and> cells h' = (cells h)(a \<mapsto> c)"
    by (simp add: malloc_def heap_wf_def)
qed (auto simp: malloc_def heap_wf_def)

lemma heap_wf_store: "heap_wf h \<Longrightarrow> cells h a \<noteq> None \<Longrightarrow> heap_wf (store a c h)"
  by (auto simp: heap_wf_def store_def)

text \<open>Cleaning a message gives its blocks back.\<close>

lemma clean_message_ok:
  assumes "cells h a = Some (Message m)"
    and "case m_topic m of None \<Rightarrow> True | Some t \<Rightarrow> t \<noteq> a \<and> cells h t \<noteq> None"
    and "case m_payload m of None \<Rightarrow> True | Some p \<Rightarrow> p \<noteq> a \<and> m_topic m \<noteq> Some p \<and> cells h p \<noteq> None"
  shows "clean_message (Some a) h =
    Inr (h\<lparr>cells := \<lambda>x. if x = a \<or> m_topic m = Some x \<or> m_payload m = Some x then None else cells h x\<rparr>)"
proof -
  have upd: "h\<lparr>cells := f\<rparr> = h\<lparr>cells := g\<rparr>" if "\<And>x. f x = g x" for f g
    using that by (metis ext)
  show ?thesis using assms
    by (auto simp: clean_message_def simp del: bindE_eq_Inr split: option.splits intro!: upd)
qed

text \<open>The heap after a successful publish.\<close>

definition published :: "bytes \<Rightarrow> bytes \<Rightarrow> u16 \<Rightarrow> heap \<Rightarrow> heap" where
  "published s pl n h = (let b = brk h in h\<lparr>brk := b + 3, cells := (cells h)
     (b \<mapsto> Message \<lparr> m_topic = Some (b + 1), m_payload = Some (b + 2), m_payload_length = n \<rparr>,
      b + 1 \<mapsto> Raw (s @ [0]), b + 2 \<mapsto> Raw (take (unat n) pl))\<rparr>)"

lemma publish_success:
  assumes "is_connected cl" and "c_str tp = Inr s" and "length s < 65536" and "n \<noteq> 0" and "unat n \<le> length pl"
  shows "tls_mqtt_publish (True, True, True) e cl (Some tp) (Some pl) n q h =
    Inr (e, [Arch_Begin, Mqtt_Publish (s @ [0]) (take (unat n) pl) n q 0 (brk h), Arch_End], published s pl n h)"
proof -
  have u: "unat (of_nat (length s) :: u16) = length s" using assms(3) by (simp add: unat_of_nat)
  have "memcpy (replicate (length s + 1) 0) 0 (s @ [0]) (length s + 1) = Inr (s @ [0])"
    "buf_put (s @ [0]) (length s) 0 = Inr (s @ [0])"
    "memcpy (replicate (unat n) 0) 0 pl (unat n) = Inr (take (unat n) pl)"
    using memcpy_fresh [of "length s + 1" "s @ [0]"] memcpy_fresh [of "unat n" pl] assms(5)
    by (simp_all add: buf_put_def)
  then show ?thesis
    using assms u by (simp add: tls_mqtt_publish_def Let_def malloc_def store_def published_def fun_eq_iff)
qed

lemma clean_published:
  assumes "heap_wf h"
  shows "\<exists>h'. clean_message (Some (brk h)) (published s pl n h) = Inr h' \<and> cells h' = cells h \<and> heap_wf h'"
proof -
  let ?m = "\<lparr> m_topic = Some (brk h + 1), m_payload = Some (brk h + 2), m_payload_length = n \<rparr>"
  have "clean_message (Some (brk h)) (published s pl n h) = Inr ((published s pl n h)\<lparr>cells := \<lambda>x.
      if x = brk h \<or> m_topic ?m = Some x \<or> m_payload ?m = Some x then None else cells (published s pl n h) x\<rparr>)"
    by (rule clean_message_ok) (simp_all add: published_def Let_def)
  then show ?thesis using assms by (auto simp: published_def Let_def heap_wf_def fun_eq_iff)
qed

lemma published_blocks:
  assumes "heap_wf h"
  shows "heap_wf (published s pl n h)" "dom (cells (published s pl n h)) = dom (cells h) \<union> {brk h, brk h + 1, brk h + 2}"
    "card (dom (cells (published s pl n h)) - dom (cells h)) = 3"
proof -
  have fresh: "cells h (brk h) = None" "cells h (Suc (brk h)) = None" "cells h (Suc (Suc (brk h))) = None"
    using assms by (auto simp: heap_wf_def)
  show "heap_wf (published s pl n h)" using assms by (auto simp: heap_wf_def published_def Let_def)
  show d: "dom (cells (published s pl n h)) = dom (cells h) \<union> {brk h, brk h + 1, brk h + 2}"
    by (auto simp: published_def Let_def dom_def)
  have "dom (cells (published s pl n h)) - dom (cells h) = {brk h, brk h + 1, brk h + 2}" using fresh unfolding d by auto
  then show "card (dom (cells (published s pl n h)) - dom (cells h)) = 3" by simp
qed

text \<open>C32: Memory of a message that is sent. When a connected client publishes a text, every allocation is granted and the library
  takes the message, topic and payload have been copied into three fresh blocks, and the completion callback gives
  exactly these back. If an allocation fails at any of the three points, the call reports it without
  calling the library and leaves the heap as it was. (When the library refuses the message nothing is given back, as the
  next property shows.)\<close>

theorem mqtt_publish_ownership:
  assumes "heap_wf h" and "c_str tp = Inr s" and "length s < 65536" and "unat n \<le> length pl"
    and "is_connected cl" and "n \<noteq> 0"
  shows "if ok1 \<and> ok2 \<and> ok3
     then \<exists>a h' h''. tls_mqtt_publish (ok1, ok2, ok3) ERR_OK cl (Some tp) (Some pl) n q h =
         Inr (ERR_OK, [Arch_Begin, Mqtt_Publish (s @ [0]) (take (unat n) pl) n q 0 a, Arch_End], h') \<and>
         card (dom (cells h') - dom (cells h)) = 3 \<and>
         tls_mqtt_pub_request_cb (Some a) e2 h' = Inr h'' \<and> cells h'' = cells h
     else \<exists>h'. tls_mqtt_publish (ok1, ok2, ok3) e cl (Some tp) (Some pl) n q h = Inr (ERR_MEM, [], h') \<and> cells h' = cells h"
proof -
  have u: "unat (of_nat (length s) :: u16) = length s" using assms(3) by (simp add: unat_of_nat)
  have fresh: "cells h (brk h) = None" "cells h (Suc (brk h)) = None" "cells h (Suc (Suc (brk h))) = None"
    using assms(1) by (auto simp: heap_wf_def)
  have cp: "memcpy (replicate (length s + 1) 0) 0 (s @ [0]) (length s + 1) = Inr (s @ [0])"
    "buf_put (s @ [0]) (length s) 0 = Inr (s @ [0])"
    using memcpy_fresh [of "length s + 1" "s @ [0]"] by (simp_all add: buf_put_def)
  have fail: "\<exists>h'. tls_mqtt_publish (ok1, ok2, ok3) e cl (Some tp) (Some pl) n q h = Inr (ERR_MEM, [], h') \<and> cells h' = cells h"
    if "\<not> (ok1 \<and> ok2 \<and> ok3)"
    using that assms(2,5,6) u cp fresh
    by (cases ok1; cases ok2; auto simp: tls_mqtt_publish_def Let_def malloc_def store_def clean_message_def fun_eq_iff)
  show ?thesis
    using fail publish_success [OF assms(5,2,3,6,4)] clean_published [OF assms(1), of s pl n] published_blocks(3) [OF assms(1), of s pl n]
    by (auto simp: tls_mqtt_pub_request_cb_def)
qed

text \<open>Publishing the same text \<open>k\<close> times to a library that refuses each time.\<close>

fun publish_refused :: "nat \<Rightarrow> err_t \<Rightarrow> MQTT_CLIENT_T \<Rightarrow> bytes \<Rightarrow> bytes \<Rightarrow> u16 \<Rightarrow> u8 \<Rightarrow> heap \<Rightarrow> (err_t list \<times> heap) ub" where
  "publish_refused 0 e cl tp pl n q h = Inr ([], h)"
| "publish_refused (Suc k) e cl tp pl n q h =
    bindE (tls_mqtt_publish (True, True, True) e cl (Some tp) (Some pl) n q h) (\<lambda>(r, _, h1).
    bindE (publish_refused k e cl tp pl n q h1) (\<lambda>(rs, h2). Inr (r # rs, h2)))"

text \<open>C33: Memory of a message that is refused, against what the header promises. Each time the library does not take the message,
  the status is returned and the three blocks of the message stay allocated, beside all that was there before: no callback
  will come for them and nobody else holds a pointer to them. Over \<open>k\<close> refusals the heap loses
  three blocks each time.\<close>

theorem mqtt_publish_leaks_on_error:
  assumes "heap_wf h" and "c_str tp = Inr s" and "length s < 65536" and "unat n \<le> length pl"
    and "is_connected cl" and "n \<noteq> 0" and "e \<noteq> ERR_OK" and "finite (dom (cells h))"
  shows "\<exists>h'. publish_refused k e cl tp pl n q h = Inr (replicate k e, h') \<and>
    card (dom (cells h')) = card (dom (cells h)) + 3 * k \<and> (\<forall>x \<in> dom (cells h). cells h' x = cells h x)"
  using assms(1,8)
proof (induction k arbitrary: h)
  case (Suc k)
  let ?h = "published s pl n h"
  note p = published_blocks [OF Suc.prems(1), of s pl n]
  have f: "finite (dom (cells ?h))" using Suc.prems(2) p(2) by simp
  have "dom (cells h) \<subseteq> dom (cells ?h)" using p(2) by auto
  then have c: "card (dom (cells ?h)) = card (dom (cells h)) + 3"
    using p(3) card_Diff_subset [OF Suc.prems(2), of "dom (cells ?h)"] card_mono [OF f, of "dom (cells h)"] by simp
  have k: "cells ?h x = cells h x" if "x \<in> dom (cells h)" for x
    using that Suc.prems(1) by (auto simp: published_def Let_def heap_wf_def)
  obtain h' where "publish_refused k e cl tp pl n q ?h = Inr (replicate k e, h')"
    "card (dom (cells h')) = card (dom (cells ?h)) + 3 * k" "\<forall>x \<in> dom (cells ?h). cells h' x = cells ?h x"
    using Suc.IH [OF p(1) f] by blast
  then show ?case using publish_success [OF assms(5,2,3,6,4), of e q h] c k p(2) by auto
qed simp

section \<open>Subscriptions\<close>

text \<open>The requests among the calls.\<close>

fun sub_requests :: "mqtt_call list \<Rightarrow> (bytes \<times> bool) list" where
  "sub_requests [] = []"
| "sub_requests (Mqtt_Sub_Unsub t q sub # cs) = (t, sub) # sub_requests cs"
| "sub_requests (_ # cs) = sub_requests cs"

text \<open>Every library call happens between taking and giving back the network lock, once.\<close>

fun bracketed :: "bool \<Rightarrow> mqtt_call list \<Rightarrow> bool" where
  "bracketed inside [] = (\<not> inside)"
| "bracketed inside (Arch_Begin # cs) = (\<not> inside \<and> bracketed True cs)"
| "bracketed inside (Arch_End # cs) = (inside \<and> bracketed False cs)"
| "bracketed inside (_ # cs) = (inside \<and> bracketed inside cs)"

lemma sub_requests_append [simp]: "sub_requests (as @ bs) = sub_requests as @ sub_requests bs"
  by (induction as rule: sub_requests.induct) auto

lemma bracketed_append: "bracketed b as \<Longrightarrow> bracketed False bs \<Longrightarrow> bracketed b (as @ bs)"
  by (induction b as rule: bracketed.induct) auto

lemma sub_unsub_loop_requests:
  "sub_requests (sub_unsub_loop sub ss) = map (\<lambda>s. (topic_name s, sub)) (filter (\<lambda>s. is_subscribed s \<noteq> sub) ss)"
  by (induction ss) auto

lemma sub_unsub_loop_bracketed: "bracketed False (sub_unsub_loop sub ss)"
  by (induction ss) (auto intro: bracketed_append)

text \<open>The acknowledgements of one request, failures first.\<close>

fun sub_acks :: "err_t list \<Rightarrow> TopicState \<Rightarrow> (TopicState \<times> mqtt_call list) ub" where
  "sub_acks [] s = Inr (s, [])"
| "sub_acks (e # es) s = bindE (tls_mqtt_subscribe_request_cb True s e) (\<lambda>(s', cs).
     bindE (sub_acks es s') (\<lambda>(s'', cs'). Inr (s'', cs @ cs')))"

text \<open>C34: when the broker accepts the connection, exactly the topics not yet subscribed are requested,
  each under the network lock; a request that fails is repeated unchanged until it succeeds, and
  then the session counts as subscribed.\<close>

theorem mqtt_subscribes:
  assumes "mqtt_wf st" and "list_all (\<lambda>e. e \<noteq> ERR_OK) es" and "s \<in> set (topics_states st)" and "\<not> is_subscribed s"
  shows "(\<exists>cs. tls_mqtt_connection_cb e MQTT_CONNECT_ACCEPTED st = Inr (st\<lparr>is_connected := True\<rparr>, cs) \<and>
      bracketed False cs \<and> (topic_name s, True) \<in> set (sub_requests cs) \<and>
      sub_requests cs = map (\<lambda>s. (topic_name s, True)) (filter (\<lambda>s. \<not> is_subscribed s) (topics_states st))) \<and>
    (\<exists>cs. sub_acks (es @ [ERR_OK]) s = Inr (s\<lparr>is_subscribed := True\<rparr>, cs) \<and>
      sub_requests cs = replicate (length es) (topic_name s, True))"
proof
  have "take 2 (topics_states st) = topics_states st" using assms(1) by (simp add: mqtt_wf_def)
  then show "\<exists>cs. tls_mqtt_connection_cb e MQTT_CONNECT_ACCEPTED st = Inr (st\<lparr>is_connected := True\<rparr>, cs) \<and>
      bracketed False cs \<and> (topic_name s, True) \<in> set (sub_requests cs) \<and>
      sub_requests cs = map (\<lambda>s. (topic_name s, True)) (filter (\<lambda>s. \<not> is_subscribed s) (topics_states st))"
    using assms(3,4)
    by (simp add: tls_mqtt_connection_cb_def Let_def tls_mqtt_sub_unsub_topics_def sub_unsub_loop_requests
        sub_unsub_loop_bracketed)
  show "\<exists>cs. sub_acks (es @ [ERR_OK]) s = Inr (s\<lparr>is_subscribed := True\<rparr>, cs) \<and>
      sub_requests cs = replicate (length es) (topic_name s, True)"
    using assms(2,4) by (induction es) (auto simp: tls_mqtt_subscribe_request_cb_def)
qed

text \<open>The subscription flags survive a lost connection. After a disconnect and a new accept, a client
  that had subscribed its topics requests none of them again.\<close>

theorem mqtt_no_resubscribe:
  assumes "mqtt_wf st" and "\<forall>s \<in> set (topics_states st). is_subscribed s"
    and "tls_mqtt_connection_cb e MQTT_CONNECT_DISCONNECTED st = Inr (st1, cs1)"
  shows "\<exists>cs2. tls_mqtt_connection_cb e2 MQTT_CONNECT_ACCEPTED st1 = Inr (st1\<lparr>is_connected := True\<rparr>, cs2) \<and>
    sub_requests (cs1 @ cs2) = []"
proof -
  have st1: "topics_states st1 = topics_states st" "sub_requests cs1 = []"
    using assms(3) by (auto simp: tls_mqtt_connection_cb_def tls_mqtt_connect_def Let_def split: if_splits)
  have "take 2 (topics_states st) = topics_states st" using assms(1) by (simp add: mqtt_wf_def)
  then show ?thesis using st1 assms(2)
    by (simp add: tls_mqtt_connection_cb_def Let_def tls_mqtt_sub_unsub_topics_def sub_unsub_loop_requests
        filter_empty_conv)
qed

section \<open>Port number and name lookup\<close>

lemma digit_is_digit: "k < 10 \<Longrightarrow> is_digit (48 + of_nat k)"
  using unat_digit [of k] by (simp add: is_digit_def word_le_nat_alt)

lemma decimal_digits: "\<forall>d \<in> set (decimal n). is_digit d"
proof (induction n rule: decimal.induct)
  case (1 n)
  then show ?case by (subst decimal.simps) (auto simp: digit_is_digit)
qed

lemma decimal_not_Nil: "decimal n \<noteq> []"
  by (subst decimal.simps) simp

lemma digits_value_decimal: "digits_value (decimal n) = n"
proof (induction n rule: decimal.induct)
  case (1 n)
  show ?case
  proof (cases "n < 10")
    case True
    then show ?thesis by (subst decimal.simps) (simp add: digits_value_def unat_digit)
  next
    case False
    have "digits_value (decimal (n div 10) @ [48 + of_nat (n mod 10)]) = 10 * digits_value (decimal (n div 10)) + n mod 10"
      using unat_digit [of "n mod 10"] by (simp add: digits_value_def)
    then show ?thesis using 1 False by (subst decimal.simps) simp
  qed
qed

lemma strtoul10_decimal:
  assumes "n < 4294967296"
  shows "strtoul10 (decimal n) = of_nat n"
proof -
  have d: "is_digit (hd (decimal n))" using decimal_digits decimal_not_Nil by (metis hd_in_set)
  have "\<not> is_space (hd (decimal n))" "hd (decimal n) \<noteq> 43" "hd (decimal n) \<noteq> 45"
    using d by (auto simp: is_digit_def is_space_def word_le_nat_alt unat_arith_simps)
  moreover have "dropWhile is_space (decimal n) = decimal n"
    using calculation(1) decimal_not_Nil by (cases "decimal n") auto
  moreover have tw: "takeWhile is_digit (decimal n) = decimal n"
    using decimal_digits by (simp add: takeWhile_eq_all_conv)
  ultimately show ?thesis
    using assms by (simp add: strtoul10_def Let_def tw digits_value_decimal)
qed

text \<open>The port in the settings, a decimal number below 65536, is the port the client connects to, at
  the address it holds; the status is the library's.\<close>

theorem mqtt_connect_port:
  assumes "p < 65536" and "tls_mqtt_broker_port (settings st) = decimal p @ 0 # rest" and "settings_ptr st \<noteq> Null"
  shows "\<exists>st' cs. tls_mqtt_connect e st = Inr (e, st', cs) \<and> bracketed False cs \<and>
    take 3 cs = [Arch_Begin, Mqtt_Client_Connect (remote_addr st) (of_nat p) (ci st), Arch_End] \<and>
    (e = ERR_OK \<longrightarrow> err_state st' = TLS_MQTT_OK \<and> Mqtt_Set_Inpub_Callback \<in> set cs) \<and> (e \<noteq> ERR_OK \<longrightarrow> st' = st)"
proof -
  have "0 \<notin> set (decimal p)"
    using decimal_digits [of p] by (auto simp: is_digit_def word_le_nat_alt)
  then have "c_str (tls_mqtt_broker_port (settings st)) = Inr (decimal p)" using assms(2) by simp
  moreover have "strtoul10 (decimal p) = of_nat p" using assms(1) by (simp add: strtoul10_decimal)
  moreover have "ucast (of_nat p :: u32) = (of_nat p :: u16)"
    using assms(1) by (simp add: unsigned_of_nat take_bit_nat_eq_self)
  ultimately show ?thesis using assms(3) by (simp add: tls_mqtt_connect_def Let_def)
qed

lemma dns_wait_iff:
  assumes "dns_waiting st"
  shows "(\<exists>st'. dns_wait es st = Some st') \<longleftrightarrow> (\<exists>e \<in> set es. e = Some None \<or> (\<exists>a. a \<noteq> 0 \<and> e = Some (Some a)))"
  using assms
proof (induction es arbitrary: st)
  case (Cons e es)
  show ?case
  proof (cases "e = Some None \<or> (\<exists>a. a \<noteq> 0 \<and> e = Some (Some a))")
    case True
    then have "\<not> dns_waiting (case e of None \<Rightarrow> st | Some a \<Rightarrow> dns_found_cb a st)"
      by (auto simp: dns_found_cb_def dns_waiting_def)
    then show ?thesis using True Cons.prems by (cases es) auto
  next
    case False
    then have "dns_waiting (case e of None \<Rightarrow> st | Some a \<Rightarrow> dns_found_cb a st)"
      using Cons.prems by (auto simp: dns_found_cb_def dns_waiting_def split: option.splits)
    then show ?thesis using Cons False by auto
  qed
qed (simp add: dns_waiting_def)

lemma same_client: "err_state st = e \<Longrightarrow> st = st\<lparr>remote_addr := remote_addr st, err_state := e\<rparr>"
  by (cases st) simp

lemma dns_wait_result:
  "dns_wait es st = Some st' \<Longrightarrow> err_state st = TLS_MQTT_OK \<Longrightarrow>
     \<not> dns_waiting st' \<and> (\<exists>a e. st' = st\<lparr>remote_addr := a, err_state := e\<rparr> \<and> (e = TLS_MQTT_OK \<or> e = TLS_MQTT_ERR_DNS))"
proof (induction es arbitrary: st)
  case Nil
  then show ?case by (metis dns_wait.simps(1) option.distinct(1) option.inject same_client)
next
  case (Cons e es)
  show ?case
  proof (cases "dns_waiting st \<and> (\<exists>x. e = Some x)")
    case True
    then obtain x where x: "e = Some x" "dns_wait es (dns_found_cb x st) = Some st'" using Cons.prems by auto
    show ?thesis
    proof (cases x)
      case None
      then have "\<not> dns_waiting (dns_found_cb x st)" by (simp add: dns_found_cb_def dns_waiting_def)
      then have "st' = dns_found_cb x st" using x by (cases es) auto
      moreover have "dns_found_cb None st = st\<lparr>remote_addr := remote_addr st, err_state := TLS_MQTT_ERR_DNS\<rparr>"
        by (cases st) (simp add: dns_found_cb_def)
      ultimately show ?thesis using None \<open>\<not> dns_waiting (dns_found_cb x st)\<close> by metis
    next
      case (Some a)
      then show ?thesis using Cons.IH [OF x(2)] by (auto simp: dns_found_cb_def)
    qed
  next
    case False
    then have "dns_waiting st \<and> dns_wait es st = Some st' \<or> \<not> dns_waiting st \<and> st' = st"
      using Cons.prems(1) by (auto split: if_splits option.splits)
    then show ?thesis using Cons.IH Cons.prems(2) same_client by metis
  qed
qed

text \<open>C36: the name lookup comes back exactly if the library answers at once, or calls back with an
  address other than 0.0.0.0 or with a failure. In particular it never comes back when the
  library rejects the query and therefore never calls back.\<close>

theorem dns_lookup_returns_iff:
  assumes "remote_addr st = 0" and "err_state st = TLS_MQTT_OK"
  shows "(\<exists>st' cs. run_dns_lookup (e, imm) events st host = (Some st', cs)) \<longleftrightarrow>
    e = ERR_OK \<and> imm \<noteq> 0 \<or> Some None \<in> set events \<or> (\<exists>a. a \<noteq> 0 \<and> Some (Some a) \<in> set events)"
proof (cases "e = ERR_OK \<and> imm \<noteq> 0")
  case True
  then show ?thesis by (cases events) (auto simp: run_dns_lookup_def dns_waiting_def)
next
  case False
  then have "dns_waiting (if e = ERR_OK then st\<lparr>remote_addr := imm\<rparr> else st)"
    using assms by (auto simp: dns_waiting_def)
  then show ?thesis using dns_wait_iff [of _ events] False by (auto simp: run_dns_lookup_def Let_def)
qed

section \<open>Initialisation\<close>

lemma clean_sessions_total:
  "\<forall>s \<in> set ts. topic_buffer s \<noteq> [] \<Longrightarrow> \<exists>ts'. clean_sessions ts = Inr ts'"
  by (induction ts) (auto simp: clean_session_def buf_put_def)

lemma clean_static:
  assumes "\<forall>s \<in> set (topics_states cl). topic_buffer s \<noteq> []" and "settings_ptr cl = Static"
  shows "tls_mqtt_clean self cl h = Inl Invalid_Free"
  using clean_sessions_total [OF assms(1)] assms(2) by (auto simp: tls_mqtt_clean_def)

lemma clean_heap:
  assumes "\<forall>s \<in> set (topics_states cl). topic_buffer s \<noteq> []" and "settings_ptr cl = Heap b" and "ci cl = None"
    and "cells h b \<noteq> None" and "cells h self \<noteq> None" and "b \<noteq> self"
  shows "\<exists>ts. tls_mqtt_clean self cl h =
    Inr (ts, [Arch_Begin, Mqtt_Client_Free, Arch_End], h\<lparr>cells := (cells h)(b := None, self := None)\<rparr>)"
  using clean_sessions_total [OF assms(1)] assms(2-)
  by (auto simp: tls_mqtt_clean_def simp del: bindE_eq_Inr)

text \<open>The ways an initialisation fails after the client object is allocated: the library has no
  client to give, the name does not resolve, or there is no memory for the connect
  information.\<close>

definition lookup_fails :: "init_env \<Rightarrow> bool" where
  "lookup_fails env \<longleftrightarrow> fst (gethost env) \<noteq> ERR_OK \<and> (\<exists>n rest. dns_events env = replicate n None @ Some None # rest)"

definition lookup_gives :: "init_env \<Rightarrow> u32 \<Rightarrow> bool" where
  "lookup_gives env a \<longleftrightarrow> a \<noteq> 0 \<and>
     (gethost env = (ERR_OK, a) \<or>
      fst (gethost env) \<noteq> ERR_OK \<and> (\<exists>n rest. dns_events env = replicate n None @ Some (Some a) # rest))"

lemma dns_wait_skip: "dns_waiting st \<Longrightarrow> dns_wait (replicate n None @ es) st = dns_wait es st"
  by (induction n) auto

lemma dns_wait_done: "\<not> dns_waiting st \<Longrightarrow> dns_wait es st = Some st"
  by (cases es) auto

lemma lookup_fails_run:
  assumes "lookup_fails env" and "remote_addr st = 0" and "err_state st = TLS_MQTT_OK"
  shows "\<exists>cs. run_dns_lookup (gethost env) (dns_events env) st host = (Some (st\<lparr>err_state := TLS_MQTT_ERR_DNS\<rparr>), cs)"
proof -
  have w: "dns_waiting st" "\<not> dns_waiting (st\<lparr>err_state := TLS_MQTT_ERR_DNS\<rparr>)"
    using assms by (auto simp: dns_waiting_def)
  obtain n rest where "dns_events env = replicate n None @ Some None # rest" "fst (gethost env) \<noteq> ERR_OK"
    using assms(1) by (auto simp: lookup_fails_def)
  then show ?thesis using w
    by (cases "gethost env") (simp add: run_dns_lookup_def dns_wait_skip dns_wait_done dns_found_cb_def)
qed

lemma lookup_gives_run:
  assumes "lookup_gives env a" and "remote_addr st = 0" and "err_state st = TLS_MQTT_OK"
  shows "\<exists>cs. run_dns_lookup (gethost env) (dns_events env) st host = (Some (st\<lparr>remote_addr := a\<rparr>), cs)"
proof -
  have a: "a \<noteq> 0" using assms(1) by (simp add: lookup_gives_def)
  have w: "dns_waiting st" "\<not> dns_waiting (st\<lparr>remote_addr := a\<rparr>)" using assms a by (auto simp: dns_waiting_def)
  have e: "st\<lparr>remote_addr := a, err_state := TLS_MQTT_OK\<rparr> = st\<lparr>remote_addr := a\<rparr>" using assms(3) by (cases st) simp
  show ?thesis using assms(1) w e
    by (cases "gethost env") (auto simp: lookup_gives_def run_dns_lookup_def dns_wait_skip dns_wait_done dns_found_cb_def)
qed

definition init_fails :: "init_env \<Rightarrow> bool" where
  "init_fails env \<longleftrightarrow> new_client env = None \<or> lookup_fails env \<or> (\<exists>a. lookup_gives env a) \<and> \<not> ok_ci env"

text \<open>The failing client reaches the clean-up with no connect information.\<close>

lemma init_fails_cleans:
  assumes "init_fails env" and "ok_client env"
  shows "\<exists>ret cl cs. ret \<noteq> TLS_MQTT_OK \<and> topics_states cl = ts \<and> settings_ptr cl = sp \<and> ci cl = None \<and>
    tls_mqtt_init env sp s static ts h =
      bindE (init_fail ret (brk h) cl cs (h\<lparr>cells := (cells h)(brk h \<mapsto> Client_Block), brk := brk h + 1\<rparr>)) (\<lambda>x. Inr (Some x))"
proof -
  let ?h = "h\<lparr>cells := (cells h)(brk h \<mapsto> Client_Block), brk := brk h + 1\<rparr>"
  define cl where "cl = \<lparr> ci = None, remote_addr = 0, mqtt_client = new_client env, topics_states = ts,
      err_state = TLS_MQTT_OK, is_connected = False, topic_incom_data = int TLS_MQTT_NUMBER_OF_TOPICS,
      settings_ptr = sp, settings = s \<rparr>"
  have cl: "remote_addr cl = 0" "err_state cl = TLS_MQTT_OK" "topics_states cl = ts" "settings_ptr cl = sp" "ci cl = None"
    "mqtt_client cl = new_client env" by (simp_all add: cl_def)
  show ?thesis
  proof (cases "new_client env = None")
    case True
    then show ?thesis using assms(2)
      by (intro exI [of _ TLS_MQTT_ERR_ALLOC] exI [of _ cl] exI [of _ "[]"])
        (simp add: cl_def tls_mqtt_init_def malloc_def Let_def)
  next
    case False
    then obtain c where c: "new_client env = Some c" by blast
    from False consider "lookup_fails env" | a where "lookup_gives env a" "\<not> ok_ci env"
      using assms(1) by (auto simp: init_fails_def)
    then show ?thesis
    proof cases
      case 1
      then obtain cs where "run_dns_lookup (gethost env) (dns_events env) cl (tls_mqtt_broker_hostname s) =
          (Some (cl\<lparr>err_state := TLS_MQTT_ERR_DNS\<rparr>), cs)" using lookup_fails_run cl by blast
      then show ?thesis using assms(2) c
        by (intro exI [of _ TLS_MQTT_ERR_DNS] exI [of _ "cl\<lparr>err_state := TLS_MQTT_ERR_DNS\<rparr>"] exI [of _ cs])
          (simp add: cl_def tls_mqtt_init_def malloc_def Let_def)
    next
      case (2 a)
      then obtain cs where "run_dns_lookup (gethost env) (dns_events env) cl (tls_mqtt_broker_hostname s) =
          (Some (cl\<lparr>remote_addr := a\<rparr>), cs)" using lookup_gives_run cl by blast
      then show ?thesis using assms(2) c 2(2)
        by (intro exI [of _ TLS_MQTT_ERR_ALLOC] exI [of _ "cl\<lparr>remote_addr := a, err_state := TLS_MQTT_ERR_ALLOC\<rparr>"] exI [of _ cs])
          (simp add: cl_def tls_mqtt_init_def tls_mqtt_reconfigure_client_def malloc_def Let_def)
    qed
  qed
qed

text \<open>Every failure of the initialisation after the client object exists ends in the clean-up, which
  frees the settings. With the settings in a heap block the failure gives every block back and
  reports its status; with the static object the firmware passes it is an invalid free.\<close>

theorem mqtt_init_failure:
  assumes "init_fails env" and "ok_client env" and "heap_wf h" and "\<forall>s \<in> set ts. topic_buffer s \<noteq> []"
  shows "tls_mqtt_init env Static s static ts h = Inl Invalid_Free \<and>
    (cells h b \<noteq> None \<longrightarrow> (\<exists>res. tls_mqtt_init env (Heap b) s static ts h = Inr (Some res) \<and>
       i_ret res \<noteq> TLS_MQTT_OK \<and> i_client res = None \<and> i_static res = None \<and> cells (i_heap res) = (cells h)(b := None)))"
proof
  show "tls_mqtt_init env Static s static ts h = Inl Invalid_Free"
    using init_fails_cleans [OF assms(1,2), of ts Static s static h] clean_static assms(4)
    by (auto simp: init_fail_def)
  let ?h = "h\<lparr>cells := (cells h)(brk h \<mapsto> Client_Block), brk := brk h + 1\<rparr>"
  show "cells h b \<noteq> None \<longrightarrow> (\<exists>res. tls_mqtt_init env (Heap b) s static ts h = Inr (Some res) \<and>
       i_ret res \<noteq> TLS_MQTT_OK \<and> i_client res = None \<and> i_static res = None \<and> cells (i_heap res) = (cells h)(b := None))"
  proof
    assume b: "cells h b \<noteq> None"
    have fr: "cells h (brk h) = None" "b \<noteq> brk h" using assms(3) b by (auto simp: heap_wf_def)
    obtain ret cl cs where c: "ret \<noteq> TLS_MQTT_OK" "topics_states cl = ts" "settings_ptr cl = Heap b" "ci cl = None"
      "tls_mqtt_init env (Heap b) s static ts h = bindE (init_fail ret (brk h) cl cs ?h) (\<lambda>x. Inr (Some x))"
      using init_fails_cleans [OF assms(1,2), of ts "Heap b" s static h] by blast
    obtain ts' where "tls_mqtt_clean (brk h) cl ?h =
        Inr (ts', [Arch_Begin, Mqtt_Client_Free, Arch_End], ?h\<lparr>cells := (cells ?h)(b := None, brk h := None)\<rparr>)"
      using clean_heap [of cl b ?h "brk h"] c assms(4) b fr by auto
    then show "\<exists>res. tls_mqtt_init env (Heap b) s static ts h = Inr (Some res) \<and>
       i_ret res \<noteq> TLS_MQTT_OK \<and> i_client res = None \<and> i_static res = None \<and> cells (i_heap res) = (cells h)(b := None)"
      using c(1,5) fr by (auto simp: init_fail_def fun_eq_iff)
  qed
qed

text \<open>With the name resolved and memory available the client starts disconnected, at the resolved
  address, with connect information taken from the settings: the client identifier, a user and a
  password only when they are not empty, and a keep-alive of 300 seconds.\<close>

lemma mqtt_init_ok:
  assumes "lookup_gives env a" and "ok_client env" and "new_client env = Some c" and "ok_ci env"
  shows "\<exists>res self cl i info. tls_mqtt_init env sp s static ts h = Inr (Some res) \<and> i_ret res = TLS_MQTT_OK \<and>
    i_client res = Some (self, cl) \<and> i_static res = Some self \<and> remote_addr cl = a \<and> \<not> is_connected cl \<and>
    settings cl = s \<and> settings_ptr cl = sp \<and> topics_states cl = ts \<and> ci cl = Some i \<and> cells (i_heap res) i = Some (Connect_Info info) \<and>
    cells (i_heap res) self = Some Client_Block \<and> client_id info = tls_mqtt_client_id s \<and> keep_alive info = 300 \<and>
    client_user info = (if tls_mqtt_client_name s ! 0 = 0 then None else Some (tls_mqtt_client_name s)) \<and>
    client_pass info = (if tls_mqtt_client_password s ! 0 = 0 then None else Some (tls_mqtt_client_password s))"
proof -
  define cl where "cl = \<lparr> ci = None, remote_addr = 0, mqtt_client = new_client env, topics_states = ts,
      err_state = TLS_MQTT_OK, is_connected = False, topic_incom_data = int TLS_MQTT_NUMBER_OF_TOPICS,
      settings_ptr = sp, settings = s \<rparr>"
  have cl: "remote_addr cl = 0" "err_state cl = TLS_MQTT_OK" by (simp_all add: cl_def)
  obtain cs where "run_dns_lookup (gethost env) (dns_events env) cl (tls_mqtt_broker_hostname s) =
      (Some (cl\<lparr>remote_addr := a\<rparr>), cs)" using lookup_gives_run [OF assms(1) cl] by blast
  then show ?thesis
    using assms(2-4)
    by (simp add: tls_mqtt_init_def malloc_def Let_def cl_def tls_mqtt_reconfigure_client_def)
qed

section \<open>Sample runs\<close>

definition demo_client :: MQTT_CLIENT_T where
  "demo_client = \<lparr> ci = Some 5, remote_addr = 0, mqtt_client = Some 1, topics_states = topics_sessions,
     err_state = TLS_MQTT_OK, is_connected = True, topic_incom_data = 2, settings_ptr = Static,
     settings = default_settings \<rparr>"

definition demo_heap :: heap where
  "demo_heap = \<lparr> cells = (\<lambda>a. if a = 1 then Some (Raw [7]) else None), brk = 2 \<rparr>"

definition demo_init_env :: "bool \<Rightarrow> init_env" where
  "demo_init_env ok = \<lparr> ok_client = True, new_client = Some 1, gethost = (Err_Other (- 5), 0),
     dns_events = [None, if ok then Some (Some 42) else Some None], ok_ci = True \<rparr>"

definition demo_handler :: "(nat \<times> nat) list data_handler_fn" where
  "demo_handler topic data len app = Inr ((unat topic, unat len) # app)"

lemma demo_client_wf: "mqtt_wf demo_client"
  by (auto simp: mqtt_wf_def demo_client_def topics_sessions_def session_ok_def less_2)

lemma demo_heap_wf: "heap_wf demo_heap"
  by (simp add: heap_wf_def demo_heap_def)

lemma demo_sessions: "\<forall>s \<in> set topics_sessions. topic_buffer s \<noteq> [] \<and> \<not> is_subscribed s"
  by (simp add: topics_sessions_def)

lemma demo_init: "init_fails (demo_init_env False)" "lookup_gives (demo_init_env True) 42"
proof -
  have "\<exists>n rest. dns_events (demo_init_env False) = replicate n None @ Some None # rest"
    "\<exists>n rest. dns_events (demo_init_env True) = replicate n None @ Some (Some 42) # rest"
    by (intro exI [of _ 1] exI [of _ "[]"], simp add: demo_init_env_def)+
  moreover have "fst (gethost (demo_init_env b)) \<noteq> ERR_OK" for b by (simp add: demo_init_env_def)
  ultimately show "init_fails (demo_init_env False)" "lookup_gives (demo_init_env True) 42"
    unfolding init_fails_def lookup_fails_def lookup_gives_def by simp_all
qed

theorem mqtt_message_delivered_witness:
  "\<exists>st'. mqtt_receive demo_handler (topic_strings ! 1) [[79], [78]] ([], demo_client) = Inr ([(1, 2)], st') \<and> mqtt_wf st'"
  using mqtt_message_delivered [OF demo_client_wf, of 1 "[[79], [78]]" demo_handler "[]"]
  by (auto simp: demo_handler_def)

theorem mqtt_message_dropped_witness:
  "\<exists>st'. mqtt_receive (\<lambda>_ _ _ _. Inl Assert_Failed) (chars ''other'') [[79]] ((), demo_client) = Inr ((), st') \<and> mqtt_wf st'"
  by (rule mqtt_message_dropped [OF demo_client_wf]) (simp_all add: chars_def topic_strings_def PICO_HOSTNAME_def)

theorem mqtt_publish_ownership_witness:
  "\<exists>h' h''. tls_mqtt_publish (True, True, True) ERR_OK demo_client (Some [97, 0]) (Some [1, 2]) 2 1 demo_heap =
      Inr (ERR_OK, [Arch_Begin, Mqtt_Publish [97, 0] [1, 2] 2 1 0 2, Arch_End], h') \<and>
    card (dom (cells h') - dom (cells demo_heap)) = 3 \<and>
    tls_mqtt_pub_request_cb (Some 2) ERR_OK h' = Inr h'' \<and> cells h'' = cells demo_heap"
proof -
  have s: "c_str [97, 0] = Inr [97]" by code_simp
  have p: "tls_mqtt_publish (True, True, True) ERR_OK demo_client (Some [97, 0]) (Some [1, 2]) 2 1 demo_heap =
      Inr (ERR_OK, [Arch_Begin, Mqtt_Publish [97, 0] [1, 2] 2 1 0 2, Arch_End], published [97] [1, 2] 2 demo_heap)"
    using publish_success [of demo_client "[97, 0]" "[97]" 2 "[1, 2]" ERR_OK 1 demo_heap] s
    by (simp add: demo_client_def demo_heap_def)
  have "length [97 :: u8] < 65536" "unat (2 :: u16) \<le> length [1 :: u8, 2]" by simp_all
  from mqtt_publish_ownership [OF demo_heap_wf s this, of demo_client True True True 1 ERR_OK ERR_OK]
  show ?thesis using p by (auto simp: demo_client_def)
qed

theorem mqtt_publish_leaks_on_error_witness:
  "\<exists>h'. publish_refused 5 ERR_MEM demo_client [97, 0] [1, 2] 2 1 demo_heap = Inr (replicate 5 ERR_MEM, h') \<and>
     card (dom (cells h')) = card (dom (cells demo_heap)) + 15"
proof -
  have "c_str [97, 0] = Inr [97]" by code_simp
  moreover have "finite (dom (cells demo_heap))"
    by (rule finite_subset [of _ "{1}"]) (auto simp: demo_heap_def split: if_splits)
  moreover have "is_connected demo_client" by (simp add: demo_client_def)
  ultimately show ?thesis using mqtt_publish_leaks_on_error [OF demo_heap_wf, of "[97, 0]" "[97]" 2 "[1, 2]" demo_client ERR_MEM 5 1] by auto
qed

theorem mqtt_subscribes_witness:
  "\<exists>cs. tls_mqtt_connection_cb ERR_OK MQTT_CONNECT_ACCEPTED demo_client = Inr (demo_client\<lparr>is_connected := True\<rparr>, cs) \<and>
     bracketed False cs \<and> sub_requests cs = [(topics ! 0, True), (topics ! 1, True)]"
proof -
  have s: "topics_sessions ! 0 \<in> set (topics_states demo_client)" "\<not> is_subscribed (topics_sessions ! 0)"
    by (simp_all add: demo_client_def topics_sessions_def)
  have "list_all (\<lambda>e. e \<noteq> ERR_OK) [ERR_MEM]" by simp
  from mqtt_subscribes [OF demo_client_wf this s, of ERR_OK] obtain cs where
    "tls_mqtt_connection_cb ERR_OK MQTT_CONNECT_ACCEPTED demo_client = Inr (demo_client\<lparr>is_connected := True\<rparr>, cs)"
    "bracketed False cs"
    "sub_requests cs = map (\<lambda>s. (topic_name s, True)) (filter (\<lambda>s. \<not> is_subscribed s) (topics_states demo_client))"
    by blast
  moreover have "map (\<lambda>s. (topic_name s, True)) (filter (\<lambda>s. \<not> is_subscribed s) (topics_states demo_client)) =
      [(topics ! 0, True), (topics ! 1, True)]"
    by (simp add: demo_client_def topics_sessions_def)
  ultimately show ?thesis by metis
qed

theorem mqtt_no_resubscribe_witness:
  "\<exists>st st1 cs1 cs2. mqtt_wf st \<and> tls_mqtt_connection_cb ERR_OK MQTT_CONNECT_DISCONNECTED st = Inr (st1, cs1) \<and>
     tls_mqtt_connection_cb ERR_OK MQTT_CONNECT_ACCEPTED st1 = Inr (st1\<lparr>is_connected := True\<rparr>, cs2) \<and>
     sub_requests (cs1 @ cs2) = []"
proof -
  let ?st = "demo_client\<lparr>topics_states := map (\<lambda>s. s\<lparr>is_subscribed := True\<rparr>) topics_sessions\<rparr>"
  have wf: "mqtt_wf ?st" by (auto simp: mqtt_wf_def topics_sessions_def session_ok_def less_2)
  have "c_str (tls_mqtt_broker_port default_settings) = Inr (chars ''1883'')"
    by code_simp
  then obtain st1 cs1 where d: "tls_mqtt_connection_cb ERR_OK MQTT_CONNECT_DISCONNECTED ?st = Inr (st1, cs1)"
    by (simp add: tls_mqtt_connection_cb_def tls_mqtt_connect_def demo_client_def Let_def)
  from mqtt_no_resubscribe [OF wf _ d, of ERR_OK] wf d show ?thesis by auto
qed

theorem mqtt_connect_port_witness:
  "\<exists>st' cs. tls_mqtt_connect ERR_OK demo_client = Inr (ERR_OK, st', cs) \<and>
     take 3 cs = [Arch_Begin, Mqtt_Client_Connect 0 1883 (Some 5), Arch_End]"
proof -
  have "tls_mqtt_broker_port (settings demo_client) = decimal 1883 @ 0 # [0]"
  proof -
    have "decimal 1883 = chars ''1883''" by code_simp
    then show ?thesis
      by (simp add: demo_client_def default_settings_def BROKER_MQTT_PORT_def char_array_def numeral_2_eq_2)
  qed
  from mqtt_connect_port [OF _ this, of ERR_OK] show ?thesis by (auto simp: demo_client_def)
qed

theorem dns_lookup_returns_iff_witness:
  "(\<exists>st' cs. run_dns_lookup (ERR_ARG, 0) (replicate 1000 None) demo_client [0] = (Some st', cs)) = False"
  using dns_lookup_returns_iff [of demo_client ERR_ARG 0 "replicate 1000 None" "[0]"]
  by (simp add: demo_client_def)

theorem mqtt_init_failure_witness:
  "tls_mqtt_init (demo_init_env False) Static default_settings None topics_sessions demo_heap = Inl Invalid_Free"
  using mqtt_init_failure [OF demo_init(1) _ demo_heap_wf, of topics_sessions default_settings None 1] demo_sessions
  by (simp add: demo_init_env_def)

end
