(* ===== verification/Control_Topics.thy ===== *)
theory Control_Topics
  imports Mqtt_Client
begin

text \<open>
  The control section of \<open>src/main.c\<close>: the water pump with its safety alarm, the light, and
  the handler of server commands.

  The alarm pool belongs to the Pico SDK; the state keeps the identifiers of the alarms that are
  pending in it. What a call that adds an alarm returns is an argument: a fresh positive
  identifier, a negative number when there is no slot, or zero when the alarm falls due before the call returns.
\<close>

section \<open>Model\<close>

definition WATER_PIN :: nat where "WATER_PIN = 16"
definition LIGHT_PIN :: nat where "LIGHT_PIN = 7"
definition WATERING_TIME_MS :: nat where "WATERING_TIME_MS = 10000"

datatype control_command = Set_Water | Set_Light

record control_topic =
  ct_name :: bytes
  topic_data :: bytes
  fn :: control_command

definition initial_control_state :: "control_topic list" where
  "initial_control_state =
    [\<lparr> ct_name = char_array 8 ''water'', topic_data = char_array 10 ''OFF'', fn = Set_Water \<rparr>,
     \<lparr> ct_name = char_array 8 ''light'', topic_data = char_array 10 ''OFF'', fn = Set_Light \<rparr>]"

text \<open>The globals of the section, the output pins, and the pending alarms.\<close>

record control_state =
  current_control_state :: "control_topic list"
  water_pump_mutex :: bool           \<comment> \<open>held\<close>
  water_pump_alarm :: int
  pins :: "nat \<Rightarrow> bool"
  pending :: "int list"

definition control_boot :: control_state where
  "control_boot = \<lparr> current_control_state = initial_control_state, water_pump_mutex = False,
     water_pump_alarm = 0, pins = (\<lambda>_. False), pending = [] \<rparr>"

definition gpio_put :: "nat \<Rightarrow> bool \<Rightarrow> control_state \<Rightarrow> control_state" where
  "gpio_put pin v st = st\<lparr>pins := (pins st)(pin := v)\<rparr>"

text \<open>\<open>strncpy(data, s, sizeof(s)); data[sizeof(s)] = 0\<close>\<close>

definition set_text :: "string \<Rightarrow> bytes \<Rightarrow> bytes ub" where
  "set_text s data =
    (let size = length s + 1 in
     bindE (strncpy data (literal s) size) (\<lambda>d. buf_put d size 0))"

definition put_text :: "nat \<Rightarrow> string \<Rightarrow> control_state \<Rightarrow> control_state ub" where
  "put_text i s st =
    bindE (set_text s (topic_data (current_control_state st ! i))) (\<lambda>d.
      Inr (st\<lparr>current_control_state := (current_control_state st)[i :=
             (current_control_state st ! i)\<lparr>topic_data := d\<rparr>]\<rparr>))"

definition is_off :: "nat \<Rightarrow> control_state \<Rightarrow> bool ub" where
  "is_off i st = strcmp_eq (literal ''OFF'') (topic_data (current_control_state st ! i))"

text \<open>The pieces of \<open>set_water\<close> between which the alarm interrupt can come.\<close>

definition water_cancel :: "control_state \<Rightarrow> control_state" where
  "water_cancel st =
    (if water_pump_alarm st \<noteq> 0
     then st\<lparr>pending := removeAll (water_pump_alarm st) (pending st), water_pump_alarm := 0\<rparr> else st)"

definition water_arm :: "int \<Rightarrow> control_state \<Rightarrow> control_state" where
  "water_arm aid st = st\<lparr>water_pump_alarm := aid, pending := (if aid > 0 then [aid] else []) @ pending st\<rparr>"

definition water_on :: "nat \<Rightarrow> control_state \<Rightarrow> control_state ub" where
  "water_on i st =
    (if water_pump_alarm st \<ge> 0 then put_text i ''ON'' (gpio_put WATER_PIN True st) else Inr st)"

definition water_off :: "nat \<Rightarrow> control_state \<Rightarrow> control_state ub" where
  "water_off i st = put_text i ''OFF'' (gpio_put WATER_PIN False st)"

text \<open>\<open>aid\<close>: what adding the alarm returns.\<close>

definition set_water :: "int \<Rightarrow> nat \<Rightarrow> control_state \<Rightarrow> control_state ub" where
  "set_water aid i st =
    (if water_pump_mutex st then Inr st
     else (let st1 = water_cancel (st\<lparr>water_pump_mutex := True\<rparr>) in
       bindE (is_off i st1) (\<lambda>off.
       bindE (if off then water_on i (water_arm aid st1) else water_off i st1) (\<lambda>st2.
         Inr (st2\<lparr>water_pump_mutex := False\<rparr>)))))"

definition set_light :: "nat \<Rightarrow> control_state \<Rightarrow> control_state ub" where
  "set_light i st =
    bindE (is_off i st) (\<lambda>off.
      if off then put_text i ''ON'' (gpio_put LIGHT_PIN True st)
      else put_text i ''OFF'' (gpio_put LIGHT_PIN False st))"

text \<open>The alarm is gone from the pool when its callback runs; its return value of zero says not to
  schedule it again.\<close>

definition water_alarm_callback :: "int \<Rightarrow> int \<Rightarrow> control_state \<Rightarrow> (int \<times> control_state) ub" where
  "water_alarm_callback new_id aid st =
    bindE (set_water new_id 0 (st\<lparr>pending := removeAll aid (pending st)\<rparr>)) (\<lambda>st'. Inr (0, st'))"

text \<open>The payload of a command is not looked at.\<close>

definition server_command_handler :: "int \<Rightarrow> control_state data_handler_fn" where
  "server_command_handler aid tn data len st =
    (let i = unat tn in
     if i < length (current_control_state st)
     then (case fn (current_control_state st ! i) of
             Set_Water \<Rightarrow> set_water aid i st
           | Set_Light \<Rightarrow> set_light i st)
     else Inl Out_Of_Bounds)"

section \<open>Interleaving with the alarm\<close>

text \<open>A command runs \<open>set_water\<close> piece by piece; the alarm interrupt runs its callback as a whole.
  With \<open>late\<close> the alarm a command arms may fall due before that command has finished, that is,
  the command takes more than ten seconds: the interrupt comes while the command holds the mutex, or already inside the
  call that adds the alarm, which then returns zero.\<close>

datatype pc = Idle | Entered | Cancelled | Armed | Finishing

type_synonym wstate = "pc \<times> control_state"

inductive wstep :: "bool \<Rightarrow> wstate \<Rightarrow> wstate \<Rightarrow> bool" for late :: bool where
  enter: "\<not> water_pump_mutex st \<Longrightarrow> wstep late (Idle, st) (Entered, st\<lparr>water_pump_mutex := True\<rparr>)"
| cancel: "wstep late (Entered, st) (Cancelled, water_cancel st)"
| arm: "is_off 0 st = Inr True \<Longrightarrow> aid \<noteq> 0 \<or> late \<Longrightarrow> aid \<notin> set (pending st) \<Longrightarrow>
    wstep late (Cancelled, st) (Armed, water_arm aid st)"
| on: "water_on 0 st = Inr st' \<Longrightarrow> wstep late (Armed, st) (Finishing, st')"
| off: "is_off 0 st = Inr False \<Longrightarrow> water_off 0 st = Inr st' \<Longrightarrow>
    wstep late (Cancelled, st) (Finishing, st')"
| leave: "wstep late (Finishing, st) (Idle, st\<lparr>water_pump_mutex := False\<rparr>)"
| fire: "aid \<in> set (pending st) \<Longrightarrow> late \<or> p = Idle \<or> p = Entered \<or> p = Cancelled \<Longrightarrow>
    water_alarm_callback new_id aid st = Inr (0, st') \<Longrightarrow>
    wstep late (p, st) (p, st')"

inductive wreach :: "bool \<Rightarrow> wstate \<Rightarrow> bool" for late :: bool where
  start: "wreach late (Idle, control_boot)"
| step: "wreach late s \<Longrightarrow> wstep late s s' \<Longrightarrow> wreach late s'"

inductive_cases wstepE: "wstep late s s'"

section \<open>Texts\<close>

abbreviation text_of :: "nat \<Rightarrow> control_state \<Rightarrow> bytes ub" where
  "text_of i st \<equiv> c_str (topic_data (current_control_state st ! i))"

definition control_wf :: "control_state \<Rightarrow> bool" where
  "control_wf st \<longleftrightarrow> map fn (current_control_state st) = [Set_Water, Set_Light] \<and>
     (\<forall>i < 2. length (topic_data (current_control_state st ! i)) = 10 \<and>
        (text_of i st = Inr (chars ''ON'') \<or> text_of i st = Inr (chars ''OFF'')))"

lemma control_wf_length: "control_wf st \<Longrightarrow> length (current_control_state st) = 2"
  unfolding control_wf_def by (metis length_Cons length_map list.size(3) One_nat_def Suc_1)

lemma control_wf_fn: "control_wf st \<Longrightarrow> fn (current_control_state st ! 0) = Set_Water \<and> fn (current_control_state st ! 1) = Set_Light"
  by (auto simp: control_wf_def)

lemma on_off: "chars ''ON'' \<noteq> chars ''OFF''" "0 \<notin> set (chars ''ON'')" "0 \<notin> set (chars ''OFF'')"
  by (simp_all add: zero_in_chars)

lemma boot_wf: "control_wf control_boot"
proof -
  have "c_str (char_array 10 ''OFF'') = Inr (chars ''OFF'')" by code_simp
  then show ?thesis
    by (auto simp: control_wf_def control_boot_def initial_control_state_def less_2_cases_iff char_array_def)
qed

lemma is_off_wf:
  assumes "control_wf st" and "i < 2"
  shows "is_off i st = Inr (text_of i st = Inr (chars ''OFF''))"
  using assms on_off by (auto simp: is_off_def strcmp_eq_def control_wf_def literal_def)

lemma set_text_ok:
  assumes "length d = 10" and "s = ''ON'' \<or> s = ''OFF''"
  shows "\<exists>d'. set_text s d = Inr d' \<and> length d' = 10 \<and> c_str d' = Inr (chars s)"
proof -
  have z: "0 \<notin> set (chars s)" and len: "length s \<le> 3" using assms(2) by (auto simp: zero_in_chars)
  have tw: "takeWhile (\<lambda>b. b \<noteq> 0) (take (length s + 1) (literal s)) = chars s"
    using z by (simp add: literal_def) (subst takeWhile_append2, auto)
  have "strncpy d (literal s) (length s + 1) = Inr (overlay d 0 (chars s @ [0]))"
    using assms(1) len tw by (simp add: strncpy_def Let_def literal_def)
  moreover have "overlay d 0 (chars s @ [0]) = chars s @ 0 # drop (length s + 1) d"
    by (simp add: overlay_def)
  ultimately have "set_text s d = Inr ((chars s @ 0 # drop (length s + 1) d)[length s + 1 := 0])"
    using assms(1) len by (simp add: set_text_def Let_def buf_put_def)
  moreover have "(chars s @ 0 # drop (length s + 1) d)[length s + 1 := 0] =
      chars s @ 0 # (drop (length s + 1) d)[0 := 0]"
    by (simp add: list_update_append)
  ultimately show ?thesis using assms(1) len z by auto
qed

lemma put_text_ok:
  assumes wf: "control_wf st" and i: "i < 2" and s: "s = ''ON'' \<or> s = ''OFF''"
  shows "\<exists>ccs. put_text i s st = Inr (st\<lparr>current_control_state := ccs\<rparr>) \<and>
    control_wf (st\<lparr>current_control_state := ccs\<rparr>) \<and> c_str (topic_data (ccs ! i)) = Inr (chars s) \<and>
    (\<forall>j < 2. j \<noteq> i \<longrightarrow> ccs ! j = current_control_state st ! j)"
proof -
  let ?t = "current_control_state st"
  have len: "length (topic_data (?t ! i)) = 10" "length ?t = 2"
    using wf i control_wf_length by (auto simp: control_wf_def)
  obtain d where d: "set_text s (topic_data (?t ! i)) = Inr d" "length d = 10" "c_str d = Inr (chars s)"
    using set_text_ok [OF len(1) s] by blast
  let ?c = "?t[i := (?t ! i)\<lparr>topic_data := d\<rparr>]"
  have "put_text i s st = Inr (st\<lparr>current_control_state := ?c\<rparr>)" using d by (simp add: put_text_def)
  moreover have "map fn ?c = map fn ?t" 
    using i len list_update_id [of "map fn ?t" i] by (simp add: map_update)
  then have "control_wf (st\<lparr>current_control_state := ?c\<rparr>)"
    using wf d s i len unfolding control_wf_def by (auto simp: nth_list_update)
  ultimately show ?thesis using d(3) i len by auto
qed

text \<open>What does not concern the texts.\<close>

lemma control_wf_cong: "current_control_state st' = current_control_state st \<Longrightarrow> control_wf st \<Longrightarrow> control_wf st'"
  by (simp add: control_wf_def)

section \<open>The pump\<close>

abbreviation pump :: "control_state \<Rightarrow> bool" where
  "pump st \<equiv> pins st WATER_PIN"

text \<open>Text and pin agree.\<close>

definition shows_pump :: "control_state \<Rightarrow> bool" where
  "shows_pump st \<longleftrightarrow> control_wf st \<and> (pump st \<longleftrightarrow> text_of 0 st = Inr (chars ''ON''))"

lemma shows_pump_off: "shows_pump st \<Longrightarrow> is_off 0 st = Inr (\<not> pump st)"
proof -
  assume s: "shows_pump st"
  then have "text_of 0 st = Inr (chars ''ON'') \<or> text_of 0 st = Inr (chars ''OFF'')"
    by (simp add: shows_pump_def control_wf_def)
  then show ?thesis using s is_off_wf [of st 0] on_off(1) by (auto simp: shows_pump_def)
qed

lemma water_on_ok:
  assumes "control_wf st" and "0 \<le> water_pump_alarm st"
  shows "\<exists>st'. water_on 0 st = Inr st' \<and> shows_pump st' \<and> pump st' \<and> pending st' = pending st \<and>
    water_pump_alarm st' = water_pump_alarm st \<and> water_pump_mutex st' = water_pump_mutex st"
proof -
  have "control_wf (gpio_put WATER_PIN True st)" using assms(1) by (auto simp: gpio_put_def intro: control_wf_cong)
  from put_text_ok [OF this, of 0 "''ON''"] show ?thesis
    using assms(2) by (auto simp: water_on_def gpio_put_def shows_pump_def)
qed

lemma water_off_ok:
  assumes "control_wf st"
  shows "\<exists>st'. water_off 0 st = Inr st' \<and> shows_pump st' \<and> \<not> pump st' \<and> pending st' = pending st \<and>
    water_pump_alarm st' = water_pump_alarm st \<and> water_pump_mutex st' = water_pump_mutex st"
proof -
  have "control_wf (gpio_put WATER_PIN False st)" using assms by (auto simp: gpio_put_def intro: control_wf_cong)
  from put_text_ok [OF this, of 0 "''OFF''"] show ?thesis
    using on_off(1) by (auto simp: water_off_def gpio_put_def shows_pump_def)
qed

lemma water_cancel_keeps [simp]:
  "current_control_state (water_cancel st) = current_control_state st"
  "pins (water_cancel st) = pins st" "water_pump_mutex (water_cancel st) = water_pump_mutex st"
  "water_pump_alarm (water_cancel st) = 0"
  by (simp_all add: water_cancel_def)

lemma water_arm_keeps [simp]:
  "current_control_state (water_arm a st) = current_control_state st"
  "pins (water_arm a st) = pins st" "water_pump_mutex (water_arm a st) = water_pump_mutex st"
  "water_pump_alarm (water_arm a st) = a"
  by (simp_all add: water_arm_def)

lemma shows_pump_cong:
  "current_control_state st' = current_control_state st \<Longrightarrow> pins st' = pins st \<Longrightarrow> shows_pump st' = shows_pump st"
  by (simp add: shows_pump_def control_wf_def)

lemma wf_simps [simp]:
  "control_wf (water_cancel st) = control_wf st" "control_wf (water_arm a st) = control_wf st"
  "control_wf (st\<lparr>water_pump_mutex := b\<rparr>) = control_wf st" "control_wf (st\<lparr>pending := l\<rparr>) = control_wf st"
  "shows_pump (water_cancel st) = shows_pump st" "shows_pump (water_arm a st) = shows_pump st"
  "shows_pump (st\<lparr>water_pump_mutex := b\<rparr>) = shows_pump st" "shows_pump (st\<lparr>pending := l\<rparr>) = shows_pump st"
  by (auto simp: shows_pump_def control_wf_def)

text \<open>The alarms in the pool: none, or the one the variable names.\<close>

definition alarm_ok :: "control_state \<Rightarrow> bool" where
  "alarm_ok st \<longleftrightarrow> pending st = [] \<or> (0 < water_pump_alarm st \<and> pending st = [water_pump_alarm st])"

lemma water_cancel_pending: "alarm_ok st \<Longrightarrow> pending (water_cancel st) = []"
  by (auto simp: alarm_ok_def water_cancel_def)

text \<open>One undisturbed call.\<close>

lemma set_water_ok:
  assumes s: "shows_pump st" and m: "\<not> water_pump_mutex st" and a: "alarm_ok st" and i: "aid \<noteq> 0"
  shows "\<exists>st'. set_water aid 0 st = Inr st' \<and> shows_pump st' \<and> \<not> water_pump_mutex st' \<and> alarm_ok st' \<and>
    (pump st' \<longleftrightarrow> \<not> pump st \<and> 0 < aid) \<and> (pump st' \<longrightarrow> pending st' = [aid] \<and> water_pump_alarm st' = aid) \<and>
    (pump st \<longrightarrow> pending st' = [])"
proof -
  define st1 where "st1 = water_cancel (st\<lparr>water_pump_mutex := True\<rparr>)"
  have k: "shows_pump st1" "pump st1 = pump st" "pending st1 = []" "water_pump_alarm st1 = 0"
    using s a water_cancel_pending [of "st\<lparr>water_pump_mutex := True\<rparr>"]
    by (auto simp: st1_def alarm_ok_def shows_pump_def control_wf_def)
  have off: "is_off 0 st1 = Inr (\<not> pump st)" using shows_pump_off [OF k(1)] k(2) by simp
  have wf: "control_wf st1" using k(1) by (simp add: shows_pump_def)
  have sw: "set_water aid 0 st = bindE (if \<not> pump st then water_on 0 (water_arm aid st1) else water_off 0 st1)
      (\<lambda>st2. Inr (st2\<lparr>water_pump_mutex := False\<rparr>))"
    using m off by (simp add: set_water_def Let_def st1_def)
  consider "pump st" | "\<not> pump st" "0 < aid" | "\<not> pump st" "aid < 0" using i by linarith
  then show ?thesis
  proof cases
    case 1
    obtain st2 where "water_off 0 st1 = Inr st2" "shows_pump st2" "\<not> pump st2" "pending st2 = []"
      using water_off_ok [OF wf] k by auto
    then show ?thesis using 1 sw shows_pump_cong [of "st2\<lparr>water_pump_mutex := False\<rparr>" st2]
      by (auto simp: alarm_ok_def)
  next
    case 2
    have "control_wf (water_arm aid st1)" using wf by simp
    then obtain st2 where "water_on 0 (water_arm aid st1) = Inr st2" "shows_pump st2" "pump st2"
      "pending st2 = pending (water_arm aid st1)" "water_pump_alarm st2 = aid"
      using water_on_ok [of "water_arm aid st1"] 2 by auto
    moreover have "pending (water_arm aid st1) = [aid]" using 2 k by (simp add: water_arm_def)
    ultimately show ?thesis using 2 sw shows_pump_cong [of "st2\<lparr>water_pump_mutex := False\<rparr>" st2]
      by (auto simp: alarm_ok_def)
  next
    case 3
    then have "water_on 0 (water_arm aid st1) = Inr (water_arm aid st1)" by (simp add: water_on_def)
    moreover have "pending (water_arm aid st1) = []" using 3 k by (simp add: water_arm_def)
    ultimately show ?thesis using 3 k sw shows_pump_cong [of "(water_arm aid st1)\<lparr>water_pump_mutex := False\<rparr>" st1]
      by (auto simp: alarm_ok_def)
  qed
qed

text \<open>The light.\<close>

lemma set_light_ok:
  assumes wf: "control_wf s" and t: "pins s LIGHT_PIN \<longleftrightarrow> text_of 1 s = Inr (chars ''ON'')"
  shows "\<exists>s'. set_light 1 s = Inr s' \<and> control_wf s' \<and> pins s' = (pins s)(LIGHT_PIN := \<not> pins s LIGHT_PIN) \<and>
    (pins s' LIGHT_PIN \<longleftrightarrow> text_of 1 s' = Inr (chars ''ON'')) \<and> current_control_state s' ! 0 = current_control_state s ! 0 \<and>
    pending s' = pending s \<and> water_pump_alarm s' = water_pump_alarm s \<and> water_pump_mutex s' = water_pump_mutex s"
proof -
  have tx: "text_of 1 s = Inr (chars ''ON'') \<or> text_of 1 s = Inr (chars ''OFF'')"
    using wf unfolding control_wf_def by (metis one_less_numeral_iff semiring_norm(76))
  then have o: "is_off 1 s = Inr (\<not> pins s LIGHT_PIN)"
    using is_off_wf [OF wf, of 1] t on_off(1) by auto
  have g: "control_wf (gpio_put LIGHT_PIN b s)" for b using wf by (simp add: gpio_put_def control_wf_def)
  show ?thesis
    using put_text_ok [OF g, of 1 "''ON''" True] put_text_ok [OF g, of 1 "''OFF''" False] o on_off(1)
    by (cases "pins s LIGHT_PIN") (auto simp: set_light_def gpio_put_def)
qed

text \<open>No command changes a topic's name.\<close>

abbreviation topic_names :: "control_state \<Rightarrow> bytes list" where
  "topic_names st \<equiv> map ct_name (current_control_state st)"

lemma put_text_names: "put_text i s st = Inr st' \<Longrightarrow> topic_names st' = topic_names st"
proof -
  have "ct_name (xs[i := (xs ! i)\<lparr>topic_data := d\<rparr>] ! j) = ct_name (xs ! j)" if "j < length xs" for xs :: "control_topic list" and d j
    using that by (cases "i = j") simp_all
  then have "map ct_name (xs[i := (xs ! i)\<lparr>topic_data := d\<rparr>]) = map ct_name xs" for xs :: "control_topic list" and d
    by (auto intro: nth_equalityI)
  then show "put_text i s st = Inr st' \<Longrightarrow> topic_names st' = topic_names st" by (auto simp: put_text_def)
qed

lemma command_names: "server_command_handler aid tn d n st = Inr st' \<Longrightarrow> topic_names st' = topic_names st"
  by (auto simp: server_command_handler_def set_water_def set_light_def water_on_def water_off_def gpio_put_def Let_def
      split: if_splits control_command.splits dest!: put_text_names)

lemma alarm_names: "water_alarm_callback new_id aid st = Inr (r, st') \<Longrightarrow> topic_names st' = topic_names st"
  by (auto simp: water_alarm_callback_def set_water_def water_on_def water_off_def gpio_put_def Let_def
      split: if_splits dest!: put_text_names)

text \<open>Between commands: pins and texts agree, the mutex is free, and a running pump has its alarm.\<close>

definition control_inv :: "control_state \<Rightarrow> bool" where
  "control_inv st \<longleftrightarrow> shows_pump st \<and> (pins st LIGHT_PIN \<longleftrightarrow> text_of 1 st = Inr (chars ''ON'')) \<and>
     \<not> water_pump_mutex st \<and> alarm_ok st \<and> (pump st \<longrightarrow> pending st = [water_pump_alarm st]) \<and>
     topic_names st = map ct_name initial_control_state"

lemma set_water_light:
  assumes "set_water aid 0 st = Inr st'"
  shows "current_control_state st' ! 1 = current_control_state st ! 1" "pins st' LIGHT_PIN = pins st LIGHT_PIN"
  using assms
  by (auto simp: set_water_def Let_def water_on_def water_off_def put_text_def gpio_put_def LIGHT_PIN_def WATER_PIN_def split: if_splits)

lemma boot_inv: "control_inv control_boot"
proof -
  have "text_of 0 control_boot = Inr (chars ''OFF'')" "text_of 1 control_boot = Inr (chars ''OFF'')" by code_simp+
  then show ?thesis using boot_wf on_off(1)
    by (simp add: control_inv_def shows_pump_def alarm_ok_def) (simp add: control_boot_def)
qed

lemma water_command_ok:
  assumes "control_inv st" and "aid \<noteq> 0"
  shows "\<exists>st'. server_command_handler aid 0 d n st = Inr st' \<and> control_inv st' \<and> (pump st' \<longleftrightarrow> \<not> pump st \<and> 0 < aid)"
proof -
  have i: "shows_pump st" "\<not> water_pump_mutex st" "alarm_ok st" using assms(1) by (simp_all add: control_inv_def)
  then have h: "server_command_handler aid 0 d n st = set_water aid 0 st"
    using control_wf_length [of st] control_wf_fn [of st] by (simp add: server_command_handler_def shows_pump_def)
  obtain st' where st': "set_water aid 0 st = Inr st'" "shows_pump st'" "\<not> water_pump_mutex st'" "alarm_ok st'"
    "pump st' \<longleftrightarrow> \<not> pump st \<and> 0 < aid" "pump st' \<longrightarrow> pending st' = [aid] \<and> water_pump_alarm st' = aid"
    using set_water_ok [OF i assms(2)] by blast
  moreover have "topic_names st' = topic_names st" using command_names [of aid 0 d n] h st'(1) by simp
  ultimately show ?thesis using h set_water_light [OF st'(1)] assms(1) by (auto simp: control_inv_def)
qed

lemma light_command_ok:
  assumes "control_inv st"
  shows "\<exists>st'. server_command_handler aid 1 d n st = Inr st' \<and> control_inv st' \<and> pump st' = pump st"
proof -
  have wf: "control_wf st" using assms by (simp add: control_inv_def shows_pump_def)
  then have h: "server_command_handler aid 1 d n st = set_light 1 st"
    using control_wf_length [of st] control_wf_fn [of st] by (simp add: server_command_handler_def)
  obtain st' where st': "set_light 1 st = Inr st'" "control_wf st'" "pins st' = (pins st)(LIGHT_PIN := \<not> pins st LIGHT_PIN)"
    "pins st' LIGHT_PIN \<longleftrightarrow> text_of 1 st' = Inr (chars ''ON'')" "current_control_state st' ! 0 = current_control_state st ! 0"
    "pending st' = pending st" "water_pump_alarm st' = water_pump_alarm st" "water_pump_mutex st' = water_pump_mutex st"
    using set_light_ok [OF wf] assms by (auto simp: control_inv_def)
  moreover have "topic_names st' = topic_names st" using command_names [of aid 1 d n] h st'(1) by simp
  moreover have "pump st' = pump st" using st'(3) by (simp add: WATER_PIN_def LIGHT_PIN_def)
  ultimately show ?thesis using h assms
    by (intro exI [of _ st']) (simp add: control_inv_def shows_pump_def alarm_ok_def)
qed

section \<open>Invariant of the interleaving\<close>

fun winv :: "bool \<Rightarrow> wstate \<Rightarrow> bool" where
  "winv late (p, st) \<longleftrightarrow> shows_pump st \<and> (water_pump_mutex st \<longleftrightarrow> p \<noteq> Idle) \<and> alarm_ok st \<and>
     (case p of
        Cancelled \<Rightarrow> pending st = [] \<and> water_pump_alarm st = 0
      | Armed \<Rightarrow> \<not> pump st \<and> (late \<or> 0 < water_pump_alarm st \<and> pending st = [water_pump_alarm st] \<or> water_pump_alarm st < 0)
      | _ \<Rightarrow> (pending st \<noteq> [] \<longrightarrow> pump st) \<and> (p \<noteq> Entered \<longrightarrow> pump st \<longrightarrow> late \<or> pending st = [water_pump_alarm st]))"

lemma fire_busy:
  assumes "water_pump_mutex st" and "water_alarm_callback new_id aid st = Inr (r, st')"
  shows "st' = st\<lparr>pending := removeAll aid (pending st)\<rparr>"
  using assms by (simp add: water_alarm_callback_def set_water_def)

lemma fire_idle:
  assumes "shows_pump st" and "\<not> water_pump_mutex st" and "alarm_ok st" and "aid \<in> set (pending st)" and "new_id \<noteq> 0"
  shows "\<exists>st'. water_alarm_callback new_id aid st = Inr (0, st') \<and> shows_pump st' \<and> \<not> water_pump_mutex st' \<and> alarm_ok st' \<and>
    (pump st' \<longleftrightarrow> \<not> pump st \<and> 0 < new_id) \<and> (pump st' \<longrightarrow> pending st' = [water_pump_alarm st']) \<and>
    (pump st \<longrightarrow> pending st' = [])"
proof -
  let ?st = "st\<lparr>pending := removeAll aid (pending st)\<rparr>"
  have "alarm_ok ?st" "shows_pump ?st" using assms(1,3,4) by (auto simp: alarm_ok_def shows_pump_def control_wf_def)
  from set_water_ok [OF this(2) _ this(1) assms(5)] assms(2) show ?thesis
    by (auto simp: water_alarm_callback_def)
qed

lemma alarm_callback_inv:
  assumes "control_inv st" and "aid \<in> set (pending st)" and "new_id \<noteq> 0"
  shows "\<exists>st'. water_alarm_callback new_id aid st = Inr (0, st') \<and> control_inv st' \<and> (pump st \<longrightarrow> \<not> pump st')"
proof -
  have i: "shows_pump st" "\<not> water_pump_mutex st" "alarm_ok st" using assms(1) by (simp_all add: control_inv_def)
  obtain st' where st': "water_alarm_callback new_id aid st = Inr (0, st')" "shows_pump st'" "\<not> water_pump_mutex st'" "alarm_ok st'"
    "pump st' \<longleftrightarrow> \<not> pump st \<and> 0 < new_id" "pump st' \<longrightarrow> pending st' = [water_pump_alarm st']"
    using fire_idle [OF i assms(2,3)] by blast
  then have "set_water new_id 0 (st\<lparr>pending := removeAll aid (pending st)\<rparr>) = Inr st'" by (auto simp: water_alarm_callback_def)
  from set_water_light [OF this] alarm_names [OF st'(1)] st' assms(1) show ?thesis by (auto simp: control_inv_def)
qed

text \<open>A running pump is stopped by the next call, whatever the pool would answer.\<close>

lemma set_water_stops:
  assumes "shows_pump st" "\<not> water_pump_mutex st" "alarm_ok st" "pump st"
  shows "\<exists>st'. set_water aid 0 st = Inr st' \<and> shows_pump st' \<and> \<not> water_pump_mutex st' \<and> \<not> pump st' \<and> pending st' = []"
proof -
  have "set_water aid 0 st = set_water 1 0 st"
    using shows_pump_off [of "water_cancel (st\<lparr>water_pump_mutex := True\<rparr>)"] assms by (simp add: set_water_def Let_def)
  then show ?thesis using set_water_ok [OF assms(1-3), of 1] assms(4) by auto
qed

lemma fire_stops:
  assumes "shows_pump st" "\<not> water_pump_mutex st" "alarm_ok st" "pump st" "aid \<in> set (pending st)"
  shows "\<exists>st'. water_alarm_callback new_id aid st = Inr (0, st') \<and> shows_pump st' \<and> \<not> water_pump_mutex st' \<and> \<not> pump st' \<and> pending st' = []"
proof -
  have "alarm_ok (st\<lparr>pending := removeAll aid (pending st)\<rparr>)" using assms(3,5) by (auto simp: alarm_ok_def)
  from set_water_stops [OF _ _ this, of new_id] assms(1,2,4) show ?thesis by (auto simp: water_alarm_callback_def)
qed

lemma wstep_winv:
  assumes "wstep late s s'" and "winv late s"
  shows "winv late s'"
  using assms
proof (cases rule: wstep.cases)
  case (cancel st)
  then show ?thesis using assms(2) water_cancel_pending [of st]
    by (auto simp: alarm_ok_def)
next
  case (arm st aid)
  then have "\<not> pump st" using assms(2) shows_pump_off [of st] by auto
  then show ?thesis using arm assms(2)
    by (cases "0 < aid") (auto simp: alarm_ok_def water_arm_def shows_pump_def control_wf_def)
next
  case (on st st')
  have wf: "control_wf st" using on assms(2) by (simp add: shows_pump_def)
  show ?thesis
  proof (cases "0 \<le> water_pump_alarm st")
    case True
    then show ?thesis using on assms(2) water_on_ok [OF wf] by (auto simp: alarm_ok_def)
  next
    case False
    then have "st' = st" using on assms(2) by (auto simp: water_on_def)
    then show ?thesis using on assms(2) False by (auto simp: alarm_ok_def)
  qed
next
  case (off st st')
  then show ?thesis using assms(2) water_off_ok [of st] by (auto simp: alarm_ok_def shows_pump_def)
next
  case (fire aid st p new_id st')
  show ?thesis
  proof (cases "p = Idle")
    case True
    then have "pump st" using fire assms(2) by auto
    then show ?thesis using True fire assms(2) fire_stops [of st aid new_id] by (auto simp: alarm_ok_def)
  next
    case False
    then have st': "st' = st\<lparr>pending := removeAll aid (pending st)\<rparr>" using fire assms(2) fire_busy [of st new_id aid 0 st'] by auto
    then have "pending st' = []" using fire assms(2) by (auto simp: alarm_ok_def)
    then show ?thesis using st' fire False assms(2)
      by (cases p) (auto simp: alarm_ok_def)
  qed
qed (auto simp: alarm_ok_def)

lemma wreach_winv: "wreach late s \<Longrightarrow> winv late s"
proof (induction rule: wreach.induct)
  case start
  have "text_of 0 control_boot = Inr (chars ''OFF'')" by code_simp
  then show ?case using boot_wf on_off(1)
    by (simp add: shows_pump_def alarm_ok_def) (simp add: control_boot_def)
next
  case (step s s')
  then show ?case using wstep_winv by blast
qed

text \<open>A command up to the arming of its alarm, and its end.\<close>

lemma armed_reachable:
  "\<exists>s. wreach late (Armed, s) \<and> control_wf s \<and> water_pump_mutex s \<and> pending s = [1] \<and> water_pump_alarm s = 1"
proof -
  let ?s1 = "control_boot\<lparr>water_pump_mutex := True\<rparr>"
  let ?s2 = "water_cancel ?s1"
  have b: "shows_pump control_boot" "\<not> pump control_boot" "\<not> water_pump_mutex control_boot"
    using wreach_winv [OF wreach.start] by (auto simp: control_boot_def)
  have sp: "shows_pump ?s2" "\<not> pump ?s2" "pending ?s2 = []"
    using b by (simp_all, simp add: water_cancel_def control_boot_def)
  have "wreach late (Entered, ?s1)" using b(3) by (blast intro: wreach.intros wstep.enter)
  then have r2: "wreach late (Cancelled, ?s2)" by (blast intro: wreach.intros wstep.cancel)
  have "is_off 0 ?s2 = Inr True" using shows_pump_off [OF sp(1)] sp(2) by simp
  then have "wstep late (Cancelled, ?s2) (Armed, water_arm 1 ?s2)" using sp(3) by (intro wstep.arm) auto
  then have "wreach late (Armed, water_arm 1 ?s2)" using r2 by (blast intro: wreach.intros)
  moreover have "control_wf (water_arm 1 ?s2)" using b(1) by (simp add: shows_pump_def)
  moreover have "pending (water_arm 1 ?s2) = [1]" using sp(3) by (simp add: water_arm_def)
  ultimately show ?thesis by (intro exI [of _ "water_arm 1 ?s2"]) simp
qed

lemma command_finishes:
  "wreach late (Armed, s) \<Longrightarrow> water_on 0 s = Inr s' \<Longrightarrow> wreach late (Idle, s'\<lparr>water_pump_mutex := False\<rparr>)"
  by (blast intro: wreach.intros wstep.on wstep.leave)

text \<open>Without interrupts the pieces are \<open>set_water\<close>.\<close>

lemma set_water_steps:
  assumes "set_water aid 0 st = Inr st'" and "\<not> water_pump_mutex st" and "aid \<noteq> 0" and "aid \<notin> set (pending st)"
  shows "(wstep late)\<^sup>*\<^sup>* (Idle, st) (Idle, st')"
proof -
  let ?s1 = "st\<lparr>water_pump_mutex := True\<rparr>"
  let ?s2 = "water_cancel ?s1"
  have "wstep late (Idle, st) (Entered, ?s1)" "wstep late (Entered, ?s1) (Cancelled, ?s2)"
    using assms(2) by (auto intro: wstep.enter wstep.cancel)
  then have c: "(wstep late)\<^sup>*\<^sup>* (Idle, st) (Cancelled, ?s2)" by (meson converse_rtranclp_into_rtranclp rtranclp.rtrancl_refl)
  have p: "aid \<notin> set (pending ?s2)" using assms(4) by (auto simp: water_cancel_def)
  obtain off st2 where o: "is_off 0 ?s2 = Inr off" "st' = st2\<lparr>water_pump_mutex := False\<rparr>"
    "(if off then water_on 0 (water_arm aid ?s2) else water_off 0 ?s2) = Inr st2"
    using assms(1,2) by (auto simp: set_water_def Let_def)
  have "(wstep late)\<^sup>*\<^sup>* (Cancelled, ?s2) (Finishing, st2)"
  proof (cases off)
    case True
    then have "wstep late (Cancelled, ?s2) (Armed, water_arm aid ?s2)" "wstep late (Armed, water_arm aid ?s2) (Finishing, st2)"
      using o p assms(3) by (auto intro: wstep.arm wstep.on)
    then show ?thesis by (meson converse_rtranclp_into_rtranclp rtranclp.rtrancl_refl)
  next
    case False
    then have "wstep late (Cancelled, ?s2) (Finishing, st2)" using o by (auto intro: wstep.off)
    then show ?thesis by blast
  qed
  moreover have "wstep late (Finishing, st2) (Idle, st')" unfolding o(2) by (rule wstep.leave)
  ultimately show ?thesis using c by (meson rtranclp.rtrancl_into_rtrancl rtranclp_trans)
qed

section \<open>Properties\<close>

text \<open>The guard rests on timing. If a command is held up for longer than the watering time between
  arming its alarm and leaving the critical section, the alarm finds the mutex taken and is spent:
  the command then ends with the pump running and no alarm pending. The same happens when the call that adds the
  alarm returns zero, which the code takes for success.\<close>

theorem water_pump_late_alarm:
  "\<exists>st. wreach True (Idle, st) \<and> pump st \<and> pending st = []"
proof -
  obtain s3 where s3: "wreach True (Armed, s3)" "control_wf s3" "water_pump_mutex s3" "pending s3 = [1]" "water_pump_alarm s3 = 1"
    using armed_reachable by blast
  let ?s4 = "s3\<lparr>pending := []\<rparr>"
  have "water_alarm_callback 2 1 s3 = Inr (0, ?s4)" using s3(3,4) by (simp add: water_alarm_callback_def set_water_def)
  then have "wstep True (Armed, s3) (Armed, ?s4)" using s3(4) by (intro wstep.fire [of 1 _ _ _ 2]) auto
  then have r4: "wreach True (Armed, ?s4)" using s3(1) by (blast intro: wreach.intros)
  obtain s5 where s5: "water_on 0 ?s4 = Inr s5" "pump s5" "pending s5 = []"
    using water_on_ok [of ?s4] s3(2,5) by auto
  then show ?thesis using command_finishes [OF r4 s5(1)]
    by (intro exI [of _ "s5\<lparr>water_pump_mutex := False\<rparr>"]) simp
qed

text \<open>C10: When the pump is guarded, and exactly when not. For all interleavings of commands with the alarm interrupt,
  whatever the calls that add alarms return, between commands: text and pin agree; at most one alarm is pending, and only
  while the pump runs; when it fires it stops the pump, and so does the next command. If every command ends before the alarm it arms
  falls due (\<open>late\<close> is false), a running pump always has its alarm. This condition cannot be
  dropped: without it, and only without it, a state with the pump running and no alarm pending is reached, in which
  just another command stops the pump.\<close>

theorem water_pump_guarded:
  assumes "wreach late (Idle, st)"
  shows "(pump st \<longleftrightarrow> text_of 0 st = Inr (chars ''ON'')) \<and>
    (pending st = [] \<or> pump st \<and> pending st = [water_pump_alarm st]) \<and>
    (\<forall>aid \<in> set (pending st). \<forall>new_id. \<exists>st'. water_alarm_callback new_id aid st = Inr (0, st') \<and> \<not> pump st' \<and> pending st' = []) \<and>
    (pump st \<longrightarrow> (\<forall>aid. \<exists>st'. set_water aid 0 st = Inr st' \<and> \<not> pump st' \<and> pending st' = [])) \<and>
    (\<not> late \<longrightarrow> pump st \<longrightarrow> pending st = [water_pump_alarm st]) \<and>
    ((\<exists>s. wreach late (Idle, s) \<and> pump s \<and> pending s = []) \<longleftrightarrow> late)"
proof -
  have inv: "shows_pump s \<and> \<not> water_pump_mutex s \<and> alarm_ok s \<and> (pending s \<noteq> [] \<longrightarrow> pump s) \<and> (pump s \<longrightarrow> late \<or> pending s = [water_pump_alarm s])"
    if "wreach late (Idle, s)" for s using wreach_winv [OF that] by auto
  then have i: "shows_pump st" "\<not> water_pump_mutex st" "alarm_ok st" "pending st \<noteq> [] \<longrightarrow> pump st"
    "\<not> late \<longrightarrow> pump st \<longrightarrow> pending st = [water_pump_alarm st]" using assms by blast+
  have "\<exists>st'. water_alarm_callback n aid st = Inr (0, st') \<and> \<not> pump st' \<and> pending st' = []" if "aid \<in> set (pending st)" for n aid
    using fire_stops [OF i(1-3) _ that, of n] i(4) that by fastforce
  moreover have "(\<exists>s. wreach late (Idle, s) \<and> pump s \<and> pending s = []) \<longleftrightarrow> late"
    using inv water_pump_late_alarm by (cases late) fastforce+
  moreover have "pump st \<longrightarrow> (\<forall>aid. \<exists>st'. set_water aid 0 st = Inr st' \<and> \<not> pump st' \<and> pending st' = [])"
    using set_water_stops [OF i(1-3)] by metis
  moreover have "pump st \<longleftrightarrow> text_of 0 st = Inr (chars ''ON'')" using i(1) by (simp add: shows_pump_def)
  moreover have "pending st = [] \<or> pump st \<and> pending st = [water_pump_alarm st]" using i(3,4) by (auto simp: alarm_ok_def)
  ultimately show ?thesis using i(5) by (intro conjI ballI allI) blast+
qed

text \<open>A command on the second topic toggles the light, pin and text together, touches nothing of the
  pump, and two commands cancel out.\<close>

theorem light_toggles:
  assumes "control_wf st" and "pins st LIGHT_PIN \<longleftrightarrow> text_of 1 st = Inr (chars ''ON'')"
  shows "\<exists>st'. server_command_handler aid 1 data len st = Inr st' \<and> control_wf st' \<and>
    pins st' = (pins st)(LIGHT_PIN := \<not> pins st LIGHT_PIN) \<and>
    (pins st' LIGHT_PIN \<longleftrightarrow> text_of 1 st' = Inr (chars ''ON'')) \<and>
    current_control_state st' ! 0 = current_control_state st ! 0 \<and>
    pending st' = pending st \<and> water_pump_alarm st' = water_pump_alarm st \<and>
    (\<exists>st''. server_command_handler aid 1 data len st' = Inr st'' \<and> pins st'' = pins st)"
proof -
  have h: "server_command_handler aid 1 data len s = set_light 1 s" if "control_wf s" for s
    using control_wf_length [OF that] control_wf_fn [OF that] by (simp add: server_command_handler_def)
  obtain s1 where s1: "set_light 1 st = Inr s1" "control_wf s1" "pins s1 = (pins st)(LIGHT_PIN := \<not> pins st LIGHT_PIN)"
    "pins s1 LIGHT_PIN \<longleftrightarrow> text_of 1 s1 = Inr (chars ''ON'')" "current_control_state s1 ! 0 = current_control_state st ! 0"
    "pending s1 = pending st" "water_pump_alarm s1 = water_pump_alarm st"
    using set_light_ok [OF assms] by blast
  obtain s2 where "set_light 1 s1 = Inr s2" "pins s2 = pins st" using set_light_ok [OF s1(2,4)] s1(3) by auto
  then show ?thesis using s1 h [OF assms(1)] h [OF s1(2)] by auto
qed

theorem water_pump_guarded_witness:
  "\<exists>st aid st'. wreach False (Idle, st) \<and> pump st \<and> pending st = [aid] \<and>
     water_alarm_callback 7 aid st = Inr (0, st') \<and> \<not> pump st'"
proof -
  obtain s3 where s3: "wreach False (Armed, s3)" "control_wf s3" "water_pump_alarm s3 = 1"
    using armed_reachable by blast
  obtain s4 where s4: "water_on 0 s3 = Inr s4" "pump s4" using water_on_ok [of s3] s3 by auto
  have r: "wreach False (Idle, s4\<lparr>water_pump_mutex := False\<rparr>)" by (rule command_finishes [OF s3(1) s4(1)])
  have p: "pump (s4\<lparr>water_pump_mutex := False\<rparr>)" using s4(2) by simp
  from water_pump_guarded [OF r] p have a: "pending (s4\<lparr>water_pump_mutex := False\<rparr>) = [water_pump_alarm (s4\<lparr>water_pump_mutex := False\<rparr>)]"
    and f: "\<forall>aid \<in> set (pending (s4\<lparr>water_pump_mutex := False\<rparr>)). \<forall>n. \<exists>st'. water_alarm_callback n aid (s4\<lparr>water_pump_mutex := False\<rparr>) = Inr (0, st') \<and> \<not> pump st' \<and> pending st' = []"
    by blast+
  from f [rule_format, of _ 7] a show ?thesis using r p by (metis list.set_intros(1))
qed

theorem light_toggles_witness:
  "\<exists>st'. server_command_handler 3 1 [] 0 control_boot = Inr st' \<and> pins st' LIGHT_PIN"
proof -
  have "text_of 1 control_boot = Inr (chars ''OFF'')" by code_simp
  then have "pins control_boot LIGHT_PIN \<longleftrightarrow> text_of 1 control_boot = Inr (chars ''ON'')"
    using on_off(1) by (simp add: control_boot_def)
  from light_toggles [OF boot_wf this, of 3 "[]" 0] show ?thesis by (auto simp: control_boot_def)
qed

end
