(* ===== verification/Sensor_Queue.thy ===== *)
theory Sensor_Queue
  imports Sensors Mqtt_Correct Control_Topics
begin

text \<open>
  How readings go from the sensor core to the network core (\<open>src/main.c\<close>): into a queue, out of
  it into the table of current values, and from there to the web page and to the broker.

  The queue belongs to the Pico SDK and is an argument; the locale \<open>data_queue\<close> states what its
  documentation promises. An element is added by a call that blocks while the queue is full.
\<close>

section \<open>Model\<close>

record queue_entry_t =
  topic_index :: u8
  entry_data :: bytes

record 'q queue_ops =
  queue_add :: "queue_entry_t \<Rightarrow> 'q \<Rightarrow> 'q option"        \<comment> \<open>\<open>None\<close> while there is no room\<close>
  queue_try_remove :: "'q \<Rightarrow> (queue_entry_t \<times> 'q) option"

definition sensor_topics :: "bytes list" where
  "sensor_topics = map literal [''r_hum'', ''r_temp'', ''w_temp'', ''moist'']"

definition NUMBER_OF_SENSOR_TOPICS :: nat where
  "NUMBER_OF_SENSOR_TOPICS = length sensor_topics"

definition initial_sensor_data :: "queue_entry_t list" where
  "initial_sensor_data = replicate NUMBER_OF_SENSOR_TOPICS \<lparr> topic_index = 0, entry_data = replicate 128 0 \<rparr>"

definition pass_sensor_data_to_queue :: "'q queue_ops \<Rightarrow> 'q transfer_sensor_data_function" where
  "pass_sensor_data_to_queue ops str n tn q =
    bindO (doneE (assertE (128 \<ge> n))) (\<lambda>_.
    bindO (doneE (strncpy (replicate 128 0) str 128)) (\<lambda>d.
      Inr (queue_add ops \<lparr> topic_index = tn, entry_data = d \<rparr> q)))"

definition try_read_data_from_queue ::
  "'q queue_ops \<Rightarrow> 'q \<times> queue_entry_t list \<Rightarrow> (bool \<times> 'q \<times> queue_entry_t list) ub" where
  "try_read_data_from_queue ops = (\<lambda>(q, current_sensor_data).
    (case queue_try_remove ops q of
       None \<Rightarrow> Inr (False, q, current_sensor_data)
     | Some (temp, q') \<Rightarrow>
         bindE (buf_put current_sensor_data (unat (topic_index temp)) temp) (\<lambda>cur.
           Inr (True, q', cur))))"

text \<open>\<open>while (try_read_data_from_queue()) {}\<close>, with a bound on the rounds.\<close>

fun drain_queue ::
  "'q queue_ops \<Rightarrow> nat \<Rightarrow> 'q \<times> queue_entry_t list \<Rightarrow> ('q \<times> queue_entry_t list) run" where
  "drain_queue ops 0 st = Inr None"
| "drain_queue ops (Suc k) st =
    bindO (doneE (try_read_data_from_queue ops st)) (\<lambda>(more, st').
      if more then drain_queue ops k st' else Inr (Some st'))"

text \<open>The return value is the length of the text, also when less fits.\<close>

definition sensor_ssi_handler ::
  "queue_entry_t list \<Rightarrow> int \<Rightarrow> bytes \<Rightarrow> int \<Rightarrow> (u16 \<times> bytes) ub" where
  "sensor_ssi_handler current_sensor_data i_index pc_insert insert_len =
    (if 0 \<le> i_index \<and> i_index < int NUMBER_OF_SENSOR_TOPICS
     then bindE (c_str (entry_data (current_sensor_data ! nat i_index))) (\<lambda>s.
          bindE (snprintf pc_insert (nat insert_len) s) (\<lambda>buf. Inr (of_nat (length s), buf)))
     else Inr (0, pc_insert))"

text \<open>\<open>sprintf(buf, "%s/%s", a, b)\<close>\<close>

definition sprintf_topic :: "bytes \<Rightarrow> bytes \<Rightarrow> bytes \<Rightarrow> bytes ub" where
  "sprintf_topic buf a b =
    bindE (c_str a) (\<lambda>s. bindE (c_str b) (\<lambda>t.
      (let r = s @ [47] @ t @ [0] in
       if length r \<le> length buf then Inr (overlay buf 0 r) else Inl Out_Of_Bounds)))"

text \<open>The two loops of \<open>publish_topic_data\<close> have one body, run over pairs of a topic name and its data.
  \<open>env\<close> gives, per call of \<open>tls_mqtt_publish\<close>, what the allocations and the library answer.\<close>

fun publish_loop ::
  "(nat \<Rightarrow> (bool \<times> bool \<times> bool) \<times> err_t) \<Rightarrow> MQTT_CLIENT_T \<Rightarrow> (bytes \<times> bytes) list \<Rightarrow> nat \<Rightarrow> bytes \<Rightarrow> heap \<Rightarrow>
     (err_t \<times> mqtt_call list \<times> bytes \<times> heap) ub" where
  "publish_loop env state [] n full_topic h = Inr (ERR_OK, [], full_topic, h)"
| "publish_loop env state ((name, dat) # items) n full_topic h =
    bindE (sprintf_topic full_topic (tls_mqtt_client_id (settings state)) name) (\<lambda>topic.
    bindE (strlen dat) (\<lambda>len.
    bindE (tls_mqtt_publish (fst (env n)) (snd (env n)) state (Some topic) (Some dat) (of_nat len) QOS h) (\<lambda>(err, cs, h1).
      if err \<noteq> ERR_OK then Inr (err, cs, topic, h1)
      else bindE (publish_loop env state items (Suc n) topic h1) (\<lambda>(err', cs', topic', h2).
             Inr (err', cs @ cs', topic', h2)))))"

definition publish_topic_data ::
  "(nat \<Rightarrow> (bool \<times> bool \<times> bool) \<times> err_t) \<Rightarrow> bytes \<Rightarrow> MQTT_CLIENT_T \<Rightarrow> queue_entry_t list \<Rightarrow> control_topic list \<Rightarrow> heap \<Rightarrow>
     (err_t \<times> mqtt_call list \<times> heap) ub" where
  "publish_topic_data env full_topic state sensor_data control h =
    bindE (publish_loop env state (zip sensor_topics (map entry_data sensor_data)) 0 full_topic h) (\<lambda>(err, cs, topic, h1).
      if err \<noteq> ERR_OK then Inr (err, cs, h1)
      else bindE (publish_loop env state (map (\<lambda>c. (ct_name c, topic_data c)) control)
                    NUMBER_OF_SENSOR_TOPICS topic h1) (\<lambda>(err', cs', _, h2).
             Inr (err', cs @ cs', h2)))"

section \<open>The queue\<close>

definition store_entries :: "queue_entry_t list \<Rightarrow> queue_entry_t list \<Rightarrow> queue_entry_t list" where
  "store_entries es cur = fold (\<lambda>e c. c[unat (topic_index e) := e]) es cur"

text \<open>\<open>cur'\<close> is \<open>cur\<close> with the texts of the connected sensors of \<open>arr\<close> from position \<open>i\<close> on.\<close>

definition table_after :: "nat \<Rightarrow> 'w sensor_wrap_t list \<Rightarrow> queue_entry_t list \<Rightarrow> queue_entry_t list \<Rightarrow> bool" where
  "table_after i arr cur cur' \<longleftrightarrow> length cur' = length cur \<and>
    (\<forall>j < length arr. if disconnected (arr ! j) then cur' ! (i + j) = cur ! (i + j)
       else c_str (entry_data (cur' ! (i + j))) = c_str (sw_topic_data (arr ! j))) \<and>
    (\<forall>j. j < i \<or> i + length arr \<le> j \<longrightarrow> cur' ! j = cur ! j)"

lemma table_after_skip:
  assumes "table_after (Suc i) ss cur cur'" "disconnected s"
  shows "table_after i (s # ss) cur cur'"
proof -
  have "if disconnected ((s # ss) ! j) then cur' ! (i + j) = cur ! (i + j)
      else c_str (entry_data (cur' ! (i + j))) = c_str (sw_topic_data ((s # ss) ! j))" if "j < length (s # ss)" for j
    using assms that by (cases j) (auto simp: table_after_def)
  with assms show ?thesis by (simp add: table_after_def)
qed

lemma table_after_put:
  assumes "table_after (Suc i) ss (cur[i := e]) cur'" "\<not> disconnected s" "i < length cur"
    and "c_str (entry_data e) = c_str (sw_topic_data s)"
  shows "table_after i (s # ss) cur cur'"
proof -
  have "cur' ! i = e" using assms(1,3) by (auto simp: table_after_def)
  then have "if disconnected ((s # ss) ! j) then cur' ! (i + j) = cur ! (i + j)
      else c_str (entry_data (cur' ! (i + j))) = c_str (sw_topic_data ((s # ss) ! j))" if "j < length (s # ss)" for j
    using assms that by (cases j) (auto simp: table_after_def)
  with assms show ?thesis by (simp add: table_after_def)
qed

locale data_queue =
  fixes ops :: "'q queue_ops" and contents :: "'q \<Rightarrow> queue_entry_t list" and room :: nat
  assumes add_room: "length (contents q) < room \<Longrightarrow> \<exists>q'. queue_add ops e q = Some q' \<and> contents q' = contents q @ [e]"
    and add_full: "room \<le> length (contents q) \<Longrightarrow> queue_add ops e q = None"
    and remove_empty: "contents q = [] \<Longrightarrow> queue_try_remove ops q = None"
    and remove_next: "contents q = e # es \<Longrightarrow> \<exists>q'. queue_try_remove ops q = Some (e, q') \<and> contents q' = es"
begin

text \<open>Draining hands every element on, in order.\<close>

lemma drain_contents:
  assumes "\<forall>e \<in> set (contents q). unat (topic_index e) < length cur" "length (contents q) < k"
  shows "\<exists>q'. drain_queue ops k (q, cur) = Inr (Some (q', store_entries (contents q) cur)) \<and>
    contents q' = []"
  using assms
proof (induction "contents q" arbitrary: q cur k)
  case Nil
  then show ?case using remove_empty [of q] by (cases k) (auto simp: try_read_data_from_queue_def store_entries_def)
next
  case (Cons e es)
  obtain q1 where q1: "queue_try_remove ops q = Some (e, q1)" "contents q1 = es"
    using remove_next [of q e es] Cons.hyps(2) by auto
  obtain k' where k: "k = Suc k'" using Cons.prems(2) by (cases k) auto
  have "unat (topic_index e) < length cur" using Cons.prems(1) Cons.hyps(2) [symmetric] by simp
  moreover from Cons.hyps(1) [OF q1(2) [symmetric], of "cur[unat (topic_index e) := e]" k'] obtain q' where
    "drain_queue ops k' (q1, cur[unat (topic_index e) := e]) =
      Inr (Some (q', store_entries es (cur[unat (topic_index e) := e])))" "contents q' = []"
    using Cons.prems Cons.hyps(2) [symmetric] q1(2) k by auto
  ultimately show ?case using q1 k Cons.hyps(2) [symmetric]
    by (auto simp: try_read_data_from_queue_def store_entries_def)
qed

lemma pass_adds:
  assumes "length str = 128" "c_str str = Inr s" "length (contents q) < room"
  shows "\<exists>q' d. pass_sensor_data_to_queue ops str 128 i q = Inr (Some q') \<and>
    contents q' = contents q @ [\<lparr> topic_index = i, entry_data = d \<rparr>] \<and> length d = 128 \<and> c_str d = Inr s"
proof -
  have s: "s = takeWhile (\<lambda>b. b \<noteq> 0) str" "0 \<in> set str" using assms(2) by (auto simp: c_str_Inr_iff)
  obtain xs ys where "str = xs @ 0 # ys" "0 \<notin> set xs" using s(2) split_list_first by metis
  then have n: "length s < 128" using assms(1,2) by simp
  let ?d = "s @ replicate (128 - length s) 0"
  have "strncpy (replicate 128 0) str 128 = Inr ?d"
    using assms(1) s n by (simp add: strncpy_def Let_def overlay_def)
  moreover have "c_str ?d = Inr s"
  proof -
    have "replicate (128 - length s) (0 :: u8) = 0 # replicate (127 - length s) 0"
      using n by (simp flip: replicate_Suc)
    then show ?thesis using c_str_no_zero [OF assms(2)] by simp
  qed
  ultimately show ?thesis
    using add_room [OF assms(3), of "\<lparr> topic_index = i, entry_data = ?d \<rparr>"] n
    by (auto simp: pass_sensor_data_to_queue_def assertE_def)
qed

text \<open>A transfer adds one element per connected sensor; the table afterwards holds their texts.\<close>

lemma transfer_adds:
  assumes "list_all (\<lambda>s. length (sw_topic_data s) = 128 \<and> 0 \<in> set (sw_topic_data s)) arr"
    and "length (contents q) + length arr \<le> room" "i + length arr \<le> 256"
  shows "\<exists>q' es. transfer_loop (pass_sensor_data_to_queue ops) i arr q = Inr (Some q') \<and> contents q' = contents q @ es \<and>
    length es \<le> length arr \<and> (\<forall>e \<in> set es. unat (topic_index e) < i + length arr \<and> length (entry_data e) = 128 \<and> 0 \<in> set (entry_data e)) \<and>
    (\<forall>cur. i + length arr \<le> length cur \<longrightarrow> table_after i arr cur (store_entries es cur))"
  using assms
proof (induction arr arbitrary: i q)
  case Nil
  then show ?case by (intro exI [of _ q] exI [of _ "[]"]) (simp add: table_after_def store_entries_def)
next
  case (Cons s ss)
  show ?case
  proof (cases "disconnected s")
    case True
    obtain q' es where *: "transfer_loop (pass_sensor_data_to_queue ops) (Suc i) ss q = Inr (Some q')" "contents q' = contents q @ es"
      "length es \<le> length ss" "\<forall>e \<in> set es. unat (topic_index e) < Suc i + length ss \<and> length (entry_data e) = 128 \<and> 0 \<in> set (entry_data e)"
      "\<forall>cur. Suc i + length ss \<le> length cur \<longrightarrow> table_after (Suc i) ss cur (store_entries es cur)"
      using Cons.IH [of q "Suc i"] Cons.prems by auto
    with True show ?thesis
      by (intro exI [of _ q'] exI [of _ es]) (auto intro: table_after_skip)
  next
    case False
    obtain t where t: "c_str (sw_topic_data s) = Inr t" using Cons.prems(1) by (auto simp: c_str_def)
    from pass_adds [OF _ t, of q "of_nat i"] Cons.prems obtain q1 d where
      q1: "pass_sensor_data_to_queue ops (sw_topic_data s) 128 (of_nat i) q = Inr (Some q1)"
      "contents q1 = contents q @ [\<lparr> topic_index = of_nat i, entry_data = d \<rparr>]" "c_str d = Inr t" "length d = 128" by auto
    then have z: "0 \<in> set d" by (simp add: c_str_Inr_iff)
    define e where "e = \<lparr> topic_index = of_nat i, entry_data = d \<rparr>"
    have i: "unat (topic_index e) = i" using Cons.prems(3) by (simp add: unat_of_nat e_def)
    obtain q' es where *: "transfer_loop (pass_sensor_data_to_queue ops) (Suc i) ss q1 = Inr (Some q')" "contents q' = contents q1 @ es"
      "length es \<le> length ss" "\<forall>e \<in> set es. unat (topic_index e) < Suc i + length ss \<and> length (entry_data e) = 128 \<and> 0 \<in> set (entry_data e)"
      "\<forall>cur. Suc i + length ss \<le> length cur \<longrightarrow> table_after (Suc i) ss cur (store_entries es cur)"
      using Cons.IH [of q1 "Suc i"] Cons.prems q1(2) by auto
    have "table_after i (s # ss) cur (store_entries (e # es) cur)" if "i + length (s # ss) \<le> length cur" for cur
      using *(5) [rule_format, of "cur[i := e]"] that False t q1(3) i
      by (intro table_after_put [of i ss cur e]) (auto simp: store_entries_def e_def)
    with False * q1 i z show ?thesis
      by (intro exI [of _ q'] exI [of _ "e # es"]) (auto simp: e_def)
  qed
qed

text \<open>An element more than there is room for does not get in: the call waits for the other core.\<close>

lemma pass_blocks:
  assumes "length str = 128" "c_str str = Inr s" "room \<le> length (contents q)"
  shows "pass_sensor_data_to_queue ops str 128 i q = Inr None"
proof -
  have "s = takeWhile (\<lambda>b. b \<noteq> 0) str" using assms(2) by (simp add: c_str_Inr_iff)
  then have "length s \<le> 128" using length_takeWhile_le [of "\<lambda>b. b \<noteq> 0" str] assms(1) by simp
  then show ?thesis using assms add_full
    by (simp add: pass_sensor_data_to_queue_def strncpy_def Let_def assertE_def overlay_def)
qed

text \<open>So a transfer ends exactly when there is room for the connected sensors, and it adds one element for each.\<close>

lemma transfer_counts:
  assumes "list_all (\<lambda>s. length (sw_topic_data s) = 128 \<and> 0 \<in> set (sw_topic_data s)) arr" "length (contents q) \<le> room"
  shows "if length (contents q) + attached arr \<le> room
    then \<exists>q' es. transfer_loop (pass_sensor_data_to_queue ops) i arr q = Inr (Some q') \<and>
      contents q' = contents q @ es \<and> length es = attached arr
    else transfer_loop (pass_sensor_data_to_queue ops) i arr q = Inr None"
  using assms
proof (induction arr arbitrary: i q)
  case (Cons s ss)
  show ?case
  proof (cases "disconnected s")
    case True
    with Cons.IH [of q "Suc i"] Cons.prems show ?thesis by (simp split: if_split_asm)
  next
    case False
    obtain t where t: "length (sw_topic_data s) = 128" "c_str (sw_topic_data s) = Inr t" using Cons.prems by (auto simp: c_str_def)
    show ?thesis
    proof (cases "length (contents q) < room")
      case True
      from pass_adds [OF t True, of "of_nat i"] obtain q1 e where
        "pass_sensor_data_to_queue ops (sw_topic_data s) 128 (of_nat i) q = Inr (Some q1)" "contents q1 = contents q @ [e]" by blast
      with True False Cons.IH [of q1 "Suc i"] Cons.prems show ?thesis by (auto simp: Suc_le_eq split: if_split_asm)
    next
      case full: False
      with False pass_blocks [OF t, of q] show ?thesis by simp
    qed
  qed
qed auto

end

text \<open>The SDK's queue as its documentation describes it, with the ten elements \<open>main\<close> gives it.\<close>

definition sdk_queue :: "queue_entry_t list queue_ops" where
  "sdk_queue = \<lparr> queue_add = (\<lambda>e q. if length q < 10 then Some (q @ [e]) else None),
     queue_try_remove = (\<lambda>q. case q of [] \<Rightarrow> None | e # es \<Rightarrow> Some (e, es)) \<rparr>"

interpretation sdk: data_queue sdk_queue "\<lambda>q. q" 10
  by unfold_locales (auto simp: sdk_queue_def)

section \<open>Publishing\<close>

fun mqtt_publishes :: "mqtt_call list \<Rightarrow> (bytes \<times> bytes) list" where
  "mqtt_publishes [] = []"
| "mqtt_publishes (Mqtt_Publish tp pl n qos retain arg # cs) = (tp, pl) # mqtt_publishes cs"
| "mqtt_publishes (c # cs) = mqtt_publishes cs"

lemma mqtt_publishes_append [simp]: "mqtt_publishes (as @ bs) = mqtt_publishes as @ mqtt_publishes bs"
  by (induction as rule: mqtt_publishes.induct) auto

lemma sprintf_topic_ok:
  assumes "c_str a = Inr s" "c_str b = Inr t" "length s + length t + 2 \<le> length buf"
  shows "\<exists>buf'. sprintf_topic buf a b = Inr buf' \<and> length buf' = length buf \<and> c_str buf' = Inr (s @ 47 # t)"
proof -
  have "0 \<notin> set (s @ 47 # t)" using c_str_no_zero [OF assms(1)] c_str_no_zero [OF assms(2)] by simp
  then have "c_str ((s @ 47 # t) @ 0 # drop (length s + length t + 2) buf) = Inr (s @ 47 # t)"
    by (rule c_str_append_zero)
  with assms show ?thesis by (simp add: sprintf_topic_def Let_def overlay_def)
qed

text \<open>What is to be sent: a full topic and a text per item that has one.\<close>

definition messages :: "bytes \<Rightarrow> (bytes \<times> bytes) list \<Rightarrow> (bytes \<times> bytes) list" where
  "messages cid items = map (\<lambda>(nm, t). (cid @ 47 # nm @ [0], t)) (filter (\<lambda>(nm, t). t \<noteq> []) items)"

lemma publish_loop_ok:
  assumes "is_connected state" "c_str (tls_mqtt_client_id (settings state)) = Inr cid" "length cid \<le> 99"
    and "\<And>n. env n = ((True, True, True), ERR_OK)"
    and "list_all2 (\<lambda>(nb, db) (nm, t). c_str nb = Inr nm \<and> c_str db = Inr t \<and> length nm \<le> 7 \<and> length db \<le> 128) items texts"
    and "length full_topic = 108"
  shows "\<exists>cs ft h'. publish_loop env state items n full_topic h = Inr (ERR_OK, cs, ft, h') \<and> length ft = 108 \<and>
    mqtt_publishes cs = messages cid texts"
  using assms(5,6)
proof (induction items texts arbitrary: n full_topic h rule: list_all2_induct)
  case Nil
  then show ?case by (simp add: messages_def)
next
  case (Cons item items msg texts)
  obtain nb db nm t where item: "item = (nb, db)" "msg = (nm, t)" by (metis surj_pair)
  with Cons.hyps(1) have c: "c_str nb = Inr nm" "c_str db = Inr t" "length nm \<le> 7" "length db \<le> 128" by auto
  from sprintf_topic_ok [OF assms(2) c(1), of full_topic] assms(3) c(3) Cons.prems obtain ft where
    ft: "sprintf_topic full_topic (tls_mqtt_client_id (settings state)) nb = Inr ft" "length ft = 108"
    "c_str ft = Inr (cid @ 47 # nm)" by auto
  obtain xs ys where "db = xs @ 0 # ys" "0 \<notin> set xs"
    using c(2) split_list_first [of 0 db] by (auto simp: c_str_Inr_iff)
  then have tl: "length t \<le> length db" "take (length t) db = t" using c(2) by auto
  then have u: "unat (of_nat (length t) :: u16) = length t" using c(4) by (simp add: unat_of_nat)
  let ?cs = "if t = [] then [] else [Arch_Begin, Mqtt_Publish (cid @ 47 # nm @ [0]) t (of_nat (length t)) QOS 0 (brk h), Arch_End]"
  have "\<exists>h1. tls_mqtt_publish (True, True, True) ERR_OK state (Some ft) (Some db) (of_nat (length t)) QOS h = Inr (ERR_OK, ?cs, h1)"
  proof (cases "t = []")
    case True
    then show ?thesis using assms(1) by (simp add: tls_mqtt_publish_def)
  next
    case False
    then have "(of_nat (length t) :: u16) \<noteq> 0" using u by (metis length_0_conv unat_0)
    with False publish_success [OF assms(1) ft(3), of "of_nat (length t)" db ERR_OK QOS h] u tl assms(3) c(3)
    show ?thesis by simp
  qed
  then obtain h1 where "tls_mqtt_publish (True, True, True) ERR_OK state (Some ft) (Some db) (of_nat (length t)) QOS h = Inr (ERR_OK, ?cs, h1)" by blast
  moreover obtain cs ft' h' where "publish_loop env state items (Suc n) ft h1 = Inr (ERR_OK, cs, ft', h')" "length ft' = 108"
    "mqtt_publishes cs = messages cid texts" using Cons.IH [OF ft(2), of "Suc n" h1] by blast
  ultimately show ?case using ft(1) c(2) assms(4) [of n] item
    by (auto simp: strlen_def messages_def)
qed

lemma publish_topic_data_ok:
  assumes "is_connected state" "c_str (tls_mqtt_client_id (settings state)) = Inr cid"
    and "length (tls_mqtt_client_id (settings state)) = 100" "length full_topic = 108"
    and "\<And>n. env n = ((True, True, True), ERR_OK)"
    and "map (\<lambda>e. c_str (entry_data e)) sensor_data = map Inr [t0, t1, t2, t3]"
    and "list_all (\<lambda>e. length (entry_data e) = 128) sensor_data"
    and "map (\<lambda>c. c_str (ct_name c)) control = map Inr [chars ''water'', chars ''light'']"
    and "map (\<lambda>c. c_str (topic_data c)) control = map Inr [t4, t5]"
    and "list_all (\<lambda>c. length (topic_data c) = 10) control"
  shows "\<exists>cs h'. publish_topic_data env full_topic state sensor_data control h = Inr (ERR_OK, cs, h') \<and>
    mqtt_publishes cs = messages cid [(chars ''r_hum'', t0), (chars ''r_temp'', t1), (chars ''w_temp'', t2), (chars ''moist'', t3),
      (chars ''water'', t4), (chars ''light'', t5)]"
proof -
  obtain e0 e1 e2 e3 where e: "sensor_data = [e0, e1, e2, e3]"
    "c_str (entry_data e0) = Inr t0" "c_str (entry_data e1) = Inr t1" "c_str (entry_data e2) = Inr t2" "c_str (entry_data e3) = Inr t3"
    using assms(6) by (auto simp: map_eq_Cons_conv)
  obtain c0 c1 where c: "control = [c0, c1]" "c_str (ct_name c0) = Inr (chars ''water'')" "c_str (ct_name c1) = Inr (chars ''light'')"
    "c_str (topic_data c0) = Inr t4" "c_str (topic_data c1) = Inr t5"
    using assms(8,9) by (auto simp: map_eq_Cons_conv)
  obtain xs ys where "tls_mqtt_client_id (settings state) = xs @ 0 # ys" "0 \<notin> set xs"
    using assms(2) split_list_first [of 0 "tls_mqtt_client_id (settings state)"] by (auto simp: c_str_Inr_iff)
  then have cid: "length cid \<le> 99" using assms(2,3) by auto
  have lit: "c_str (literal s) = Inr (chars s)" if "0 \<notin> set (chars s)" for s using that by (simp add: literal_def)
  note z = zero_in_chars length_chars_eq
  have s1: "list_all2 (\<lambda>(nb, db) (nm, t). c_str nb = Inr nm \<and> c_str db = Inr t \<and> length nm \<le> 7 \<and> length db \<le> 128)
      (zip sensor_topics (map entry_data sensor_data))
      [(chars ''r_hum'', t0), (chars ''r_temp'', t1), (chars ''w_temp'', t2), (chars ''moist'', t3)]"
    using e assms(7) by (simp add: sensor_topics_def lit z)
  have s2: "list_all2 (\<lambda>(nb, db) (nm, t). c_str nb = Inr nm \<and> c_str db = Inr t \<and> length nm \<le> 7 \<and> length db \<le> 128)
      (map (\<lambda>c. (ct_name c, topic_data c)) control) [(chars ''water'', t4), (chars ''light'', t5)]"
    using c assms(10) by (simp add: z)
  from publish_loop_ok [where env = env and n = 0 and h = h, OF assms(1,2) cid assms(5) s1 assms(4)] obtain cs1 ft h1 where
    p1: "publish_loop env state (zip sensor_topics (map entry_data sensor_data)) 0 full_topic h = Inr (ERR_OK, cs1, ft, h1)"
    "length ft = 108" "mqtt_publishes cs1 = messages cid [(chars ''r_hum'', t0), (chars ''r_temp'', t1), (chars ''w_temp'', t2), (chars ''moist'', t3)]"
    by blast
  from publish_loop_ok [where env = env and n = NUMBER_OF_SENSOR_TOPICS and h = h1, OF assms(1,2) cid assms(5) s2 p1(2)] obtain cs2 ft2 h2 where
    p2: "publish_loop env state (map (\<lambda>c. (ct_name c, topic_data c)) control) NUMBER_OF_SENSOR_TOPICS ft h1 = Inr (ERR_OK, cs2, ft2, h2)"
    "mqtt_publishes cs2 = messages cid [(chars ''water'', t4), (chars ''light'', t5)]" by blast
  from p1 p2 show ?thesis by (simp add: publish_topic_data_def messages_def)
qed

section \<open>Properties\<close>

text \<open>C12: Readings reach the network core. Whatever queue with the documented behaviour connects the cores,
  a transfer into the empty queue with room for the sensors does not block, and draining it leaves
  in the table, for each connected sensor, exactly its latest text at its own index; the
  entries of the other topics are untouched and the queue is empty again.\<close>

theorem readings_reach_network:
  assumes "data_queue ops contents room" "contents q = []"
    and "list_all (\<lambda>s. length (sw_topic_data s) = 128 \<and> 0 \<in> set (sw_topic_data s)) arr"
    and "length arr \<le> room" "length arr \<le> NUMBER_OF_SENSOR_TOPICS" "length cur = NUMBER_OF_SENSOR_TOPICS"
  shows "\<exists>q1 q2 cur'. transfer_data_sensors (pass_sensor_data_to_queue ops) arr q = Inr (Some q1) \<and>
    drain_queue ops (Suc (length arr)) (q1, cur) = Inr (Some (q2, cur')) \<and> contents q2 = [] \<and> length cur' = length cur \<and>
    (\<forall>i < length cur. if i < length arr \<and> \<not> disconnected (arr ! i)
       then c_str (entry_data (cur' ! i)) = c_str (sw_topic_data (arr ! i)) else cur' ! i = cur ! i)"
proof -
  have n: "NUMBER_OF_SENSOR_TOPICS = 4" by (simp add: NUMBER_OF_SENSOR_TOPICS_def sensor_topics_def)
  obtain q1 es where q1: "transfer_loop (pass_sensor_data_to_queue ops) 0 arr q = Inr (Some q1)" "contents q1 = es"
    "length es \<le> length arr" "\<forall>e \<in> set es. unat (topic_index e) < length arr"
    "table_after 0 arr cur (store_entries es cur)"
    using data_queue.transfer_adds [OF assms(1,3), of q 0] assms(2,4-6) n by auto
  have "\<forall>e \<in> set (contents q1). unat (topic_index e) < length cur" "length (contents q1) < Suc (length arr)"
    using q1(2-4) assms(5,6) by auto
  from data_queue.drain_contents [OF assms(1) this] obtain q2 where
    "drain_queue ops (Suc (length arr)) (q1, cur) = Inr (Some (q2, store_entries es cur))" "contents q2 = []"
    using q1(2) by auto
  moreover have "if i < length arr \<and> \<not> disconnected (arr ! i)
       then c_str (entry_data (store_entries es cur ! i)) = c_str (sw_topic_data (arr ! i)) else store_entries es cur ! i = cur ! i" for i
    using q1(5) by (cases "i < length arr") (auto simp: table_after_def split: if_splits)
  moreover have "length (store_entries es cur) = length cur" using q1(5) by (simp add: table_after_def)
  ultimately show ?thesis using q1(1) unfolding transfer_data_sensors_def
    by (intro exI [of _ q1] exI [of _ q2] exI [of _ "store_entries es cur"]) blast
qed

text \<open>C26: Publishing sends what it should and nothing else: with the connection up and memory at hand, for
  every sensor and control topic that has a text, in order, one message with that text under the
  client identifier, a slash and the topic name; no identifier that fits its 100 bytes overflows
  the 108-byte topic buffer.\<close>

theorem publish_topic_data_correct:
  assumes "is_connected state" "c_str (tls_mqtt_client_id (settings state)) = Inr cid"
    and "length (tls_mqtt_client_id (settings state)) = 100" "length full_topic = 108"
    and "\<And>n. env n = ((True, True, True), ERR_OK)"
    and "map (\<lambda>e. c_str (entry_data e)) sensor_data = map Inr [t0, t1, t2, t3]"
    and "list_all (\<lambda>e. length (entry_data e) = 128) sensor_data"
    and "map (\<lambda>c. c_str (ct_name c)) control = map Inr [chars ''water'', chars ''light'']"
    and "map (\<lambda>c. c_str (topic_data c)) control = map Inr [t4, t5]"
    and "list_all (\<lambda>c. length (topic_data c) = 10) control"
  shows "\<exists>cs h'. publish_topic_data env full_topic state sensor_data control h = Inr (ERR_OK, cs, h') \<and>
    mqtt_publishes cs = messages cid [(chars ''r_hum'', t0), (chars ''r_temp'', t1), (chars ''w_temp'', t2), (chars ''moist'', t3),
      (chars ''water'', t4), (chars ''light'', t5)]"
  using assms by (rule publish_topic_data_ok)

text \<open>The web page shows the current text: for each sensor tag the handler puts exactly the table's text
  into a buffer it fits in and returns its length; for other tags it inserts nothing.\<close>

theorem ssi_inserts_text:
  assumes "length cur = NUMBER_OF_SENSOR_TOPICS" "\<forall>e \<in> set cur. length (entry_data e) = 128 \<and> 0 \<in> set (entry_data e)"
    and "length buf = nat insert_len" "128 \<le> insert_len"
  shows "if 0 \<le> i \<and> i < 4
    then \<exists>n buf' s. sensor_ssi_handler cur i buf insert_len = Inr (n, buf') \<and> c_str (entry_data (cur ! nat i)) = Inr s \<and>
      unat n = length s \<and> take (length s) buf' = s \<and> length buf' = length buf
    else sensor_ssi_handler cur i buf insert_len = Inr (0, buf)"
proof -
  have n: "NUMBER_OF_SENSOR_TOPICS = 4" by (simp add: NUMBER_OF_SENSOR_TOPICS_def sensor_topics_def)
  have "\<exists>n buf' s. sensor_ssi_handler cur i buf insert_len = Inr (n, buf') \<and> c_str (entry_data (cur ! nat i)) = Inr s \<and>
      unat n = length s \<and> take (length s) buf' = s \<and> length buf' = length buf" if i: "0 \<le> i" "i < 4"
  proof -
    have "cur ! nat i \<in> set cur" using i assms(1) n by auto
    then obtain s where s: "c_str (entry_data (cur ! nat i)) = Inr s" "length (entry_data (cur ! nat i)) = 128"
      "0 \<in> set (entry_data (cur ! nat i))" using assms(2) by (auto simp: c_str_def)
    from split_list_first [OF s(3)] obtain xs ys where "entry_data (cur ! nat i) = xs @ 0 # ys" "0 \<notin> set xs" by blast
    then have l: "length s < 128" using s by auto
    then have m: "length s < nat insert_len" using assms(4) by linarith
    have "unat (of_nat (length s) :: u16) = length s" using l by (simp add: unat_of_nat)
    with snprintf_ok [OF assms(3) m] s(1) i n m show ?thesis
      using assms(3) by (simp add: sensor_ssi_handler_def)
  qed
  moreover have "sensor_ssi_handler cur i buf insert_len = Inr (0, buf)" if "\<not> (0 \<le> i \<and> i < 4)"
    using that n by (auto simp: sensor_ssi_handler_def)
  ultimately show ?thesis by auto
qed

section \<open>Instances\<close>

definition demo_reading :: bytes where
  "demo_reading = char_array 128 ''{x}''"

definition demo_sensor :: "devices sensor_world sensor_wrap_t" where
  "demo_sensor = dht11_sensor\<lparr>disconnected := False, sw_topic_data := demo_reading\<rparr>"

lemma demo_reading_ok: "length demo_reading = 128" "c_str demo_reading = Inr (chars ''{x}'')" "0 \<in> set demo_reading"
  by (simp_all add: demo_reading_def char_array_def length_chars_eq) (simp_all add: numeral_eq_Suc zero_in_chars)

theorem readings_reach_network_witness:
  "\<exists>q1 q2 cur'. transfer_data_sensors (pass_sensor_data_to_queue sdk_queue) [demo_sensor] [] = Inr (Some q1) \<and>
    drain_queue sdk_queue (Suc (length [demo_sensor])) (q1, initial_sensor_data) = Inr (Some (q2, cur')) \<and> q2 = [] \<and>
    c_str (entry_data (cur' ! 0)) = Inr (chars ''{x}'')"
proof -
  have n: "length initial_sensor_data = NUMBER_OF_SENSOR_TOPICS" "NUMBER_OF_SENSOR_TOPICS = 4"
    by (simp_all add: initial_sensor_data_def NUMBER_OF_SENSOR_TOPICS_def sensor_topics_def)
  have "\<exists>q1 q2 cur'. transfer_data_sensors (pass_sensor_data_to_queue sdk_queue) [demo_sensor] [] = Inr (Some q1) \<and>
    drain_queue sdk_queue (Suc (length [demo_sensor])) (q1, initial_sensor_data) = Inr (Some (q2, cur')) \<and> q2 = [] \<and>
    length cur' = length initial_sensor_data \<and>
    (\<forall>i < length initial_sensor_data. if i < length [demo_sensor] \<and> \<not> disconnected ([demo_sensor] ! i)
       then c_str (entry_data (cur' ! i)) = c_str (sw_topic_data ([demo_sensor] ! i)) else cur' ! i = initial_sensor_data ! i)"
    by (rule readings_reach_network [OF sdk.data_queue_axioms refl]) (simp_all add: n demo_sensor_def demo_reading_ok)
  then obtain q1 q2 cur' where *: "transfer_data_sensors (pass_sensor_data_to_queue sdk_queue) [demo_sensor] [] = Inr (Some q1)"
    "drain_queue sdk_queue (Suc (length [demo_sensor])) (q1, initial_sensor_data) = Inr (Some (q2, cur'))" "q2 = []"
    "\<forall>i < length initial_sensor_data. if i < length [demo_sensor] \<and> \<not> disconnected ([demo_sensor] ! i)
       then c_str (entry_data (cur' ! i)) = c_str (sw_topic_data ([demo_sensor] ! i)) else cur' ! i = initial_sensor_data ! i" by blast
  from *(4) [rule_format, of 0] have "c_str (entry_data (cur' ! 0)) = Inr (chars ''{x}'')"
    by (simp add: n demo_sensor_def demo_reading_ok)
  with * show ?thesis by blast
qed

definition demo_table :: "queue_entry_t list" where
  "demo_table = initial_sensor_data[0 := \<lparr> topic_index = 0, entry_data = demo_reading \<rparr>]"

theorem publish_topic_data_correct_witness:
  "\<exists>cs h'. publish_topic_data (\<lambda>_. ((True, True, True), ERR_OK)) (replicate 108 0) demo_client demo_table initial_control_state demo_heap =
      Inr (ERR_OK, cs, h') \<and>
    mqtt_publishes cs = [(literal ''PicoWClient1/r_hum'', chars ''{x}''),
      (literal ''PicoWClient1/water'', chars ''OFF''), (literal ''PicoWClient1/light'', chars ''OFF'')]"
proof -
  have zeros: "c_str (replicate 128 0) = Inr []" by (simp add: numeral_eq_Suc c_str_def)
  have texts: "map (\<lambda>e. c_str (entry_data e)) demo_table = map Inr [chars ''{x}'', [], [], []]"
    "list_all (\<lambda>e. length (entry_data e) = 128) demo_table"
    using demo_reading_ok
    by (simp_all add: demo_table_def initial_sensor_data_def NUMBER_OF_SENSOR_TOPICS_def sensor_topics_def zeros)
  have ctl: "map (\<lambda>c. c_str (ct_name c)) initial_control_state = map Inr [chars ''water'', chars ''light'']"
    "map (\<lambda>c. c_str (topic_data c)) initial_control_state = map Inr [chars ''OFF'', chars ''OFF'']"
    "list_all (\<lambda>c. length (topic_data c) = 10) initial_control_state"
    by code_simp+
  have cl: "is_connected demo_client" "c_str (tls_mqtt_client_id (settings demo_client)) = Inr (chars ''PicoWClient1'')"
    "length (tls_mqtt_client_id (settings demo_client)) = 100"
    by (simp_all add: demo_client_def default_settings_def PICO_HOSTNAME_def) (code_simp+)
  from publish_topic_data_correct [where h = demo_heap, OF cl length_replicate refl texts ctl]
  show ?thesis by (simp add: messages_def literal_def chars_def)
qed

theorem ssi_inserts_text_witness:
  "\<exists>n buf'. sensor_ssi_handler demo_table 0 (replicate 192 7) 192 = Inr (n, buf') \<and> take 3 buf' = chars ''{x}''"
proof -
  have l: "length demo_table = NUMBER_OF_SENSOR_TOPICS" by (simp add: demo_table_def initial_sensor_data_def)
  have t: "\<forall>e \<in> set demo_table. length (entry_data e) = 128 \<and> 0 \<in> set (entry_data e)"
    using demo_reading_ok
    by (simp add: demo_table_def initial_sensor_data_def NUMBER_OF_SENSOR_TOPICS_def sensor_topics_def)
  have "entry_data (demo_table ! nat 0) = demo_reading"
    by (simp add: demo_table_def initial_sensor_data_def NUMBER_OF_SENSOR_TOPICS_def sensor_topics_def)
  with ssi_inserts_text [OF l t, of "replicate 192 7" 192 0] demo_reading_ok(2)
  show ?thesis by (auto simp: length_chars_eq numeral_3_eq_3)
qed

end
