(* ===== verification/Settings_Form.thy ===== *)
theory Settings_Form
  imports Runtime_Settings Http_Control
begin

text \<open>
  \<open>process_post_field\<close> of \<open>src/main.c\<close>: a pair of the submitted form is written into the
  settings object through the field table, at byte level. The abstract view of the object is
  a map from field names to strings.
\<close>

section \<open>Model\<close>

record settings_state =
  mqtt_settings :: tls_mqtt_settings
  settings_changed :: bool

text \<open>\<open>key\<close> and \<open>value\<close> are the C strings behind the two pointers, without their
  terminators.\<close>

fun post_field_loop ::
  "field_info_t list \<Rightarrow> bytes \<Rightarrow> bytes \<Rightarrow> settings_state \<Rightarrow> settings_state ub" where
  "post_field_loop [] key value st = Inr st"
| "post_field_loop (f # fs) key value st =
     bindE (strcmp_eq (field_name f) (key @ [0])) (\<lambda>same.
       if same
       then (let value_size = length value in
             if value_size < unat (fsize f) \<and> value_size > 0
             then bindE (memcpy (settings_bytes (mqtt_settings st)) (unat (offset f)) (value @ [0]) (value_size + 1))
                    (\<lambda>b. post_field_loop fs key value
                       (st\<lparr>mqtt_settings := settings_of_bytes b, settings_changed := True\<rparr>))
             else post_field_loop fs key value st)
       else post_field_loop fs key value st)"

definition process_post_field :: "bytes \<Rightarrow> bytes \<Rightarrow> settings_state \<Rightarrow> settings_state ub" where
  "process_post_field key value st =
     post_field_loop (take (unat get_settings_fields_count) get_settings_fields) key value st"

section \<open>Abstract view\<close>

definition member :: "tls_mqtt_settings \<Rightarrow> string \<Rightarrow> bytes" where
  "member s nm = slice (settings_bytes s) (offsetof nm) (sizeof_member nm)"

text \<open>The strings of the object, by field name.\<close>

definition view :: "tls_mqtt_settings \<Rightarrow> string \<Rightarrow> bytes" where
  "view s nm = takeWhile (\<lambda>b. b \<noteq> 0) (member s nm)"

definition acceptable :: "string \<Rightarrow> bytes \<Rightarrow> bool" where
  "acceptable nm v \<longleftrightarrow> nm \<in> set field_names \<and> v \<noteq> [] \<and> length v < sizeof_member nm"

definition state_wf :: "settings_state \<Rightarrow> bool" where
  "state_wf st \<longleftrightarrow> settings_wf (mqtt_settings st)"

definition set_member :: "tls_mqtt_settings \<Rightarrow> string \<Rightarrow> bytes \<Rightarrow> tls_mqtt_settings" where
  "set_member s nm v = settings_of_bytes (overlay (settings_bytes s) (offsetof nm) (v @ [0]))"

section \<open>Lemmas\<close>

lemma field_chars_no_zero: "nm \<in> set field_names \<Longrightarrow> 0 \<notin> set (chars nm)"
  by (auto simp: field_names_def zero_in_chars)

lemma field_bounds:
  "nm \<in> set field_names \<Longrightarrow> offsetof nm + sizeof_member nm \<le> 807 \<and> 4 \<le> offsetof nm"
  by (auto simp: field_names_def offsets sizes)

lemma field_disjoint:
  "nm \<in> set field_names \<Longrightarrow> nm' \<in> set field_names \<Longrightarrow> nm \<noteq> nm' \<Longrightarrow>
   offsetof nm + sizeof_member nm \<le> offsetof nm' \<or> offsetof nm' + sizeof_member nm' \<le> offsetof nm"
proof -
  have "\<forall>a \<in> set field_names. \<forall>b \<in> set field_names. a \<noteq> b \<longrightarrow>
      offsetof a + sizeof_member a \<le> offsetof b \<or> offsetof b + sizeof_member b \<le> offsetof a"
    by (simp add: field_names_def offsets sizes)
  then show "nm \<in> set field_names \<Longrightarrow> nm' \<in> set field_names \<Longrightarrow> nm \<noteq> nm' \<Longrightarrow> ?thesis" by blast
qed

lemma field_entry_unat:
  "nm \<in> set field_names \<Longrightarrow> unat (offset (FIELD_ENTRY nm)) = offsetof nm \<and>
     unat (fsize (FIELD_ENTRY nm)) = sizeof_member nm"
  using field_bounds [of nm] by (simp add: FIELD_ENTRY_def unat_of_nat)

lemma all_fields: "take (unat get_settings_fields_count) get_settings_fields = map FIELD_ENTRY field_names"
  by (simp add: get_settings_fields_count_def get_settings_fields_def field_names_def)

lemma strcmp_field:
  assumes "nm \<in> set field_names" and "0 \<notin> set key"
  shows "strcmp_eq (field_name (FIELD_ENTRY nm)) (key @ [0]) = Inr (chars nm = key)"
  using assms field_chars_no_zero by (simp add: strcmp_eq_def FIELD_ENTRY_def literal_def)

lemma set_member_wf:
  assumes "settings_wf s" and "acceptable nm v"
  shows "settings_wf (set_member s nm v)"
    and "settings_bytes (set_member s nm v) = overlay (settings_bytes s) (offsetof nm) (v @ [0])"
proof -
  have "length (overlay (settings_bytes s) (offsetof nm) (v @ [0])) = 812"
    using assms field_bounds [of nm] by (simp add: acceptable_def length_settings_bytes)
  then show "settings_wf (set_member s nm v)"
    and "settings_bytes (set_member s nm v) = overlay (settings_bytes s) (offsetof nm) (v @ [0])"
    by (simp_all add: set_member_def settings_of_bytes_wf settings_bytes_settings_of_bytes)
qed

lemma post_field_loop_other:
  assumes "set nms \<subseteq> set field_names" and "0 \<notin> set key" and "key \<notin> chars ` set nms"
  shows "post_field_loop (map FIELD_ENTRY nms) key v st = Inr st"
  using assms by (induction nms) (auto simp: strcmp_field)

lemma post_field_loop_names:
  assumes "set nms \<subseteq> set field_names" and "distinct nms" and "state_wf st"
    and "nm \<in> set nms"
  shows "post_field_loop (map FIELD_ENTRY nms) (chars nm) v st =
    Inr (if acceptable nm v
         then st\<lparr>mqtt_settings := set_member (mqtt_settings st) nm v, settings_changed := True\<rparr>
         else st)"
  using assms
proof (induction nms)
  case (Cons n ns)
  have n: "n \<in> set field_names" "nm \<in> set field_names" "0 \<notin> set (chars nm)"
    using Cons.prems field_chars_no_zero [of nm] by auto
  show ?case
  proof (cases "n = nm")
    case True
    then have out: "chars nm \<notin> chars ` set ns" using Cons.prems(2) by auto
    have rest: "post_field_loop (map FIELD_ENTRY ns) (chars nm) v st' = Inr st'" for st'
      using Cons.prems n out by (intro post_field_loop_other) auto
    have "length v < sizeof_member nm \<Longrightarrow> offsetof nm + Suc (length v) \<le> 812"
      using field_bounds [OF n(2)] by simp
    then show ?thesis
      using True n Cons.prems(3) rest
      by (auto simp: strcmp_field field_entry_unat acceptable_def set_member_def state_wf_def
          memcpy_def length_settings_bytes)
  next
    case False
    then show ?thesis using Cons n by (simp add: strcmp_field)
  qed
qed simp

lemma distinct_field_names: "distinct field_names"
  by (simp add: field_names_def)

lemma process_post_field_known:
  assumes "state_wf st" and "nm \<in> set field_names"
  shows "process_post_field (chars nm) v st =
    Inr (if acceptable nm v
         then st\<lparr>mqtt_settings := set_member (mqtt_settings st) nm v, settings_changed := True\<rparr>
         else st)"
  unfolding process_post_field_def all_fields
  using assms distinct_field_names by (intro post_field_loop_names) auto

lemma process_post_field_unknown:
  assumes "0 \<notin> set key" and "key \<notin> chars ` set field_names"
  shows "process_post_field key v st = Inr st"
  unfolding process_post_field_def all_fields using assms by (intro post_field_loop_other) auto

lemma view_set_member:
  assumes wf: "settings_wf s" and acc: "acceptable nm v" and z: "0 \<notin> set v"
    and nm': "nm' \<in> set field_names"
  shows "view (set_member s nm v) nm' = (if nm' = nm then v else view s nm')"
proof -
  let ?b = "settings_bytes s" and ?o = "offsetof nm" and ?w = "v @ [0]"
  have nm: "nm \<in> set field_names" and len: "length v < sizeof_member nm"
    using acc by (auto simp: acceptable_def)
  have fits: "?o + length ?w \<le> length ?b"
    using field_bounds [OF nm] len wf by (simp add: length_settings_bytes)
  have bytes: "settings_bytes (set_member s nm v) = overlay ?b ?o ?w"
    by (rule set_member_wf(2) [OF wf acc])
  show ?thesis
  proof (cases "nm' = nm")
    case True
    have "member (set_member s nm v) nm = ?w @ drop (length ?w) (slice ?b ?o (sizeof_member nm))"
      unfolding member_def bytes using len by (intro slice_overlay_prefix [OF fits]) simp
    then show ?thesis
      using True z by (simp add: view_def) (subst takeWhile_append2, auto)
  next
    case False
    have "member (set_member s nm v) nm' = member s nm'"
      unfolding member_def bytes using field_disjoint [OF nm nm'] False len fits
      by (auto intro: slice_overlay_after [OF fits] slice_overlay_before [OF fits])
    then show ?thesis using False by (simp add: view_def)
  qed
qed

lemma flags_set_member:
  assumes wf: "settings_wf s" and acc: "acceptable nm v"
  shows "flag (set_member s nm v) = flag s \<and> end_flag (set_member s nm v) = end_flag s"
proof -
  let ?b = "settings_bytes s" and ?o = "offsetof nm" and ?w = "v @ [0]"
  have nm: "nm \<in> set field_names" and len: "length v < sizeof_member nm"
    using acc by (auto simp: acceptable_def)
  have fits: "?o + length ?w \<le> 807" "4 \<le> ?o"
    using field_bounds [OF nm] len by auto
  have l: "length ?b = 812" using wf by (simp add: length_settings_bytes)
  have "slice (overlay ?b ?o ?w) 0 4 = slice ?b 0 4"
    using fits l by (intro slice_overlay_before) auto
  moreover have "slice (overlay ?b ?o ?w) 808 4 = slice ?b 808 4"
    using fits l by (intro slice_overlay_after) auto
  moreover have "settings_of_bytes ?b = s" by (rule settings_of_bytes_settings_bytes [OF wf])
  ultimately show ?thesis
    unfolding set_member_def settings_of_bytes_def
    by (metis tls_mqtt_settings.select_convs(1,11) settings_of_bytes_def)
qed

section \<open>The form as an update of the view\<close>

text \<open>The abstract state: the strings of the eight fields and whether anything was stored.\<close>

type_synonym settings_abs = "(string \<Rightarrow> bytes) \<times> bool"

definition settings_view :: "settings_state \<Rightarrow> settings_abs" where
  "settings_view st =
     (\<lambda>nm. if nm \<in> set field_names then view (mqtt_settings st) nm else [], settings_changed st)"

definition update_field :: "bytes \<Rightarrow> bytes \<Rightarrow> settings_abs \<Rightarrow> settings_abs" where
  "update_field k v = (\<lambda>(m, ch).
     case find (\<lambda>nm. chars nm = k) field_names of
       None \<Rightarrow> (m, ch)
     | Some nm \<Rightarrow> if acceptable nm v then (m(nm := v), True) else (m, ch))"


lemma update_field_known:
  assumes "nm \<in> set field_names"
  shows "update_field (chars nm) v (m, ch) = (if acceptable nm v then (m(nm := v), True) else (m, ch))"
proof -
  have "find (\<lambda>n. chars n = chars nm) field_names = Some nm"
    using assms by (auto simp: field_names_def)
  then show ?thesis by (simp add: update_field_def del: chars_inj)
qed

lemma update_field_unknown: "k \<notin> chars ` set field_names \<Longrightarrow> update_field k v s = s"
proof -
  assume "k \<notin> chars ` set field_names"
  then have "find (\<lambda>n. chars n = k) field_names = None" unfolding find_None_iff by blast
  then show ?thesis by (simp add: update_field_def split_beta)
qed

lemma process_post_field_refines:
  assumes "state_wf st" and "0 \<notin> set k" and "0 \<notin> set v"
  shows "\<exists>st'. process_post_field k v st = Inr st' \<and> state_wf st' \<and>
    settings_view st' = update_field k v (settings_view st)"
proof (cases "k \<in> chars ` set field_names")
  case False
  then show ?thesis using assms process_post_field_unknown [of k v st]
    by (simp add: update_field_unknown)
next
  case True
  then obtain nm where nm: "nm \<in> set field_names" "k = chars nm" by blast
  have "settings_view (st\<lparr>mqtt_settings := set_member (mqtt_settings st) nm v, settings_changed := True\<rparr>) =
      update_field k v (settings_view st)" if "acceptable nm v"
    using that nm assms view_set_member [of "mqtt_settings st" nm v]
    by (auto simp: settings_view_def update_field_known state_wf_def fun_eq_iff)
  then show ?thesis
    using process_post_field_known [OF assms(1) nm(1), of v] set_member_wf(1) [of "mqtt_settings st" nm v] nm assms(1)
    by (auto simp: update_field_known state_wf_def settings_view_def)
qed

interpretation settings_form: form_sink process_post_field state_wf settings_view update_field
  using process_post_field_refines by unfold_locales

section \<open>Properties\<close>

text \<open>C5: a form posted to a clean handler updates the eight settings strings exactly as the list of its
  pairs says, later pairs winning, whatever way the body is cut into segments; unknown names and
  values that are empty or do not fit are ignored, and the settings object keeps its layout.\<close>

theorem form_updates_settings:
  assumes "post_clean h" and "process_post_field_cb h = Some process_post_field"
    and "static_store_settings_flag h = Some b" and "unat ulen \<le> length uri"
    and "0 \<notin> set (concat cs)" and "length (concat cs) < MAX_POST_DATA_LEN"
    and "n \<le> int MAX_POST_DATA_LEN" and "state_wf st"
  shows "\<exists>st' h'. post_request n cs uri ulen (st, h) = Inr (ERR_OK, st', h') \<and> post_clean h' \<and>
    static_store_settings_flag h' = Some True \<and> state_wf st' \<and>
    settings_view st' = fold (\<lambda>(k, v). update_field k (firmware_value v)) (form_pairs (concat cs)) (settings_view st)"
  using assms by (rule settings_form.post_refines)

definition demo_httpd :: "settings_state http_control" where
  "demo_httpd = snd (snd (my_httpd_run [] 0 process_post_field False http_control_boot))"

definition demo_settings :: settings_state where
  "demo_settings = \<lparr> mqtt_settings = default_settings, settings_changed = False \<rparr>"

lemma demo_httpd_ok:
  "post_clean demo_httpd" "process_post_field_cb demo_httpd = Some process_post_field"
  "static_store_settings_flag demo_httpd = Some False" "state_wf demo_settings"
  by (simp_all add: demo_httpd_def post_clean_def my_httpd_run_def http_control_boot_def demo_settings_def
      state_wf_def default_settings_wf)

theorem form_updates_settings_witness:
  "\<exists>st' h'. post_request 20 [chars ''wifi_ssid=home&wi'', chars ''fi_pass=secret''] (replicate 64 0) 64
      (demo_settings, demo_httpd) = Inr (ERR_OK, st', h') \<and>
    fst (settings_view st') ''wifi_ssid'' = chars ''home'' \<and> fst (settings_view st') ''wifi_pass'' = chars ''secret''"
proof -
  let ?cs = "[chars ''wifi_ssid=home&wi'', chars ''fi_pass=secret'']"
  have p: "form_pairs (concat ?cs) = [(chars ''wifi_ssid'', chars ''home''), (chars ''wifi_pass'', chars ''secret'')]"
    by code_simp
  have u: "fst (fold (\<lambda>(k, v). update_field k (firmware_value v))
      [(chars ''wifi_ssid'', chars ''home''), (chars ''wifi_pass'', chars ''secret'')] m) nm =
      (if nm = ''wifi_pass'' then chars ''secret'' else if nm = ''wifi_ssid'' then chars ''home'' else fst m nm)" for m nm
    by (cases m) (simp add: update_field_known field_names_def acceptable_def sizes firmware_value_def, simp add: chars_def)
  have "\<exists>st' h'. post_request 20 ?cs (replicate 64 0) 64 (demo_settings, demo_httpd) = Inr (ERR_OK, st', h') \<and> post_clean h' \<and>
    static_store_settings_flag h' = Some True \<and> state_wf st' \<and>
    settings_view st' = fold (\<lambda>(k, v). update_field k (firmware_value v)) (form_pairs (concat ?cs)) (settings_view demo_settings)"
    by (rule form_updates_settings [OF demo_httpd_ok(1-3) _ _ _ _ demo_httpd_ok(4)])
      (simp_all add: chars_def MAX_POST_DATA_LEN_def)
  then show ?thesis unfolding p using u [of "settings_view demo_settings"] by force
qed

text \<open>Storing and loading on the abstract view.\<close>

lemma settings_stored:
  assumes "flash_dev_ok dev" and "state_wf st" and "212 \<le> length after"
  shows "\<exists>s' fl'. write_settings_in_flash dev after (Some (mqtt_settings st)) fl = Inr (Some s', fl') \<and>
    read_settings_from_flash fl' (Some any) = (0, Some s') \<and>
    fst (settings_view (st\<lparr>mqtt_settings := s'\<rparr>)) = fst (settings_view st) \<and>
    (\<forall>a < PICO_FLASH_SIZE_BYTES - NON_VOL_SEGMENT_SIZE. fl' a = fl a)"
proof -
  let ?s = "mqtt_settings st"
  have wf: "settings_wf ?s" using assms(2) by (simp add: state_wf_def)
  obtain fl' where w: "write_settings_in_flash dev after (Some ?s) fl = Inr (Some (stamped ?s), fl')"
    "read_from_non_volatile (of_nat sizeof_settings) fl' = settings_bytes (stamped ?s)"
    using write_settings_ok [OF assms(1) wf assms(3)] by blast
  have "fl' = written (settings_bytes (stamped ?s) @ after) (of_nat sizeof_settings) fl"
    using w(1) length_settings_bytes [of "stamped ?s"] wf assms(3)
      write_in_non_volatile_eq [OF assms(1), of "of_nat sizeof_settings" "settings_bytes (stamped ?s) @ after" fl]
    by (simp add: write_settings_in_flash_def settings_program_count Let_def)
  moreover have "nv_start (of_nat sizeof_settings) = PICO_FLASH_SIZE_BYTES - NON_VOL_SEGMENT_SIZE"
    unfolding nv_start_eq erase_count_eq unat_sizeof_settings by (simp add: nv_consts)
  ultimately have below: "fl' a = fl a" if "a < PICO_FLASH_SIZE_BYTES - NON_VOL_SEGMENT_SIZE" for a
    using that by (simp add: written_def in_range_def)
  have view: "view (stamped ?s) nm = view ?s nm" if "nm \<in> set field_names" for nm
  proof -
    have "settings_bytes (stamped ?s) = le_bytes SETTINGS_FLAG @ slice (settings_bytes ?s) 4 804 @ le_bytes SETTINGS_FLAG"
      using wf by (simp add: settings_bytes_def settings_wf_def slice_def)
    then have "slice (settings_bytes (stamped ?s)) 4 804 = slice (settings_bytes ?s) 4 804"
      using length_settings_bytes [OF wf] by (simp add: slice_def)
    moreover have "slice b (offsetof nm) (sizeof_member nm) = slice (slice b 4 804) (offsetof nm - 4) (sizeof_member nm)" for b
    proof -
      have "offsetof nm - 4 + sizeof_member nm \<le> 804" "4 + (offsetof nm - 4) = offsetof nm"
        using field_bounds [OF that] by linarith+
      then show ?thesis using slice_slice [of "offsetof nm - 4" "sizeof_member nm" 804 b 4] by simp
    qed
    ultimately show ?thesis unfolding view_def member_def by metis
  qed
  have "read_settings_from_flash fl' (Some any) = (0, Some (stamped ?s))"
    by (rule read_settings_stamped [OF wf w(2)])
  then show ?thesis using w(1) below view
    by (intro exI [of _ "stamped ?s"] exI [of _ fl']) (auto simp: settings_view_def fun_eq_iff)
qed

text \<open>C13: what a form stored is what the device finds after a restart: the settings written to flash read
  back with status 0 and the same strings, on any flash that behaves as documented.\<close>

theorem settings_survive_restart:
  assumes "flash_dev_ok dev" and "state_wf st" and "212 \<le> length after"
  shows "\<exists>s' fl'. write_settings_in_flash dev after (Some (mqtt_settings st)) fl = Inr (Some s', fl') \<and>
    read_settings_from_flash fl' (Some any) = (0, Some s') \<and>
    fst (settings_view (st\<lparr>mqtt_settings := s'\<rparr>)) = fst (settings_view st) \<and>
    (\<forall>a < PICO_FLASH_SIZE_BYTES - NON_VOL_SEGMENT_SIZE. fl' a = fl a)"
  by (rule settings_stored [OF assms])

theorem settings_survive_restart_witness:
  "\<exists>s' fl'. write_settings_in_flash nor_flash (replicate 212 0) (Some default_settings) (\<lambda>_. 0xFF) = Inr (Some s', fl') \<and>
    read_settings_from_flash fl' (Some default_settings) = (0, Some s')"
  using settings_survive_restart [OF nor_flash_ok demo_httpd_ok(4), of "replicate 212 0" "\<lambda>_. 0xFF" default_settings]
  by (auto simp: demo_settings_def)

text \<open>C38: a value whose first character is the digit zero is treated as empty: posting it for any field
  leaves every setting as it was, although the server answers and the store flag is raised.\<close>

theorem leading_zero_value_lost:
  assumes "post_clean h" and "process_post_field_cb h = Some process_post_field"
    and "static_store_settings_flag h = Some b" and "unat ulen \<le> length uri" and "state_wf st"
    and "nm \<in> set field_names" and "0 \<notin> set v" and "amp \<notin> set v" and "length v < 900"
    and "n \<le> int MAX_POST_DATA_LEN"
  shows "\<exists>st' h'. post_request n [chars nm @ [eq_sign, digit_zero] @ v] uri ulen (st, h) = Inr (ERR_OK, st', h') \<and>
    settings_view st' = settings_view st"
proof -
  let ?body = "chars nm @ [eq_sign, digit_zero] @ v"
  have c: "0 \<notin> set (chars nm)" "amp \<notin> set (chars nm)" "eq_sign \<notin> set (chars nm)" "length (chars nm) \<le> 24"
    using assms(6) by (auto simp: field_names_def chars_def)
  have fp: "form_pairs ?body = [(chars nm, digit_zero # v)]"
    using c assms(8)
    by (simp add: form_pairs_def pieces_last) (subst takeWhile_append2 dropWhile_append2, auto)+
  have "\<exists>st' h'. post_request n [?body] uri ulen (st, h) = Inr (ERR_OK, st', h') \<and> post_clean h' \<and>
    static_store_settings_flag h' = Some True \<and> state_wf st' \<and>
    settings_view st' = fold (\<lambda>(k, v). update_field k (firmware_value v)) (form_pairs (concat [?body])) (settings_view st)"
    using c assms(7,9,10)
    by (intro settings_form.post_refines [OF assms(1-4) _ _ _ assms(5)]) (simp_all add: MAX_POST_DATA_LEN_def)
  moreover have "update_field (chars nm) [] s = s" for s
    using update_field_known [OF assms(6), of "[]"] by (cases s) (simp add: acceptable_def)
  ultimately show ?thesis using fp by (simp add: firmware_value_def) blast
qed

theorem leading_zero_value_lost_witness:
  "\<exists>st' h'. post_request 14 [chars ''wifi_pass'' @ [eq_sign, digit_zero] @ chars ''1234567''] (replicate 64 0) 64
      (demo_settings, demo_httpd) = Inr (ERR_OK, st', h') \<and> settings_view st' = settings_view demo_settings"
  by (rule leading_zero_value_lost [OF demo_httpd_ok(1-3) _ demo_httpd_ok(4)])
    (simp_all add: field_names_def chars_def MAX_POST_DATA_LEN_def)

text \<open>A body of exactly 1024 bytes passes the length check and fills the buffer, which then has no
  terminator: scanning it for the first separator leaves the buffer.\<close>

theorem full_buffer_overread:
  assumes "post_clean h" and "length body = MAX_POST_DATA_LEN" and "0 \<notin> set body" and "amp \<notin> set body"
  shows "post_request (int (length body)) [body] uri ulen (st, h) = Inl Out_Of_Bounds"
proof -
  let ?h = "h\<lparr>post_data_index := 0\<rparr>"
  have "length body = 1024" using assms(2) by (simp add: MAX_POST_DATA_LEN_def)
  then have "httpd_post_receive_data (Some (Pbuf body None)) ?h = Inr (ERR_OK, True, h\<lparr>post_data_buffer := body, post_data_index := 1024\<rparr>)"
    using receive_one [of body ?h None] assms(1) by (simp add: post_clean_def MAX_POST_DATA_LEN_def overlay_def)
  moreover have "parse_buffer cb body st = Inl Out_Of_Bounds" for cb and st :: 'a
    using strtok_amp_off_end [OF assms(3,4)] by (subst parse_buffer.simps) simp
  ultimately show ?thesis
    using assms(2) by (auto simp: post_request_def httpd_post_begin_def httpd_post_finished_def split: option.splits)
qed

theorem full_buffer_overread_witness:
  "post_request 1024 [replicate 1024 65] (replicate 64 0) 64 (demo_settings, demo_httpd) = Inl Out_Of_Bounds"
  using full_buffer_overread [OF demo_httpd_ok(1), of "replicate 1024 65" "replicate 64 0" 64 demo_settings]
  by (simp add: MAX_POST_DATA_LEN_def)

text \<open>Storing the 812-byte settings programs four whole pages, so it reads 212 bytes past the object;
  with fewer readable bytes after it the write reads outside memory.\<close>

theorem settings_write_overread:
  assumes "state_wf st" and "length after < 212"
  shows "write_settings_in_flash dev after (Some (mqtt_settings st)) fl = Inl Out_Of_Bounds"
proof -
  let ?s = "stamped (mqtt_settings st)"
  have "length (settings_bytes ?s @ after) < program_count (of_nat sizeof_settings)"
    using assms length_settings_bytes [of ?s] by (simp add: settings_program_count state_wf_def)
  from write_in_non_volatile_oob [OF this] show ?thesis by (simp add: write_settings_in_flash_def Let_def)
qed

theorem settings_write_overread_witness:
  "write_settings_in_flash nor_flash [] (Some default_settings) (\<lambda>_. 0xFF) = Inl Out_Of_Bounds"
  using settings_write_overread [OF demo_httpd_ok(4), of "[]" nor_flash "\<lambda>_. 0xFF"] by (simp add: demo_settings_def)

end
