(* ===== verification/Udp_Env.thy ===== *)
theory Udp_Env
  imports Pico_Prelude
begin

text \<open>
  What the two small UDP servers see of lwIP: protocol control blocks are numbers, and the
  calls a handler makes are collected in order. What a library call returns is an argument
  of the model that makes the call.
\<close>

type_synonym pcb = nat

text \<open>An IPv4 address as the four bytes it occupies in memory, in network order.\<close>

type_synonym ip_addr = bytes

datatype udp_call =
    Udp_Recv pcb                       \<comment> \<open>the receive callback is registered\<close>
  | Udp_Bind pcb ip_addr u16
  | Udp_Remove pcb
  | Udp_Sendto pcb ip_addr u16 bytes   \<comment> \<open>destination, port and payload\<close>
  | Udp_Sendto_If pcb ip_addr u16 bytes
  | Pbuf_Free                          \<comment> \<open>the received pbuf is released\<close>

definition IP_ANY :: ip_addr where "IP_ANY = [0, 0, 0, 0]"

text \<open>\<open>IP4_ADDR\<close> of the four octets of a host-order word.\<close>

definition ip4_of_u32 :: "u32 \<Rightarrow> ip_addr" where
  "ip4_of_u32 ip = be_bytes ip"

definition ENOMEM :: int where "ENOMEM = 12"

text \<open>The datagrams among the calls.\<close>

definition sent :: "udp_call list \<Rightarrow> (ip_addr \<times> u16 \<times> bytes) list" where
  "sent cs = List.map_filter (\<lambda>c. case c of
      Udp_Sendto _ ip port data \<Rightarrow> Some (ip, port, data)
    | Udp_Sendto_If _ ip port data \<Rightarrow> Some (ip, port, data)
    | _ \<Rightarrow> None) cs"

lemma sent_simps [simp]:
  "sent [] = []"
  "sent (Udp_Sendto pcb ip port data # cs) = (ip, port, data) # sent cs"
  "sent (Udp_Sendto_If pcb ip port data # cs) = (ip, port, data) # sent cs"
  "sent (Pbuf_Free # cs) = sent cs"
  by (simp_all add: sent_def List.map_filter_def)

lemma sent_append [simp]: "sent (as @ bs) = sent as @ sent bs"
  by (simp add: sent_def List.map_filter_def)

end
