(* ===== verification/Dhcp_Server.thy ===== *)
theory Dhcp_Server
  imports Udp_Env
begin

text \<open>
  \<open>src/access_point_httpd/dhcpserver/dhcpserver.c\<close>: the DHCP server of the access point.

  A message is the 548 bytes of \<open>dhcp_msg_t\<close>. The handler's local copy starts as whatever
  is on the stack; only the bytes the library copied from the packet are defined by the
  packet. All reads and writes through option pointers are checked against the struct.
\<close>

section \<open>Model\<close>

subsection \<open>Constants and the message struct\<close>

definition DHCPDISCOVER :: u8 where "DHCPDISCOVER = 1"
definition DHCPOFFER :: u8 where "DHCPOFFER = 2"
definition DHCPREQUEST :: u8 where "DHCPREQUEST = 3"
definition DHCPACK :: u8 where "DHCPACK = 5"

definition DHCP_OPT_SUBNET_MASK :: u8 where "DHCP_OPT_SUBNET_MASK = 1"
definition DHCP_OPT_ROUTER :: u8 where "DHCP_OPT_ROUTER = 3"
definition DHCP_OPT_DNS :: u8 where "DHCP_OPT_DNS = 6"
definition DHCP_OPT_REQUESTED_IP :: u8 where "DHCP_OPT_REQUESTED_IP = 50"
definition DHCP_OPT_IP_LEASE_TIME :: u8 where "DHCP_OPT_IP_LEASE_TIME = 51"
definition DHCP_OPT_MSG_TYPE :: u8 where "DHCP_OPT_MSG_TYPE = 53"
definition DHCP_OPT_SERVER_ID :: u8 where "DHCP_OPT_SERVER_ID = 54"
definition DHCP_OPT_END :: u8 where "DHCP_OPT_END = 255"

definition PORT_DHCP_SERVER :: u16 where "PORT_DHCP_SERVER = 67"
definition PORT_DHCP_CLIENT :: u16 where "PORT_DHCP_CLIENT = 68"
definition DEFAULT_LEASE_TIME_S :: u32 where "DEFAULT_LEASE_TIME_S = 86400"
definition MAC_LEN :: nat where "MAC_LEN = 6"
definition DHCP_MIN_SIZE :: nat where "DHCP_MIN_SIZE = 243"
definition DHCPS_BASE_IP :: u8 where "DHCPS_BASE_IP = 16"
definition DHCPS_MAX_IP :: nat where "DHCPS_MAX_IP = 8"

text \<open>Offsets of the members of \<open>dhcp_msg_t\<close> that the code touches, and its size.\<close>

definition op_off :: nat where "op_off = 0"
definition yiaddr_off :: nat where "yiaddr_off = 16"
definition chaddr_off :: nat where "chaddr_off = 28"
definition options_off :: nat where "options_off = 236"
definition sizeof_dhcp_msg :: nat where "sizeof_dhcp_msg = 548"

record dhcp_server_lease_t =
  mac :: bytes
  expiry :: u16

record dhcp_server_t =
  ip :: ip_addr
  nm :: ip_addr
  lease :: "dhcp_server_lease_t list"
  udp :: "pcb option"

subsection \<open>Socket helpers\<close>

text \<open>\<open>new_pcb\<close> is what \<open>udp_new\<close> returns.\<close>

definition dhcp_socket_new_dgram :: "pcb option \<Rightarrow> int \<times> udp_call list \<times> pcb option" where
  "dhcp_socket_new_dgram new_pcb =
    (case new_pcb of None \<Rightarrow> (- ENOMEM, [], None) | Some u \<Rightarrow> (0, [Udp_Recv u], Some u))"

definition dhcp_socket_free :: "pcb option \<Rightarrow> udp_call list \<times> pcb option" where
  "dhcp_socket_free u = (case u of None \<Rightarrow> ([], None) | Some p \<Rightarrow> ([Udp_Remove p], None))"

definition dhcp_socket_bind :: "int \<Rightarrow> pcb option \<Rightarrow> u16 \<Rightarrow> (int \<times> udp_call list) ub" where
  "dhcp_socket_bind bind_err u port =
    (case u of None \<Rightarrow> Inl Null_Deref | Some p \<Rightarrow> Inr (bind_err, [Udp_Bind p IP_ANY port]))"

text \<open>\<open>pbuf_ok\<close>: the allocation succeeds; \<open>nif\<close>: the packet came in on an interface;
  \<open>err\<close>: the status of the send call.\<close>

definition dhcp_socket_sendto ::
  "bool \<Rightarrow> bool \<Rightarrow> int \<Rightarrow> pcb option \<Rightarrow> bytes \<Rightarrow> nat \<Rightarrow> u32 \<Rightarrow> u16 \<Rightarrow> (int \<times> udp_call list) ub" where
  "dhcp_socket_sendto pbuf_ok nif err u buf len ipw port =
    (let len' = (if len > 0xffff then 0xffff else len) in
     if \<not> pbuf_ok then Inr (- ENOMEM, [])
     else bindE (memcpy (replicate len' 0) 0 buf len') (\<lambda>data.
       case u of None \<Rightarrow> Inl Null_Deref
       | Some p \<Rightarrow>
          Inr (if err \<noteq> 0 then err else int len',
               [if nif then Udp_Sendto_If p (ip4_of_u32 ipw) port data
                else Udp_Sendto p (ip4_of_u32 ipw) port data])))"

subsection \<open>Options\<close>

function opt_find_from :: "bytes \<Rightarrow> u8 \<Rightarrow> nat \<Rightarrow> nat option ub" where
  "opt_find_from opt cmd i =
    (if i < 308 then
       bindE (buf_get opt i) (\<lambda>b.
         if b = DHCP_OPT_END then Inr None
         else if b = cmd then Inr (Some i)
         else bindE (buf_get opt (i + 1)) (\<lambda>l. opt_find_from opt cmd (i + 2 + unat l)))
     else Inr None)"
  by pat_completeness auto
termination
  by (relation "measure (\<lambda>(opt, cmd, i). 308 - i)") auto

declare opt_find_from.simps [simp del]

definition opt_find :: "bytes \<Rightarrow> u8 \<Rightarrow> nat option ub" where
  "opt_find opt cmd = opt_find_from opt cmd 0"

text \<open>The writers move a position in the message.\<close>

definition opt_write_n :: "bytes \<times> nat \<Rightarrow> u8 \<Rightarrow> nat \<Rightarrow> bytes \<Rightarrow> (bytes \<times> nat) ub" where
  "opt_write_n = (\<lambda>(msg, o1) cmd n data.
     bindE (buf_put msg o1 cmd) (\<lambda>m1.
     bindE (buf_put m1 (o1 + 1) (of_nat n)) (\<lambda>m2.
     bindE (memcpy m2 (o1 + 2) data n) (\<lambda>m3. Inr (m3, o1 + 2 + n)))))"

definition opt_write_u8 :: "bytes \<times> nat \<Rightarrow> u8 \<Rightarrow> u8 \<Rightarrow> (bytes \<times> nat) ub" where
  "opt_write_u8 = (\<lambda>(msg, o1) cmd val.
     bindE (buf_put msg o1 cmd) (\<lambda>m1.
     bindE (buf_put m1 (o1 + 1) 1) (\<lambda>m2.
     bindE (buf_put m2 (o1 + 2) val) (\<lambda>m3. Inr (m3, o1 + 3)))))"

definition opt_write_u32 :: "bytes \<times> nat \<Rightarrow> u8 \<Rightarrow> u32 \<Rightarrow> (bytes \<times> nat) ub" where
  "opt_write_u32 = (\<lambda>(msg, o1) cmd val.
     bindE (buf_put msg o1 cmd) (\<lambda>m1.
     bindE (buf_put m1 (o1 + 1) 4) (\<lambda>m2.
     bindE (buf_put m2 (o1 + 2) (ucast (drop_bit 24 val))) (\<lambda>m3.
     bindE (buf_put m3 (o1 + 3) (ucast (drop_bit 16 val))) (\<lambda>m4.
     bindE (buf_put m4 (o1 + 4) (ucast (drop_bit 8 val))) (\<lambda>m5.
     bindE (buf_put m5 (o1 + 5) (ucast val)) (\<lambda>m6. Inr (m6, o1 + 6))))))))"

subsection \<open>The request handler\<close>

text \<open>Everything the handler takes from its surroundings: the packet's total length and the
  bytes \<open>pbuf_copy_partial\<close> delivered, the stack the local struct lies on, the millisecond
  clock at its successive readings, and the outcome of the send.\<close>

record dhcp_env =
  tot_len :: nat
  copied :: bytes
  stack :: bytes
  ticks :: "nat \<Rightarrow> u32"
  pbuf_ok :: bool
  nif :: bool
  send_err :: int

definition zero_mac :: bytes where "zero_mac = replicate MAC_LEN 0"

definition lease_expired :: "dhcp_server_lease_t \<Rightarrow> u32 \<Rightarrow> bool" where
  "lease_expired l now \<longleftrightarrow> sint ((push_bit 16 (ucast (expiry l)) OR 0xffff) - now) < 0"

text \<open>The loop of the DISCOVER case: \<open>i\<close> is the index, \<open>yi\<close> the candidate.\<close>

function discover_loop ::
  "(nat \<Rightarrow> u32) \<Rightarrow> bytes \<Rightarrow> nat \<Rightarrow> nat \<Rightarrow> dhcp_server_lease_t list \<Rightarrow> nat \<times> dhcp_server_lease_t list" where
  "discover_loop tk chaddr i yi ls =
    (if i < DHCPS_MAX_IP then
       (if mac (ls ! i) = chaddr then (i, ls)
        else if yi = DHCPS_MAX_IP then
          (let yi1 = (if mac (ls ! i) = zero_mac then i else yi) in
           if lease_expired (ls ! i) (tk i)
           then discover_loop tk chaddr (i + 1) i (ls[i := (ls ! i)\<lparr>mac := zero_mac\<rparr>])
           else discover_loop tk chaddr (i + 1) yi1 ls)
        else discover_loop tk chaddr (i + 1) yi ls)
     else (yi, ls))"
  by pat_completeness auto
termination
  by (relation "measure (\<lambda>(tk, chaddr, i, yi, ls). DHCPS_MAX_IP - i)") auto

declare discover_loop.simps [simp del]

text \<open>Each case of the switch yields the message with the position after the first option, or
  nothing when the request is ignored.\<close>

definition dhcp_discover ::
  "dhcp_env \<Rightarrow> bytes \<Rightarrow> dhcp_server_t \<Rightarrow> ((bytes \<times> nat) option \<times> dhcp_server_t) ub" where
  "dhcp_discover env msg d =
    (let chaddr = slice msg chaddr_off MAC_LEN;
         (yi, ls) = discover_loop (ticks env) chaddr 0 DHCPS_MAX_IP (lease d);
         d' = d\<lparr>lease := ls\<rparr>
     in if yi = DHCPS_MAX_IP then Inr (None, d')
        else bindE (buf_put msg (yiaddr_off + 3) (DHCPS_BASE_IP + of_nat yi)) (\<lambda>msg1.
             bindE (opt_write_u8 (msg1, options_off + 4) DHCP_OPT_MSG_TYPE DHCPOFFER) (\<lambda>w.
               Inr (Some w, d'))))"

definition dhcp_request ::
  "dhcp_env \<Rightarrow> bytes \<Rightarrow> dhcp_server_t \<Rightarrow> ((bytes \<times> nat) option \<times> dhcp_server_t) ub" where
  "dhcp_request env msg d =
    (let opt = drop (options_off + 4) msg; chaddr = slice msg chaddr_off MAC_LEN in
     bindE (opt_find opt DHCP_OPT_REQUESTED_IP) (\<lambda>r.
       case r of None \<Rightarrow> Inr (None, d)
       | Some o1 \<Rightarrow>
         bindE (memcmp_eq (drop (o1 + 2) opt) (ip d) 3) (\<lambda>same_net.
           if \<not> same_net then Inr (None, d)
           else bindE (buf_get opt (o1 + 5)) (\<lambda>b.
             (let yi8 = b - DHCPS_BASE_IP; yi = unat yi8 in
              if yi \<ge> DHCPS_MAX_IP then Inr (None, d)
              else (let l = lease d ! yi in
                if mac l = chaddr \<or> mac l = zero_mac
                then (let l' = l\<lparr>mac := chaddr,
                                 expiry := ucast (drop_bit 16 (ticks env 0 + DEFAULT_LEASE_TIME_S * 1000))\<rparr>;
                          d' = d\<lparr>lease := (lease d)[yi := l']\<rparr>
                      in bindE (buf_put msg (yiaddr_off + 3) (DHCPS_BASE_IP + yi8)) (\<lambda>msg1.
                         bindE (opt_write_u8 (msg1, options_off + 4) DHCP_OPT_MSG_TYPE DHCPACK) (\<lambda>w.
                           Inr (Some w, d'))))
                else Inr (None, d)))))))"

text \<open>The options common to both replies.\<close>

definition dhcp_finish_options :: "dhcp_server_t \<Rightarrow> bytes \<times> nat \<Rightarrow> (bytes \<times> nat) ub" where
  "dhcp_finish_options d w0 =
     bindE (opt_write_n w0 DHCP_OPT_SERVER_ID 4 (ip d)) (\<lambda>w1.
     bindE (opt_write_n w1 DHCP_OPT_SUBNET_MASK 4 (nm d)) (\<lambda>w2.
     bindE (opt_write_n w2 DHCP_OPT_ROUTER 4 (ip d)) (\<lambda>w3.
     bindE (opt_write_n w3 DHCP_OPT_DNS 4 (ip d)) (\<lambda>w4.
     bindE (opt_write_u32 w4 DHCP_OPT_IP_LEASE_TIME DEFAULT_LEASE_TIME_S) (\<lambda>(msg, o1).
     bindE (buf_put msg o1 DHCP_OPT_END) (\<lambda>msg'. Inr (msg', o1 + 1)))))))"

definition dhcp_server_process :: "dhcp_env \<Rightarrow> dhcp_server_t \<Rightarrow> (udp_call list \<times> dhcp_server_t) ub" where
  "dhcp_server_process env d =
    (if tot_len env < DHCP_MIN_SIZE then Inr ([Pbuf_Free], d)
     else bindE (memcpy (stack env) 0 (copied env) (length (copied env))) (\<lambda>msg0.
       if length (copied env) < DHCP_MIN_SIZE then Inr ([Pbuf_Free], d)
       else bindE (buf_put msg0 op_off DHCPOFFER) (\<lambda>msg1.
         bindE (memcpy msg1 yiaddr_off (ip d) 4) (\<lambda>msg2.
           (let opt = drop (options_off + 4) msg2 in
            bindE (opt_find opt DHCP_OPT_MSG_TYPE) (\<lambda>r.
              case r of None \<Rightarrow> Inr ([Pbuf_Free], d)
              | Some m \<Rightarrow>
                bindE (buf_get opt (m + 2)) (\<lambda>t.
                bindE (if t = DHCPDISCOVER then dhcp_discover env msg2 d
                       else if t = DHCPREQUEST then dhcp_request env msg2 d
                       else Inr (None, d)) (\<lambda>(w, d').
                  case w of None \<Rightarrow> Inr ([Pbuf_Free], d')
                  | Some w0 \<Rightarrow>
                    bindE (dhcp_finish_options d' w0) (\<lambda>(msg3, o1).
                    bindE (dhcp_socket_sendto (pbuf_ok env) (nif env) (send_err env) (udp d')
                             msg3 o1 0xffffffff PORT_DHCP_CLIENT) (\<lambda>(_, cs).
                      Inr (cs @ [Pbuf_Free], d')))))))))))"

definition zero_lease :: dhcp_server_lease_t where
  "zero_lease = \<lparr> mac = zero_mac, expiry = 0 \<rparr>"

definition dhcp_server_init ::
  "pcb option \<Rightarrow> int \<Rightarrow> ip_addr \<Rightarrow> ip_addr \<Rightarrow> dhcp_server_t \<Rightarrow> (udp_call list \<times> dhcp_server_t) ub" where
  "dhcp_server_init new_pcb bind_err ip0 nm0 d =
    (let (r, cs, u) = dhcp_socket_new_dgram new_pcb;
         d' = d\<lparr>ip := ip0, nm := nm0, lease := replicate DHCPS_MAX_IP zero_lease, udp := u\<rparr>
     in if r \<noteq> 0 then Inr (cs, d')
        else bindE (dhcp_socket_bind bind_err u PORT_DHCP_SERVER) (\<lambda>(_, cs2). Inr (cs @ cs2, d')))"

definition dhcp_server_deinit :: "dhcp_server_t \<Rightarrow> udp_call list \<times> dhcp_server_t" where
  "dhcp_server_deinit d = (let (cs, u) = dhcp_socket_free (udp d) in (cs, d\<lparr>udp := u\<rparr>))"

section \<open>Reference notions\<close>

text \<open>Options as a list of code and data, their encoding, and the position of the first one
  with a given code.\<close>

type_synonym dhcp_option = "u8 \<times> bytes"

fun encode_opts :: "dhcp_option list \<Rightarrow> bytes" where
  "encode_opts [] = []"
| "encode_opts ((c, d) # os) = c # of_nat (length d) # d @ encode_opts os"

fun opt_pos :: "dhcp_option list \<Rightarrow> u8 \<Rightarrow> nat option" where
  "opt_pos [] cmd = None"
| "opt_pos ((c, d) # os) cmd =
     (if c = cmd then Some 0 else map_option (\<lambda>p. p + 2 + length d) (opt_pos os cmd))"

definition opts_wf :: "dhcp_option list \<Rightarrow> bool" where
  "opts_wf os \<longleftrightarrow> (\<forall>(c, d) \<in> set os. c \<noteq> DHCP_OPT_END \<and> length d < 256)"

text \<open>The reply's options for message type \<open>t\<close>.\<close>

definition reply_opts :: "dhcp_server_t \<Rightarrow> u8 \<Rightarrow> dhcp_option list" where
  "reply_opts d t =
    [(DHCP_OPT_MSG_TYPE, [t]), (DHCP_OPT_SERVER_ID, ip d), (DHCP_OPT_SUBNET_MASK, nm d),
     (DHCP_OPT_ROUTER, ip d), (DHCP_OPT_DNS, ip d),
     (DHCP_OPT_IP_LEASE_TIME, be_bytes DEFAULT_LEASE_TIME_S)]"

definition dhcp_wf :: "dhcp_server_t \<Rightarrow> bool" where
  "dhcp_wf d \<longleftrightarrow> length (ip d) = 4 \<and> length (nm d) = 4 \<and> length (lease d) = DHCPS_MAX_IP \<and>
     (\<forall>l \<in> set (lease d). length (mac l) = MAC_LEN)"

text \<open>The hardware address a packet carries.\<close>

definition client_mac :: "dhcp_env \<Rightarrow> bytes" where
  "client_mac env = slice (copied env) chaddr_off MAC_LEN"

lemmas dhcp_consts = DHCPDISCOVER_def DHCPOFFER_def DHCPREQUEST_def DHCPACK_def
  DHCP_OPT_SUBNET_MASK_def DHCP_OPT_ROUTER_def DHCP_OPT_DNS_def DHCP_OPT_REQUESTED_IP_def
  DHCP_OPT_IP_LEASE_TIME_def DHCP_OPT_MSG_TYPE_def DHCP_OPT_SERVER_ID_def DHCP_OPT_END_def

lemmas dhcp_sizes = MAC_LEN_def DHCP_MIN_SIZE_def DHCPS_MAX_IP_def op_off_def yiaddr_off_def
  chaddr_off_def options_off_def sizeof_dhcp_msg_def

section \<open>Option search\<close>

lemma opt_find_from_sound:
  "opt_find_from opt cmd i = Inr (Some j) \<Longrightarrow> i \<le> j \<and> j < 308 \<and> j < length opt \<and> opt ! j = cmd"
proof (induction opt cmd i rule: opt_find_from.induct)
  case (1 opt cmd i)
  from "1.prems" "1.IH" [of "opt ! i" "opt ! Suc i"] show ?case
    by (subst (asm) opt_find_from.simps) (auto simp: buf_get_Inr_iff split: if_splits)
qed

lemma opt_find_from_encode:
  assumes "opts_wf os" and "length pre + length (encode_opts os) < 308"
  shows "opt_find_from (pre @ encode_opts os @ DHCP_OPT_END # rest) cmd (length pre) =
    Inr (map_option (\<lambda>p. length pre + p) (opt_pos os cmd))"
  using assms
proof (induction os arbitrary: pre)
  case Nil
  then show ?case by (subst opt_find_from.simps) (simp add: nth_append)
next
  case (Cons x os)
  obtain c d where x: "x = (c, d)" by fastforce
  have wf: "c \<noteq> DHCP_OPT_END" "length d < 256" "opts_wf os"
    using Cons.prems(1) by (auto simp: opts_wf_def x)
  let ?pre = "pre @ c # of_nat (length d) # d"
  have len: "unat (of_nat (length d) :: u8) = length d"
    using wf(2) by (simp add: unat_of_nat)
  have "opt_find_from (?pre @ encode_opts os @ DHCP_OPT_END # rest) cmd (length ?pre) =
      Inr (map_option (\<lambda>p. length ?pre + p) (opt_pos os cmd))"
    using Cons.prems wf(3) by (intro Cons.IH) (auto simp: x)
  then have IH: "opt_find_from (pre @ c # of_nat (length d) # d @ encode_opts os @ DHCP_OPT_END # rest) cmd
      (length pre + 2 + length d) = Inr (map_option (\<lambda>p. length pre + 2 + length d + p) (opt_pos os cmd))"
    by (simp add: add.assoc)
  show ?case
    using Cons.prems(2) wf(1) IH
    by (subst opt_find_from.simps)
      (auto simp: x nth_append len option.map_comp comp_def add.assoc intro!: option.map_cong0)
qed

lemma opt_find_encode:
  assumes "opts_wf os" and "length (encode_opts os) < 308"
  shows "opt_find (encode_opts os @ DHCP_OPT_END # rest) cmd = Inr (opt_pos os cmd)"
  using opt_find_from_encode [of os "[]" rest cmd] assms by (simp add: opt_find_def option.map_ident)

section \<open>Option writers\<close>

lemma put_app: "suf \<noteq> [] \<Longrightarrow> buf_put (pre @ suf) (length pre) x = Inr (pre @ x # tl suf)"
  by (cases suf) (auto simp: buf_put_def)

lemma opt_write_n_app:
  assumes "2 + n \<le> length suf" and "length data = n"
  shows "opt_write_n (pre @ suf, length pre) cmd n data =
    Inr ((pre @ cmd # of_nat n # data) @ drop (2 + n) suf, length (pre @ cmd # of_nat n # data))"
proof -
  obtain a b s where suf: "suf = a # b # s"
    using assms(1) by (auto simp: numeral_2_eq_2 Suc_le_length_iff)
  have "memcpy (pre @ cmd # of_nat n # s) (length pre + 2) data n =
      Inr (pre @ cmd # of_nat n # data @ drop n s)"
    using assms suf by (simp add: memcpy_def overlay_def)
  then show ?thesis
    using assms by (simp add: opt_write_n_def suf buf_put_def list_update_append)
qed

lemma opt_write_u8_app:
  assumes "3 \<le> length suf"
  shows "opt_write_u8 (pre @ suf, length pre) cmd v =
    Inr ((pre @ [cmd, 1, v]) @ drop 3 suf, length (pre @ [cmd, 1, v]))"
proof -
  obtain a b c s where "suf = a # b # c # s"
    using assms by (auto simp: numeral_3_eq_3 Suc_le_length_iff)
  then show ?thesis by (simp add: opt_write_u8_def buf_put_def list_update_append)
qed

lemma opt_write_u32_app:
  assumes "6 \<le> length suf"
  shows "opt_write_u32 (pre @ suf, length pre) cmd v =
    Inr ((pre @ cmd # 4 # be_bytes v) @ drop 6 suf, length (pre @ cmd # 4 # be_bytes v))"
proof -
  obtain a b c d e f s where "suf = a # b # c # d # e # f # s"
    using assms by (auto simp: numeral_eq_Suc Suc_le_length_iff)
  then show ?thesis
    by (simp add: opt_write_u32_def buf_put_def list_update_append be_bytes_def le_bytes_def)
qed

lemma finish_options_app:
  assumes "length (ip d) = 4" and "length (nm d) = 4" and "31 \<le> length suf"
  shows "\<exists>suf'. length suf' + 31 = length suf \<and> dhcp_finish_options d (pre @ suf, length pre) =
    Inr ((pre @ encode_opts (tl (reply_opts d t)) @ [DHCP_OPT_END]) @ suf',
         length (pre @ encode_opts (tl (reply_opts d t)) @ [DHCP_OPT_END]))"
proof -
  define p1 where "p1 = pre @ DHCP_OPT_SERVER_ID # of_nat 4 # ip d"
  define p2 where "p2 = p1 @ DHCP_OPT_SUBNET_MASK # of_nat 4 # nm d"
  define p3 where "p3 = p2 @ DHCP_OPT_ROUTER # of_nat 4 # ip d"
  define p4 where "p4 = p3 @ DHCP_OPT_DNS # of_nat 4 # ip d"
  define p5 where "p5 = p4 @ DHCP_OPT_IP_LEASE_TIME # 4 # be_bytes DEFAULT_LEASE_TIME_S"
  have w1: "opt_write_n (pre @ suf, length pre) DHCP_OPT_SERVER_ID 4 (ip d) = Inr (p1 @ drop 6 suf, length p1)"
    using opt_write_n_app [of 4 suf "ip d"] assms by (simp add: p1_def)
  have w2: "opt_write_n (p1 @ drop 6 suf, length p1) DHCP_OPT_SUBNET_MASK 4 (nm d) = Inr (p2 @ drop 12 suf, length p2)"
    using opt_write_n_app [of 4 "drop 6 suf" "nm d"] assms by (simp add: p2_def)
  have w3: "opt_write_n (p2 @ drop 12 suf, length p2) DHCP_OPT_ROUTER 4 (ip d) = Inr (p3 @ drop 18 suf, length p3)"
    using opt_write_n_app [of 4 "drop 12 suf" "ip d"] assms by (simp add: p3_def)
  have w4: "opt_write_n (p3 @ drop 18 suf, length p3) DHCP_OPT_DNS 4 (ip d) = Inr (p4 @ drop 24 suf, length p4)"
    using opt_write_n_app [of 4 "drop 18 suf" "ip d"] assms by (simp add: p4_def)
  have w5: "opt_write_u32 (p4 @ drop 24 suf, length p4) DHCP_OPT_IP_LEASE_TIME DEFAULT_LEASE_TIME_S =
      Inr (p5 @ drop 30 suf, length p5)"
    using opt_write_u32_app [of "drop 24 suf"] assms by (simp add: p5_def)
  have w6: "buf_put (p5 @ drop 30 suf) (length p5) DHCP_OPT_END = Inr (p5 @ DHCP_OPT_END # tl (drop 30 suf))"
    using put_app [of "drop 30 suf"] assms by simp
  have "p5 = pre @ encode_opts (tl (reply_opts d t))"
    using assms by (simp add: p5_def p4_def p3_def p2_def p1_def reply_opts_def)
  then show ?thesis
    unfolding dhcp_finish_options_def w1 bindE.simps w2 w3 w4 w5 prod.case w6
    using assms(3) by (intro exI [of _ "tl (drop 30 suf)"]) simp
qed

end
