(* ===== verification/Dhcp_Leases.thy ===== *)
theory Dhcp_Leases
  imports Dhcp_Server
begin

text \<open>
  What the DHCP handler does, read off its model: the outcome of every packet, the reply byte
  for byte, and how the lease table can change.
\<close>

section \<open>The address choice of DISCOVER\<close>

lemma discover_step_cases:
  obtains (fin) "i \<ge> DHCPS_MAX_IP" | (match) "i < DHCPS_MAX_IP" "mac (ls ! i) = ch"
    | (expired) "i < DHCPS_MAX_IP" "mac (ls ! i) \<noteq> ch" "yi = DHCPS_MAX_IP" "lease_expired (ls ! i) (tk i)"
    | (live) "i < DHCPS_MAX_IP" "mac (ls ! i) \<noteq> ch" "yi = DHCPS_MAX_IP" "\<not> lease_expired (ls ! i) (tk i)"
    | (skip) "i < DHCPS_MAX_IP" "mac (ls ! i) \<noteq> ch" "yi \<noteq> DHCPS_MAX_IP"
  by fastforce

lemma discover_loop_frame:
  assumes "length ls = DHCPS_MAX_IP" and "discover_loop tk ch i yi ls = (y, ls')"
  shows "length ls' = DHCPS_MAX_IP \<and> (\<forall>j < DHCPS_MAX_IP. ls' ! j = ls ! j \<or>
    i \<le> j \<and> lease_expired (ls ! j) (tk j) \<and> ls' ! j = (ls ! j)\<lparr>mac := zero_mac\<rparr>)"
  using assms
proof (induction tk ch i yi ls rule: discover_loop.induct)
  case (1 tk ch i yi ls)
  show ?case
  proof (cases rule: discover_step_cases [where i = i and ls = ls and ch = ch and yi = yi and tk = tk])
    case expired
    with "1.prems" have "discover_loop tk ch (i + 1) i (ls[i := (ls ! i)\<lparr>mac := zero_mac\<rparr>]) = (y, ls')"
      by (subst (asm) discover_loop.simps) simp
    with "1.IH"(1) [OF expired(1,2,3) refl expired(4)] "1.prems"(1)
    have "length ls' = DHCPS_MAX_IP \<and> (\<forall>j < DHCPS_MAX_IP.
        let l = ls[i := (ls ! i)\<lparr>mac := zero_mac\<rparr>] ! j in
        ls' ! j = l \<or> i + 1 \<le> j \<and> lease_expired l (tk j) \<and> ls' ! j = l\<lparr>mac := zero_mac\<rparr>)"
      by (simp add: Let_def)
    with expired "1.prems"(1) show ?thesis
      by (auto simp: Let_def nth_list_update split: if_splits)
  next
    case live
    then show ?thesis
      using "1.prems" "1.IH"(2) [OF live(1,2,3) refl live(4)]
      by (subst (asm) discover_loop.simps) (auto simp: Let_def dest: Suc_leD)
  next
    case skip
    then show ?thesis
      using "1.prems" "1.IH"(3) [OF skip]
      by (subst (asm) discover_loop.simps) (auto dest: Suc_leD)
  qed (use "1.prems" in \<open>auto simp: discover_loop.simps [of tk ch i]\<close>)
qed

lemma discover_loop_choice:
  assumes "length ls = DHCPS_MAX_IP" and "discover_loop tk ch i yi ls = (y, ls')" and "y < DHCPS_MAX_IP"
  shows "mac (ls' ! y) = ch \<or> y = yi \<or> i \<le> y \<and> mac (ls' ! y) = zero_mac"
  using assms
proof (induction tk ch i yi ls rule: discover_loop.induct)
  case (1 tk ch i yi ls)
  show ?case
  proof (cases rule: discover_step_cases [where i = i and ls = ls and ch = ch and yi = yi and tk = tk])
    case expired
    let ?ls = "ls[i := (ls ! i)\<lparr>mac := zero_mac\<rparr>]"
    from expired "1.prems"(2) have call: "discover_loop tk ch (i + 1) i ?ls = (y, ls')"
      by (subst (asm) discover_loop.simps) simp
    have "ls' ! i = ?ls ! i"
      using discover_loop_frame [OF _ call] "1.prems"(1) expired(1) by auto
    then have "mac (ls' ! i) = zero_mac" using "1.prems"(1) expired(1) by simp
    with "1.IH"(1) [OF expired(1,2,3) refl expired(4) _ call "1.prems"(3)] "1.prems"(1)
    show ?thesis by auto
  next
    case live
    let ?yi = "if mac (ls ! i) = zero_mac then i else yi"
    from live "1.prems"(2) have call: "discover_loop tk ch (i + 1) ?yi ls = (y, ls')"
      by (subst (asm) discover_loop.simps) simp
    have "ls' ! i = ls ! i"
      using discover_loop_frame [OF "1.prems"(1) call] live(1) by auto
    with "1.IH"(2) [OF live(1,2,3) refl live(4) "1.prems"(1) call "1.prems"(3)]
    show ?thesis by (auto split: if_splits)
  next
    case skip
    then have "discover_loop tk ch (i + 1) yi ls = (y, ls')"
      using "1.prems"(2) by (subst (asm) discover_loop.simps) simp
    from "1.IH"(3) [OF skip "1.prems"(1) this "1.prems"(3)] show ?thesis by auto
  qed (use "1.prems" in \<open>auto simp: discover_loop.simps [of tk ch i]\<close>)
qed

text \<open>A client that already has a lease is offered the first address leased to it.\<close>

lemma discover_loop_match:
  assumes "j < DHCPS_MAX_IP" and "i \<le> j" and "length ls = DHCPS_MAX_IP" and "mac (ls ! j) = ch"
    and "\<forall>k. i \<le> k \<and> k < j \<longrightarrow> mac (ls ! k) \<noteq> ch"
  shows "fst (discover_loop tk ch i yi ls) = j"
  using assms
proof (induction tk ch i yi ls rule: discover_loop.induct)
  case (1 tk ch i yi ls)
  show ?case
  proof (cases "i = j")
    case True
    then show ?thesis using "1.prems" by (simp add: discover_loop.simps [of tk ch j yi ls])
  next
    case False
    then have ij: "i < DHCPS_MAX_IP" "mac (ls ! i) \<noteq> ch" "i + 1 \<le> j" using "1.prems" by auto
    then show ?thesis
      using "1.prems" "1.IH"(1) [OF ij(1,2) _ refl] "1.IH"(2) [OF ij(1,2) _ refl] "1.IH"(3) [OF ij(1,2)]
      by (auto simp: discover_loop.simps [of tk ch i] Let_def)
  qed
qed

lemma discover_loop_stays:
  "yi \<noteq> DHCPS_MAX_IP \<Longrightarrow> fst (discover_loop tk ch i yi ls) \<noteq> DHCPS_MAX_IP"
proof (induction tk ch i yi ls rule: discover_loop.induct)
  case (1 tk ch i yi ls)
  show ?case
  proof (cases rule: discover_step_cases [where i = i and ls = ls and ch = ch and yi = yi and tk = tk])
    case skip
    with "1.IH"(3) [OF skip] show ?thesis by (simp add: discover_loop.simps [of tk ch i])
  qed (use "1.prems" in \<open>auto simp: discover_loop.simps [of tk ch i]\<close>)
qed

lemma discover_loop_bound:
  "discover_loop tk ch i yi ls = (y, ls') \<Longrightarrow> yi \<le> DHCPS_MAX_IP \<Longrightarrow> y \<le> DHCPS_MAX_IP"
proof (induction tk ch i yi ls rule: discover_loop.induct)
  case (1 tk ch i yi ls)
  then show ?case
    by (cases rule: discover_step_cases [where i = i and ls = ls and ch = ch and yi = yi and tk = tk])
      (auto simp: discover_loop.simps [of tk ch i] Let_def split: if_splits)
qed

text \<open>No address is left only when every lease is live and held by somebody else.\<close>

lemma discover_loop_full:
  assumes "length ls = DHCPS_MAX_IP" and "fst (discover_loop tk ch i yi ls) = DHCPS_MAX_IP"
    and "i \<le> j" and "j < DHCPS_MAX_IP"
  shows "mac (ls ! j) \<noteq> ch \<and> mac (ls ! j) \<noteq> zero_mac \<and> \<not> lease_expired (ls ! j) (tk j)"
  using assms
proof (induction tk ch i yi ls rule: discover_loop.induct)
  case (1 tk ch i yi ls)
  note stay = discover_loop_stays [of _ tk ch]
  have i: "i < DHCPS_MAX_IP" using "1.prems" by simp
  have nm: "mac (ls ! i) \<noteq> ch"
    using "1.prems"(2) i by (auto simp: discover_loop.simps [of tk ch i])
  have yi: "yi = DHCPS_MAX_IP" using stay "1.prems"(2) by blast
  have ne: "\<not> lease_expired (ls ! i) (tk i)"
    using "1.prems"(2) i nm yi stay [of i "i + 1"]
    by (auto simp: discover_loop.simps [of tk ch i])
  have nz: "mac (ls ! i) \<noteq> zero_mac"
    using "1.prems"(2) i nm yi ne stay [of i "i + 1" ls]
    by (auto simp: discover_loop.simps [of tk ch i])
  show ?case
  proof (cases "i = j")
    case True
    then show ?thesis using nm nz ne by simp
  next
    case False
    then show ?thesis
      using "1.prems" "1.IH"(2) [OF i nm yi refl ne] i nm yi ne nz
      by (auto simp: discover_loop.simps [of tk ch i])
  qed
qed

section \<open>The outcome of a packet\<close>

text \<open>The reply of type \<open>t\<close> for address number \<open>y\<close>, written from the packet and the server's
  addresses only.\<close>

definition dhcp_reply :: "dhcp_env \<Rightarrow> dhcp_server_t \<Rightarrow> u8 \<Rightarrow> nat \<Rightarrow> bytes" where
  "dhcp_reply env d t y =
     (take 16 (copied env))[0 := DHCPOFFER] @ take 3 (ip d) @ [DHCPS_BASE_IP + of_nat y] @
     slice (copied env) 20 220 @ encode_opts (reply_opts d t) @ [DHCP_OPT_END]"

definition bcast_to_client :: "bytes \<Rightarrow> ip_addr \<times> u16 \<times> bytes" where
  "bcast_to_client m = ([255, 255, 255, 255], PORT_DHCP_CLIENT, m)"

text \<open>The lease a REQUEST leaves behind.\<close>

definition granted :: "dhcp_env \<Rightarrow> dhcp_server_lease_t" where
  "granted env = \<lparr> mac = client_mac env,
     expiry = ucast (drop_bit 16 (ticks env 0 + DEFAULT_LEASE_TIME_S * 1000)) \<rparr>"

text \<open>The message the handler works on.\<close>

definition work_msg :: "dhcp_env \<Rightarrow> dhcp_server_t \<Rightarrow> bytes" where
  "work_msg env d = overlay ((overlay (stack env) 0 (copied env))[op_off := DHCPOFFER]) yiaddr_off (take 4 (ip d))"

definition env_wf :: "dhcp_env \<Rightarrow> bool" where
  "env_wf env \<longleftrightarrow> length (stack env) = sizeof_dhcp_msg \<and> length (copied env) \<le> sizeof_dhcp_msg"

lemma length_work_msg:
  assumes "env_wf env" and "dhcp_wf d"
  shows "length (work_msg env d) = 548"
  using assms by (simp add: work_msg_def env_wf_def dhcp_wf_def dhcp_sizes)

lemma work_msg_nth:
  assumes "env_wf env" and "dhcp_wf d" and "243 \<le> length (copied env)" and "j < 243"
  shows "work_msg env d ! j = (if j = 0 then DHCPOFFER else if 16 \<le> j \<and> j < 20 then ip d ! (j - 16)
    else copied env ! j)"
  using assms
  by (auto simp: work_msg_def env_wf_def dhcp_wf_def dhcp_sizes overlay_nth nth_list_update)

lemma work_msg_chaddr:
  assumes "env_wf env" and "dhcp_wf d" and "243 \<le> length (copied env)"
  shows "slice (work_msg env d) chaddr_off MAC_LEN = client_mac env"
  using assms length_work_msg [OF assms(1,2)]
  by (intro nth_equalityI) (auto simp: client_mac_def slice_nth work_msg_nth dhcp_sizes)

lemma work_msg_header:
  assumes "env_wf env" and "dhcp_wf d" and "243 \<le> length (copied env)"
  shows "take 240 ((work_msg env d)[19 := b]) =
    (take 16 (copied env))[0 := DHCPOFFER] @ take 3 (ip d) @ [b] @ slice (copied env) 20 220"
    (is "?l = ?r")
proof (rule nth_equalityI)
  have ip: "length (ip d) = 4" using assms(2) by (simp add: dhcp_wf_def)
  have l: "length ?l = 240" using length_work_msg [OF assms(1,2)] by simp
  have r: "length ?r = 240" using assms(3) ip by simp
  show "length ?l = length ?r" using l r by simp
  fix j assume "j < length ?l"
  then have j: "j < 240" using l by simp
  consider "j < 16" | "16 \<le> j" "j < 19" | "j = 19" | "20 \<le> j" using j by linarith
  then show "?l ! j = ?r ! j"
    using assms(3) ip j length_work_msg [OF assms(1,2)]
    by cases (auto simp: work_msg_nth [OF assms] nth_append nth_list_update slice_nth
        nth_Cons' not_less)
qed

lemma length_dhcp_reply:
  "dhcp_wf d \<Longrightarrow> 243 \<le> length (copied env) \<Longrightarrow> length (dhcp_reply env d t y) = 274"
  by (simp add: dhcp_reply_def reply_opts_def dhcp_wf_def)

text \<open>Finishing and sending a message of type \<open>t\<close>.\<close>

lemma finish_and_send:
  assumes "env_wf env" and "dhcp_wf d" and "243 \<le> length (copied env)" and "ip d' = ip d"
    and "nm d' = nm d"
    and w: "opt_write_u8 ((work_msg env d)[19 := DHCPS_BASE_IP + of_nat y], 240) DHCP_OPT_MSG_TYPE t = Inr w"
  shows "\<exists>msg3. dhcp_finish_options d' w = Inr (msg3, 274) \<and> length msg3 = 548 \<and>
    take 274 msg3 = dhcp_reply env d t y"
proof -
  define m where "m = (work_msg env d)[19 := DHCPS_BASE_IP + of_nat y]"
  let ?pre = "take 240 m" and ?suf = "drop 240 m"
  have lm: "length m = 548" using length_work_msg [OF assms(1,2)] by (simp add: m_def)
  then have lp: "length ?pre = 240" and ls: "length ?suf = 308" by simp_all
  have "opt_write_u8 (?pre @ ?suf, length ?pre) DHCP_OPT_MSG_TYPE t =
      Inr ((?pre @ [DHCP_OPT_MSG_TYPE, 1, t]) @ drop 3 ?suf, length (?pre @ [DHCP_OPT_MSG_TYPE, 1, t]))"
    by (rule opt_write_u8_app) (simp add: lm)
  then have w': "w = ((?pre @ [DHCP_OPT_MSG_TYPE, 1, t]) @ drop 3 ?suf, length (?pre @ [DHCP_OPT_MSG_TYPE, 1, t]))"
    using w lp unfolding m_def [symmetric] by simp
  have d: "length (ip d) = 4" "length (nm d) = 4" using assms(2) by (auto simp: dhcp_wf_def)
  have ro: "reply_opts d' t = reply_opts d t" using assms by (simp add: reply_opts_def)
  let ?p2 = "(?pre @ [DHCP_OPT_MSG_TYPE, 1, t]) @ encode_opts (tl (reply_opts d t)) @ [DHCP_OPT_END]"
  obtain suf' where fin: "dhcp_finish_options d' w = Inr (?p2 @ suf', length ?p2)"
    and suf': "length suf' + 31 = length (drop 3 ?suf)"
    using finish_options_app [of d' "drop 3 ?suf" "?pre @ [DHCP_OPT_MSG_TYPE, 1, t]" t] assms(4,5) d lm ro w'
    by auto
  have p2: "?p2 = dhcp_reply env d t y"
    unfolding dhcp_reply_def m_def work_msg_header [OF assms(1,2,3)] by (simp add: reply_opts_def)
  have l2: "length ?p2 = 274" using lp d by (simp add: reply_opts_def)
  then have "length (?p2 @ suf') = 548" using suf' lm by simp
  with l2 show ?thesis using fin p2 by (metis append_eq_conv_conj)
qed

lemma process_short:
  assumes "env_wf env" and "tot_len env < 243 \<or> length (copied env) < 243"
  shows "dhcp_server_process env d = Inr ([Pbuf_Free], d)"
  using assms by (auto simp: dhcp_server_process_def env_wf_def dhcp_sizes memcpy_def)

lemma process_long:
  assumes "env_wf env" and "dhcp_wf d" and "243 \<le> tot_len env" and "243 \<le> length (copied env)"
  shows "dhcp_server_process env d =
    bindE (opt_find (drop (options_off + 4) (work_msg env d)) DHCP_OPT_MSG_TYPE) (\<lambda>r.
      case r of None \<Rightarrow> Inr ([Pbuf_Free], d)
      | Some m \<Rightarrow>
        bindE (buf_get (drop (options_off + 4) (work_msg env d)) (m + 2)) (\<lambda>t.
        bindE (if t = DHCPDISCOVER then dhcp_discover env (work_msg env d) d
               else if t = DHCPREQUEST then dhcp_request env (work_msg env d) d
               else Inr (None, d)) (\<lambda>(w, d').
          case w of None \<Rightarrow> Inr ([Pbuf_Free], d')
          | Some w0 \<Rightarrow>
            bindE (dhcp_finish_options d' w0) (\<lambda>(msg3, o1).
            bindE (dhcp_socket_sendto (pbuf_ok env) (nif env) (send_err env) (udp d')
                     msg3 o1 0xffffffff PORT_DHCP_CLIENT) (\<lambda>(_, cs).
              Inr (cs @ [Pbuf_Free], d'))))))"
proof -
  have m0: "memcpy (stack env) 0 (copied env) (length (copied env)) = Inr (overlay (stack env) 0 (copied env))"
    using assms(1) by (simp add: memcpy_def env_wf_def)
  have m1: "buf_put (overlay (stack env) 0 (copied env)) op_off DHCPOFFER =
      Inr ((overlay (stack env) 0 (copied env))[op_off := DHCPOFFER])"
    using assms(1) by (simp add: env_wf_def dhcp_sizes)
  have m2: "memcpy ((overlay (stack env) 0 (copied env))[op_off := DHCPOFFER]) yiaddr_off (ip d) 4 = Inr (work_msg env d)"
    using assms(1,2) by (simp add: memcpy_def env_wf_def dhcp_wf_def dhcp_sizes work_msg_def)
  have "\<not> tot_len env < DHCP_MIN_SIZE" "\<not> length (copied env) < DHCP_MIN_SIZE"
    using assms(3,4) by (simp_all add: DHCP_MIN_SIZE_def)
  then show ?thesis
    by (simp only: dhcp_server_process_def m0 m1 m2 bindE.simps Let_def if_False)
qed

lemma discover_outcome:
  assumes "env_wf env" and "dhcp_wf d" and "243 \<le> length (copied env)"
    and r: "dhcp_discover env (work_msg env d) d = Inr (w, d')"
  shows "\<exists>y ls. discover_loop (ticks env) (client_mac env) 0 DHCPS_MAX_IP (lease d) = (y, ls) \<and>
    d' = d\<lparr>lease := ls\<rparr> \<and> (y = DHCPS_MAX_IP \<and> w = None \<or> y \<noteq> DHCPS_MAX_IP \<and>
      (\<exists>w0. w = Some w0 \<and> opt_write_u8 ((work_msg env d)[19 := DHCPS_BASE_IP + of_nat y], 240)
         DHCP_OPT_MSG_TYPE DHCPOFFER = Inr w0))"
proof -
  obtain y ls where y: "discover_loop (ticks env) (client_mac env) 0 DHCPS_MAX_IP (lease d) = (y, ls)"
    by fastforce
  then show ?thesis
    using r length_work_msg [OF assms(1,2)]
    by (auto simp: dhcp_discover_def work_msg_chaddr [OF assms(1,2,3)] Let_def buf_put_def
        yiaddr_off_def options_off_def split: if_splits)
qed

lemma lease_update_all: "(l :: dhcp_server_lease_t)\<lparr>mac := a, expiry := b\<rparr> = \<lparr>mac = a, expiry = b\<rparr>"
  by simp

lemma request_outcome:
  assumes "env_wf env" and "dhcp_wf d" and "243 \<le> length (copied env)"
    and r: "dhcp_request env (work_msg env d) d = Inr (w, d')"
  shows "w = None \<and> d' = d \<or> (\<exists>y < DHCPS_MAX_IP.
      (mac (lease d ! y) = client_mac env \<or> mac (lease d ! y) = zero_mac) \<and>
      d' = d\<lparr>lease := (lease d)[y := granted env]\<rparr> \<and>
      (\<exists>w0. w = Some w0 \<and> opt_write_u8 ((work_msg env d)[19 := DHCPS_BASE_IP + of_nat y], 240)
         DHCP_OPT_MSG_TYPE DHCPACK = Inr w0))"
proof (cases w)
  case None
  then show ?thesis using r
    by (auto simp: dhcp_request_def work_msg_chaddr [OF assms(1,2,3)] Let_def split: if_splits option.splits)
next
  case (Some w0)
  then obtain b where yi: "unat (b - DHCPS_BASE_IP) < DHCPS_MAX_IP"
    and own: "mac (lease d ! unat (b - DHCPS_BASE_IP)) = client_mac env \<or>
        mac (lease d ! unat (b - DHCPS_BASE_IP)) = zero_mac"
    and d': "d' = d\<lparr>lease := (lease d)[unat (b - DHCPS_BASE_IP) := granted env]\<rparr>"
    and w0: "opt_write_u8 ((work_msg env d)[19 := b], 240) DHCP_OPT_MSG_TYPE DHCPACK = Inr w0"
    using r length_work_msg [OF assms(1,2)]
    by (auto simp: dhcp_request_def work_msg_chaddr [OF assms(1,2,3)] Let_def buf_put_def granted_def
        lease_update_all yiaddr_off_def options_off_def not_le split: if_splits option.splits)
  have "DHCPS_BASE_IP + of_nat (unat (b - DHCPS_BASE_IP)) = b" by simp
  with w0 have "opt_write_u8 ((work_msg env d)[19 := DHCPS_BASE_IP + of_nat (unat (b - DHCPS_BASE_IP))], 240)
      DHCP_OPT_MSG_TYPE DHCPACK = Inr w0"
    by simp
  then show ?thesis using yi own d' Some by blast
qed

text \<open>Inversion of the tail of the handler: the switch, then finish and send.\<close>

lemma process_result:
  assumes "bindE found (\<lambda>r.
      case r of None \<Rightarrow> Inr ([Pbuf_Free], d)
      | Some m \<Rightarrow> bindE (get m) (\<lambda>t. bindE (switch t) (\<lambda>(w, d').
          case w of None \<Rightarrow> Inr ([Pbuf_Free], d')
          | Some w0 \<Rightarrow> bindE (fin d' w0) (\<lambda>(msg3, o1). bindE (send d' msg3 o1) (\<lambda>(_, cs).
              Inr (cs @ [Pbuf_Free], d')))))) = Inr (cs, d')"
    and other: "switch 0 = Inr (None, d)"
  shows "\<exists>t w d1. switch t = Inr (w, d1) \<and> (w = None \<longrightarrow> sent cs = [] \<and> d' = d1) \<and>
    (\<forall>w0. w = Some w0 \<longrightarrow> d' = d1 \<and> (\<exists>m3 o3 x cs'. fin d1 w0 = Inr (m3, o3) \<and>
       send d1 m3 o3 = Inr (x, cs') \<and> cs = cs' @ [Pbuf_Free]))"
  using assms by (auto split: option.splits) blast+

text \<open>What the end of \<open>dhcp_server_process\<close> puts on the network once a reply of type \<open>t\<close> is begun.\<close>

lemma reply_sent:
  assumes "env_wf env" "dhcp_wf d" "243 \<le> length (copied env)"
    and "opt_write_u8 ((work_msg env d)[19 := DHCPS_BASE_IP + of_nat y], 240) DHCP_OPT_MSG_TYPE t = Inr w0"
    and "dhcp_finish_options d1 w0 = Inr (m3, o3)" and "ip d1 = ip d" "nm d1 = nm d"
    and "dhcp_socket_sendto (pbuf_ok env) (nif env) (send_err env) (udp d1) m3 o3 0xffffffff PORT_DHCP_CLIENT = Inr (x, cs)"
  shows "sent cs = (if pbuf_ok env then [bcast_to_client (dhcp_reply env d t y)] else [])"
  using finish_and_send [OF assms(1-3,6,7,4)] assms(5,8) length_dhcp_reply [OF assms(2,3), of t y]
  by (auto simp: dhcp_socket_sendto_def Let_def memcpy_def overlay_def bcast_to_client_def ip4_of_u32_def
      be_bytes_def le_bytes_def split: if_splits option.splits)

lemma offer_sent:
  assumes wf: "env_wf env" "dhcp_wf d" "243 \<le> length (copied env)"
    and "dhcp_discover env (work_msg env d) d = Inr (Some w0, d1)"
    and f: "dhcp_finish_options d1 w0 = Inr (m3, o3)"
      "dhcp_socket_sendto (pbuf_ok env) (nif env) (send_err env) (udp d1) m3 o3 0xffffffff PORT_DHCP_CLIENT = Inr (x, cs)"
  shows "\<exists>y ls. discover_loop (ticks env) (client_mac env) 0 DHCPS_MAX_IP (lease d) = (y, ls) \<and>
    d1 = d\<lparr>lease := ls\<rparr> \<and>
    sent cs = (if y \<noteq> DHCPS_MAX_IP \<and> pbuf_ok env
               then [bcast_to_client (dhcp_reply env d DHCPOFFER y)] else [])"
proof -
  from discover_outcome [OF wf assms(4)] obtain y ls where
    y: "discover_loop (ticks env) (client_mac env) 0 DHCPS_MAX_IP (lease d) = (y, ls)"
      "d1 = d\<lparr>lease := ls\<rparr>" "y \<noteq> DHCPS_MAX_IP"
    and o: "opt_write_u8 ((work_msg env d)[19 := DHCPS_BASE_IP + of_nat y], 240) DHCP_OPT_MSG_TYPE DHCPOFFER = Inr w0"
    by auto
  show ?thesis using reply_sent [OF wf o f(1) _ _ f(2)] y by auto
qed

lemma ack_sent:
  assumes wf: "env_wf env" "dhcp_wf d" "243 \<le> length (copied env)"
    and "dhcp_request env (work_msg env d) d = Inr (Some w0, d1)"
    and f: "dhcp_finish_options d1 w0 = Inr (m3, o3)"
      "dhcp_socket_sendto (pbuf_ok env) (nif env) (send_err env) (udp d1) m3 o3 0xffffffff PORT_DHCP_CLIENT = Inr (x, cs)"
  shows "\<exists>y < DHCPS_MAX_IP. (mac (lease d ! y) = client_mac env \<or> mac (lease d ! y) = zero_mac) \<and>
    d1 = d\<lparr>lease := (lease d)[y := granted env]\<rparr> \<and>
    sent cs = (if pbuf_ok env then [bcast_to_client (dhcp_reply env d DHCPACK y)] else [])"
proof -
  from request_outcome [OF wf assms(4)] obtain y where
    y: "y < DHCPS_MAX_IP" "mac (lease d ! y) = client_mac env \<or> mac (lease d ! y) = zero_mac"
      "d1 = d\<lparr>lease := (lease d)[y := granted env]\<rparr>"
    and o: "opt_write_u8 ((work_msg env d)[19 := DHCPS_BASE_IP + of_nat y], 240) DHCP_OPT_MSG_TYPE DHCPACK = Inr w0"
    by auto
  show ?thesis using reply_sent [OF wf o f(1) _ _ f(2)] y by auto
qed

text \<open>The three things a packet can do.\<close>

lemma process_outcome:
  assumes e: "env_wf env" and d: "dhcp_wf d" and r: "dhcp_server_process env d = Inr (cs, d')"
  shows "d' = d \<and> sent cs = [] \<or>
    (\<exists>y ls. discover_loop (ticks env) (client_mac env) 0 DHCPS_MAX_IP (lease d) = (y, ls) \<and>
       d' = d\<lparr>lease := ls\<rparr> \<and>
       sent cs = (if y \<noteq> DHCPS_MAX_IP \<and> pbuf_ok env
                  then [bcast_to_client (dhcp_reply env d DHCPOFFER y)] else [])) \<or>
    (\<exists>y < DHCPS_MAX_IP. (mac (lease d ! y) = client_mac env \<or> mac (lease d ! y) = zero_mac) \<and>
       d' = d\<lparr>lease := (lease d)[y := granted env]\<rparr> \<and>
       sent cs = (if pbuf_ok env then [bcast_to_client (dhcp_reply env d DHCPACK y)] else []))"
proof (cases "tot_len env < 243 \<or> length (copied env) < 243")
  case True
  then have "d' = d \<and> sent cs = []" using r process_short [OF e True, of d] by auto
  then show ?thesis by blast
next
  case False
  then have len: "243 \<le> tot_len env" "243 \<le> length (copied env)" by auto
  note r' = r [unfolded process_long [OF e d len]]
  obtain t w d1 where sw: "(if t = DHCPDISCOVER then dhcp_discover env (work_msg env d) d
        else if t = DHCPREQUEST then dhcp_request env (work_msg env d) d else Inr (None, d)) = Inr (w, d1)"
    and none: "w = None \<Longrightarrow> sent cs = [] \<and> d' = d1"
    and some: "\<And>w0. w = Some w0 \<Longrightarrow> d' = d1 \<and> (\<exists>m3 o3 x cs'. dhcp_finish_options d1 w0 = Inr (m3, o3) \<and>
        dhcp_socket_sendto (pbuf_ok env) (nif env) (send_err env) (udp d1) m3 o3 0xffffffff PORT_DHCP_CLIENT = Inr (x, cs') \<and>
        cs = cs' @ [Pbuf_Free])"
    using process_result [OF r'] by (auto simp: dhcp_consts)
  show ?thesis
  proof (cases w)
    case None
    then show ?thesis using sw none discover_outcome [OF e d len(2), of w d1] request_outcome [OF e d len(2), of w d1]
      by (auto split: if_splits)
  next
    case (Some w0)
    from some [OF Some] obtain m3 o3 x cs' where fs: "dhcp_finish_options d1 w0 = Inr (m3, o3)"
        "dhcp_socket_sendto (pbuf_ok env) (nif env) (send_err env) (udp d1) m3 o3 0xffffffff PORT_DHCP_CLIENT = Inr (x, cs')"
        "cs = cs' @ [Pbuf_Free]" "d' = d1"
      by blast
    have "dhcp_discover env (work_msg env d) d = Inr (Some w0, d1) \<or>
        dhcp_request env (work_msg env d) d = Inr (Some w0, d1)"
      using sw Some by (auto split: if_splits)
    moreover have "sent cs = sent cs'" using fs(3) by simp
    ultimately show ?thesis
      using offer_sent [OF e d len(2) _ fs(1,2)] ack_sent [OF e d len(2) _ fs(1,2)] fs(4)
      by (elim disjE) (simp_all only:, blast+)
  qed
qed

end
