(* ===== verification/Dhcp_Correct.thy ===== *)
theory Dhcp_Correct
  imports Dhcp_Leases
begin

text \<open>
  Correctness of the DHCP server: addresses are never taken from a client with a live lease,
  an acknowledged address is bound for the lease time, packets whose options the server can parse never make the
  handler touch memory outside its objects, which packets do is characterised, and the DISCOVER/REQUEST exchange goes through.
\<close>

section \<open>Packets\<close>

definition DHCP_OPT_PAD :: u8 where "DHCP_OPT_PAD = 0"

text \<open>A packet whose option area is an option list as the server parses it: 240 bytes of header and magic
  cookie, the options, the end marker, anything after it. The two options the server reads
  are as long as the protocol says. Every byte in the place of a code that is not the end marker starts an option with a length; a
  pad byte of RFC 2132, which has no length, is not treated otherwise by the server. So the packets of RFC 2132 with no
  pad byte before the end marker are of this form, and those with one only by chance.\<close>

definition well_formed_packet :: "dhcp_option list \<Rightarrow> bytes \<Rightarrow> bool" where
  "well_formed_packet os pkt \<longleftrightarrow>
     opts_wf os \<and> length (encode_opts os) < 308 \<and>
     (\<exists>hdr rest. length hdr = 240 \<and> pkt = hdr @ encode_opts os @ DHCP_OPT_END # rest) \<and>
     243 \<le> length pkt \<and> length pkt \<le> sizeof_dhcp_msg \<and>
     (\<forall>d. map_of os DHCP_OPT_MSG_TYPE = Some d \<longrightarrow> length d = 1) \<and>
     (\<forall>d. map_of os DHCP_OPT_REQUESTED_IP = Some d \<longrightarrow> length d = 4)"

definition receives :: "dhcp_option list \<Rightarrow> dhcp_env \<Rightarrow> bool" where
  "receives os env \<longleftrightarrow> length (stack env) = sizeof_dhcp_msg \<and> well_formed_packet os (copied env) \<and>
     length (copied env) \<le> tot_len env"

lemma receives_env_wf: "receives os env \<Longrightarrow> env_wf env"
  by (simp add: receives_def env_wf_def well_formed_packet_def)

lemma receives_long: "receives os env \<Longrightarrow> 243 \<le> tot_len env \<and> 243 \<le> length (copied env)"
  by (auto simp: receives_def well_formed_packet_def)

lemma opt_pos_data:
  "opt_pos os cmd = Some p \<Longrightarrow> \<exists>d. map_of os cmd = Some d \<and>
     p + 2 + length d \<le> length (encode_opts os) \<and> slice (encode_opts os @ r) (p + 2) (length d) = d"
proof (induction os arbitrary: p)
  case (Cons x os)
  obtain c d where x: "x = (c, d)" by fastforce
  show ?case
  proof (cases "c = cmd")
    case True
    then show ?thesis using Cons.prems by (auto simp: x slice_def)
  next
    case False
    then obtain q where q: "opt_pos os cmd = Some q" and p: "p = q + 2 + length d"
      using Cons.prems by (auto simp: x)
    from Cons.IH [OF q] obtain d' where d': "map_of os cmd = Some d'"
      "q + 2 + length d' \<le> length (encode_opts os)" "slice (encode_opts os @ r) (q + 2) (length d') = d'"
      by blast
    have "drop (p + 2) (encode_opts (x # os) @ r) = drop (q + 2) (encode_opts os @ r)"
      by (simp add: x p)
    then show ?thesis using d' False by (auto simp: x p slice_def)
  qed
qed simp

lemma opt_pos_None: "opt_pos os cmd = None \<longleftrightarrow> map_of os cmd = None"
  by (induction os) auto

lemma work_msg_options:
  assumes "receives os env" and "dhcp_wf d"
  shows "\<exists>rest. drop 240 (work_msg env d) = encode_opts os @ DHCP_OPT_END # rest \<and>
    length (encode_opts os @ DHCP_OPT_END # rest) = 308"
proof -
  from assms(1) obtain hdr rest where c: "length hdr = 240"
      "copied env = hdr @ encode_opts os @ DHCP_OPT_END # rest"
    by (auto simp: receives_def well_formed_packet_def)
  have e: "env_wf env" by (rule receives_env_wf [OF assms(1)])
  have len: "length (copied env) \<le> 548" "length (stack env) = 548" "length (ip d) = 4"
    using e assms(2) by (auto simp: env_wf_def dhcp_sizes dhcp_wf_def)
  let ?m = "overlay (stack env) 0 (copied env)"
  have "drop 240 (work_msg env d) = drop 240 ?m"
    using len by (simp add: work_msg_def dhcp_sizes overlay_def [of "?m[0 := DHCPOFFER]"])
  also have "\<dots> = encode_opts os @ DHCP_OPT_END # rest @ drop (length (copied env)) (stack env)"
    using c len(1) by (simp add: overlay_def)
  finally have "drop 240 (work_msg env d) = encode_opts os @ DHCP_OPT_END # rest @ drop (length (copied env)) (stack env)" .
  moreover have "length (drop 240 (work_msg env d)) = 308"
    using length_work_msg [OF e assms(2)] by simp
  ultimately show ?thesis by metis
qed

text \<open>What the handler reads from a well-formed packet.\<close>

lemma find_option:
  assumes "receives os env" and "dhcp_wf d"
  shows "opt_find (drop 240 (work_msg env d)) cmd = Inr (opt_pos os cmd)"
proof -
  from work_msg_options [OF assms] obtain rest where
    "drop 240 (work_msg env d) = encode_opts os @ DHCP_OPT_END # rest" by blast
  then show ?thesis
    using assms(1) by (simp add: opt_find_encode receives_def well_formed_packet_def)
qed

lemma read_option:
  assumes "receives os env" and "dhcp_wf d" and "opt_pos os cmd = Some p"
  shows "\<exists>dat. map_of os cmd = Some dat \<and> p + 2 + length dat < 308 \<and>
    slice (drop 240 (work_msg env d)) (p + 2) (length dat) = dat"
proof -
  from work_msg_options [OF assms(1,2)] obtain rest where
    o: "drop 240 (work_msg env d) = encode_opts os @ DHCP_OPT_END # rest" by blast
  from opt_pos_data [OF assms(3)] obtain dat where "map_of os cmd = Some dat"
    "p + 2 + length dat \<le> length (encode_opts os)"
    "slice (encode_opts os @ DHCP_OPT_END # rest) (p + 2) (length dat) = dat" by blast
  then show ?thesis using assms(1) unfolding o by (auto simp: receives_def well_formed_packet_def)
qed

lemma msg_type_byte:
  assumes r: "receives os env" and d: "dhcp_wf d" and t: "map_of os DHCP_OPT_MSG_TYPE = Some [t]"
  shows "\<exists>p. opt_pos os DHCP_OPT_MSG_TYPE = Some p \<and> buf_get (drop 240 (work_msg env d)) (p + 2) = Inr t"
proof -
  obtain p where p: "opt_pos os DHCP_OPT_MSG_TYPE = Some p"
    using t opt_pos_None by (metis not_None_eq option.distinct(1))
  from read_option [OF r d p] have s: "p + 3 < 308" "slice (drop 240 (work_msg env d)) (p + 2) 1 = [t]"
    using t by auto
  have l: "length (drop 240 (work_msg env d)) = 308"
    using length_work_msg [OF receives_env_wf [OF r] d] by simp
  then have "drop 240 (work_msg env d) ! (p + 2) = t"
    using s slice_nth [of "p + 2" 1 "drop 240 (work_msg env d)" 0] by simp
  then show ?thesis using p s l by (simp add: buf_get_def)
qed

section \<open>Lease times\<close>

lemma granted_remaining:
  "\<exists>r \<le> 65535. (push_bit 16 (ucast (expiry (granted env))) OR 0xffff) - (ticks env 0 + of_nat n) =
     (of_nat (86400000 + r) - of_nat n :: u32)"
proof -
  define T where "T = ticks env 0 + DEFAULT_LEASE_TIME_S * 1000"
  let ?r = "65535 - unat T mod 65536"
  have "unat T mod 65536 \<le> 65535" using mod_less_divisor [of 65536 "unat T"] by simp
  then have "unat T div 65536 * 65536 + 65535 = unat T + ?r"
    using div_mult_mod_eq [of "unat T" 65536] by linarith
  then have "(of_nat (unat T div 65536 * 65536 + 65535) :: u32) = T + of_nat ?r"
    by (metis of_nat_add of_nat_unat ucast_id)
  then have "push_bit 16 (ucast (expiry (granted env))) OR 0xffff = T + of_nat ?r"
    unfolding push_or_ffff by (simp add: granted_def T_def [symmetric] unat_top_half)
  then show ?thesis
    by (intro exI [of _ ?r]) (simp add: T_def DEFAULT_LEASE_TIME_S_def)
qed

lemma granted_live:
  assumes "n \<le> 86400000"
  shows "\<not> lease_expired (granted env) (ticks env 0 + of_nat n)"
proof -
  obtain r where r: "r \<le> 65535"
    "(push_bit 16 (ucast (expiry (granted env))) OR 0xffff) - (ticks env 0 + of_nat n) =
      (of_nat (86400000 + r) - of_nat n :: u32)"
    using granted_remaining by blast
  have "of_nat (86400000 + r) - of_nat n = (of_nat (86400000 + r - n) :: u32)"
    using assms by (simp add: of_nat_diff)
  moreover have "unat (of_nat (86400000 + r - n) :: u32) = 86400000 + r - n"
    using r(1) by (simp add: unat_of_nat)
  ultimately show ?thesis using r
    by (simp add: lease_expired_def sint_neg_u32)
qed

lemma granted_expires:
  assumes "86465535 < n" and "n \<le> 2147483648"
  shows "lease_expired (granted env) (ticks env 0 + of_nat n)"
proof -
  obtain r where r: "r \<le> 65535"
    "(push_bit 16 (ucast (expiry (granted env))) OR 0xffff) - (ticks env 0 + of_nat n) =
      (of_nat (86400000 + r) - of_nat n :: u32)"
    using granted_remaining by blast
  define k where "k = n - (86400000 + r)"
  have k: "0 < k" "k \<le> 2147483648" "n = 86400000 + r + k" using assms r(1) by (auto simp: k_def)
  have "of_nat (86400000 + r) - of_nat n = (- of_nat k :: u32)" by (simp add: k(3))
  also have "\<dots> = of_nat (4294967296 - k)"
  proof -
    have "(of_nat (4294967296 - k) + of_nat k :: u32) = of_nat 4294967296"
      using k(2) by (simp flip: of_nat_add)
    moreover have "(of_nat 4294967296 :: u32) = 0" by (simp only: word_of_nat_eq_0_iff) simp
    ultimately show ?thesis by (metis eq_neg_iff_add_eq_0)
  qed
  finally have w: "of_nat (86400000 + r) - of_nat n = (of_nat (4294967296 - k) :: u32)" .
  have "unat (of_nat (4294967296 - k) :: u32) = 4294967296 - k"
    using k(1) by (simp add: unat_of_nat)
  then show ?thesis unfolding lease_expired_def r(2) w sint_neg_u32 using k(2) by simp
qed

section \<open>Lease table\<close>

definition reply_address :: "bytes \<Rightarrow> nat" where
  "reply_address m = unat (m ! (yiaddr_off + 3) - DHCPS_BASE_IP)"

lemma reply_address_reply:
  assumes "dhcp_wf d" and "243 \<le> length (copied env)" and "y < DHCPS_MAX_IP"
  shows "reply_address (dhcp_reply env d t y) = y"
proof -
  have "dhcp_reply env d t y ! 19 = DHCPS_BASE_IP + of_nat y"
    using assms(1,2) by (simp add: dhcp_reply_def nth_append dhcp_wf_def)
  then show ?thesis using assms(3) by (simp add: reply_address_def dhcp_sizes unat_of_nat)
qed

lemma process_keeps_wf:
  assumes "env_wf env" and "dhcp_wf d" and "dhcp_server_process env d = Inr (cs, d')"
  shows "dhcp_wf d' \<and> ip d' = ip d \<and> nm d' = nm d \<and> udp d' = udp d"
proof -
  have z: "length zero_mac = MAC_LEN" by (simp add: zero_mac_def)
  note wf = assms(2) [unfolded dhcp_wf_def]
  consider "d' = d"
    | y ls where "discover_loop (ticks env) (client_mac env) 0 DHCPS_MAX_IP (lease d) = (y, ls)" "d' = d\<lparr>lease := ls\<rparr>"
    | y where "d' = d\<lparr>lease := (lease d)[y := granted env]\<rparr>" "d' \<noteq> d"
    using process_outcome [OF assms] by blast
  then show ?thesis
  proof cases
    case (2 y ls)
    then have "length ls = DHCPS_MAX_IP" and "\<forall>j < DHCPS_MAX_IP. length (mac (ls ! j)) = MAC_LEN"
      using discover_loop_frame [of "lease d"] wf z by (force simp: in_set_conv_nth)+
    then show ?thesis using 2 wf by (auto simp: dhcp_wf_def in_set_conv_nth)
  next
    case (3 y)
    have "length (client_mac env) = MAC_LEN"
    proof (rule ccontr)
      assume "length (client_mac env) \<noteq> MAC_LEN"
      then have "length (copied env) < 243"
        by (auto simp: client_mac_def slice_def dhcp_sizes not_less)
      then show False using process_short [OF assms(1), of d] assms(3) 3 by simp
    qed
    then show ?thesis using 3 wf
      by (auto simp: dhcp_wf_def granted_def dest!: set_update_subset_insert [THEN subsetD])
  qed (use assms in simp)
qed

interpretation dhcp: preserving dhcp_server_process env_wf dhcp_wf
  using process_keeps_wf by unfold_locales blast

text \<open>One packet leaves another client's live lease alone and hands its address to nobody.\<close>

lemma process_exclusive:
  assumes e: "env_wf env" and d: "dhcp_wf d" and r: "dhcp_server_process env d = Inr (cs, d')"
    and i: "i < DHCPS_MAX_IP" and held: "mac (lease d ! i) \<noteq> zero_mac" "mac (lease d ! i) \<noteq> client_mac env"
    and live: "\<not> lease_expired (lease d ! i) (ticks env i)"
  shows "lease d' ! i = lease d ! i \<and> (\<forall>(dst, port, m) \<in> set (sent cs). reply_address m \<noteq> i)"
proof (cases "243 \<le> length (copied env)")
  case False
  then show ?thesis using process_short [OF e, of d] r by auto
next
  case True
  have len: "length (lease d) = DHCPS_MAX_IP" using d by (simp add: dhcp_wf_def)
  note addr = reply_address_reply [OF d True]
  from process_outcome [OF e d r] show ?thesis
  proof (elim disjE exE conjE)
    fix y ls assume dl: "discover_loop (ticks env) (client_mac env) 0 DHCPS_MAX_IP (lease d) = (y, ls)"
      and s: "d' = d\<lparr>lease := ls\<rparr>" "sent cs = (if y \<noteq> DHCPS_MAX_IP \<and> pbuf_ok env
        then [bcast_to_client (dhcp_reply env d DHCPOFFER y)] else [])"
    have same: "ls ! i = lease d ! i" using discover_loop_frame [OF len dl] i live by blast
    have "y \<noteq> i" using discover_loop_choice [OF len dl] same held i by auto
    moreover have "y < DHCPS_MAX_IP \<or> y = DHCPS_MAX_IP"
      using discover_loop_bound [OF dl] by auto
    ultimately show ?thesis using s same addr by (auto simp: bcast_to_client_def)
  qed (use held i len addr in \<open>auto simp: bcast_to_client_def nth_list_update\<close>)
qed

section \<open>Answering well-formed packets\<close>

lemma reply_total:
  assumes e: "env_wf env" and d: "dhcp_wf d" and len: "243 \<le> length (copied env)"
    and i: "ip d1 = ip d" "nm d1 = nm d" and u: "udp d1 = Some u"
  shows "\<exists>w0 cs. opt_write_u8 ((work_msg env d)[19 := DHCPS_BASE_IP + of_nat y], 240) DHCP_OPT_MSG_TYPE t = Inr w0 \<and>
    bindE (dhcp_finish_options d1 w0) (\<lambda>(msg3, o1).
      bindE (dhcp_socket_sendto (pbuf_ok env) (nif env) (send_err env) (udp d1) msg3 o1 0xffffffff PORT_DHCP_CLIENT)
        (\<lambda>(_, cs). Inr (cs @ [Pbuf_Free], d1))) = Inr (cs, d1) \<and>
    sent cs = (if pbuf_ok env then [bcast_to_client (dhcp_reply env d t y)] else [])"
proof -
  define m where "m = (work_msg env d)[19 := DHCPS_BASE_IP + of_nat y]"
  have lm: "length m = 548" using length_work_msg [OF e d] by (simp add: m_def)
  have "opt_write_u8 (take 240 m @ drop 240 m, length (take 240 m)) DHCP_OPT_MSG_TYPE t =
      Inr ((take 240 m @ [DHCP_OPT_MSG_TYPE, 1, t]) @ drop 3 (drop 240 m), length (take 240 m @ [DHCP_OPT_MSG_TYPE, 1, t]))"
    by (rule opt_write_u8_app) (simp add: lm)
  then obtain w0 where w: "opt_write_u8 (m, 240) DHCP_OPT_MSG_TYPE t = Inr w0" using lm by simp
  then obtain msg3 where f: "dhcp_finish_options d1 w0 = Inr (msg3, 274)" "length msg3 = 548"
      "take 274 msg3 = dhcp_reply env d t y"
    using finish_and_send [OF e d len i] unfolding m_def by blast
  have "\<exists>x cs. dhcp_socket_sendto (pbuf_ok env) (nif env) (send_err env) (udp d1) msg3 274 0xffffffff PORT_DHCP_CLIENT = Inr (x, cs) \<and>
      sent cs = (if pbuf_ok env then [bcast_to_client (dhcp_reply env d t y)] else [])"
    using f(2,3) u length_dhcp_reply [OF d len, of t y]
    by (auto simp: dhcp_socket_sendto_def memcpy_def overlay_def bcast_to_client_def ip4_of_u32_def
        be_bytes_def le_bytes_def)
  then show ?thesis using f(1) w unfolding m_def by auto
qed

lemma discover_total:
  assumes r: "receives os env" and d: "dhcp_wf d" and u: "udp d = Some u"
    and t: "map_of os DHCP_OPT_MSG_TYPE = Some [DHCPDISCOVER]"
    and l: "discover_loop (ticks env) (client_mac env) 0 DHCPS_MAX_IP (lease d) = (y, ls)"
  shows "\<exists>cs. dhcp_server_process env d = Inr (cs, d\<lparr>lease := ls\<rparr>) \<and>
    sent cs = (if y \<noteq> DHCPS_MAX_IP \<and> pbuf_ok env then [bcast_to_client (dhcp_reply env d DHCPOFFER y)] else [])"
proof -
  note e = receives_env_wf [OF r] and len = receives_long [OF r]
  obtain p where p: "opt_pos os DHCP_OPT_MSG_TYPE = Some p"
    "buf_get (drop (options_off + 4) (work_msg env d)) (p + 2) = Inr DHCPDISCOVER"
    using msg_type_byte [OF r d t] by (auto simp: options_off_def)
  have f: "opt_find (drop (options_off + 4) (work_msg env d)) DHCP_OPT_MSG_TYPE = Inr (Some p)"
    using find_option [OF r d] p(1) by (simp add: options_off_def)
  have dd: "dhcp_discover env (work_msg env d) d =
      (if y = DHCPS_MAX_IP then Inr (None, d\<lparr>lease := ls\<rparr>)
       else bindE (opt_write_u8 ((work_msg env d)[19 := DHCPS_BASE_IP + of_nat y], 240) DHCP_OPT_MSG_TYPE DHCPOFFER)
              (\<lambda>w. Inr (Some w, d\<lparr>lease := ls\<rparr>)))"
    using length_work_msg [OF e d] len
    by (simp add: dhcp_discover_def work_msg_chaddr [OF e d] l yiaddr_off_def options_off_def)
  obtain w0 cs where w: "opt_write_u8 ((work_msg env d)[19 := DHCPS_BASE_IP + of_nat y], 240) DHCP_OPT_MSG_TYPE DHCPOFFER = Inr w0"
    and c: "bindE (dhcp_finish_options (d\<lparr>lease := ls\<rparr>) w0) (\<lambda>(msg3, o1).
        bindE (dhcp_socket_sendto (pbuf_ok env) (nif env) (send_err env) (udp (d\<lparr>lease := ls\<rparr>)) msg3 o1 0xffffffff PORT_DHCP_CLIENT)
          (\<lambda>(_, cs). Inr (cs @ [Pbuf_Free], d\<lparr>lease := ls\<rparr>))) = Inr (cs, d\<lparr>lease := ls\<rparr>)"
      "sent cs = (if pbuf_ok env then [bcast_to_client (dhcp_reply env d DHCPOFFER y)] else [])"
    using reply_total [OF e d, of "d\<lparr>lease := ls\<rparr>" u y DHCPOFFER] u len by auto
  show ?thesis
    unfolding process_long [OF e d conjunct1 [OF len] conjunct2 [OF len]] f
    using p(2) dd w c by (auto simp: dhcp_consts)
qed

text \<open>What a request that asks for an address does to the reply under construction and to the table.\<close>

lemma request_evaluates:
  assumes r: "receives os env" and d: "dhcp_wf d"
    and a: "map_of os DHCP_OPT_REQUESTED_IP = Some [a0, a1, a2, a3]"
  defines "y \<equiv> unat (a3 - DHCPS_BASE_IP)"
  shows "dhcp_request env (work_msg env d) d =
      (if [a0, a1, a2] = take 3 (ip d) \<and> y < DHCPS_MAX_IP \<and>
          (mac (lease d ! y) = client_mac env \<or> mac (lease d ! y) = zero_mac)
       then bindE (opt_write_u8 ((work_msg env d)[19 := DHCPS_BASE_IP + of_nat y], 240) DHCP_OPT_MSG_TYPE DHCPACK)
              (\<lambda>w. Inr (Some w, d\<lparr>lease := (lease d)[y := granted env]\<rparr>))
       else Inr (None, d))"
proof -
  note e = receives_env_wf [OF r] and len = receives_long [OF r]
  let ?o = "drop (options_off + 4) (work_msg env d)"
  obtain q where q: "opt_pos os DHCP_OPT_REQUESTED_IP = Some q"
    using a opt_pos_None by (metis not_None_eq option.distinct(1))
  have g: "opt_find ?o DHCP_OPT_REQUESTED_IP = Inr (Some q)"
    using find_option [OF r d] q by (simp add: options_off_def)
  have lo: "length ?o = 308" using length_work_msg [OF e d] by (simp add: options_off_def)
  have l4: "length [a0, a1, a2, a3] = 4" by simp
  from read_option [OF r d q] a obtain dat where "dat = [a0, a1, a2, a3]" "q + 2 + length dat < 308"
      "slice (drop 240 (work_msg env d)) (q + 2) (length dat) = dat" by auto
  then have qs: "q + 6 < 308" "slice ?o (q + 2) 4 = [a0, a1, a2, a3]"
    unfolding options_off_def using l4 by (simp_all only: numeral_plus_numeral add_num_simps)
  have b3: "buf_get ?o (q + 5) = Inr a3"
    using qs lo slice_nth [of "q + 2" 4 ?o 3] by (simp add: buf_get_def add.commute)
  have "take 3 (drop (q + 2) ?o) = take 3 (slice ?o (q + 2) 4)" by (simp add: slice_def)
  then have cmp: "memcmp_eq (drop (q + 2) ?o) (ip d) 3 = Inr ([a0, a1, a2] = take 3 (ip d))"
    using qs lo d by (simp add: memcmp_eq_def dhcp_wf_def)
  have y3: "DHCPS_BASE_IP + (a3 - DHCPS_BASE_IP) = DHCPS_BASE_IP + of_nat y" by (simp add: y_def)
  show ?thesis
    unfolding dhcp_request_def Let_def g
    using length_work_msg [OF e d] len
    by (simp only: bindE.simps option.case cmp b3)
       (simp add: y3 y_def [symmetric] work_msg_chaddr [OF e d] granted_def
        lease_update_all yiaddr_off_def options_off_def not_le)
qed

lemma request_total:
  assumes r: "receives os env" and d: "dhcp_wf d" and u: "udp d = Some u"
    and t: "map_of os DHCP_OPT_MSG_TYPE = Some [DHCPREQUEST]"
    and a: "map_of os DHCP_OPT_REQUESTED_IP = Some [a0, a1, a2, a3]"
  shows "\<exists>cs. let y = unat (a3 - DHCPS_BASE_IP) in
    if [a0, a1, a2] = take 3 (ip d) \<and> y < DHCPS_MAX_IP \<and>
       (mac (lease d ! y) = client_mac env \<or> mac (lease d ! y) = zero_mac)
    then dhcp_server_process env d = Inr (cs, d\<lparr>lease := (lease d)[y := granted env]\<rparr>) \<and>
      sent cs = (if pbuf_ok env then [bcast_to_client (dhcp_reply env d DHCPACK y)] else [])
    else dhcp_server_process env d = Inr ([Pbuf_Free], d)"
proof -
  note e = receives_env_wf [OF r] and len = receives_long [OF r]
  define y where "y = unat (a3 - DHCPS_BASE_IP)"
  let ?o = "drop (options_off + 4) (work_msg env d)"
  obtain p where p: "opt_pos os DHCP_OPT_MSG_TYPE = Some p" "buf_get ?o (p + 2) = Inr DHCPREQUEST"
    using msg_type_byte [OF r d t] by (auto simp: options_off_def)
  have f: "opt_find ?o DHCP_OPT_MSG_TYPE = Inr (Some p)"
    using find_option [OF r d] p(1) by (simp add: options_off_def)
  let ?d' = "d\<lparr>lease := (lease d)[y := granted env]\<rparr>"
  note rq = request_evaluates [OF r d a, folded y_def]
  obtain w0 cs where w: "opt_write_u8 ((work_msg env d)[19 := DHCPS_BASE_IP + of_nat y], 240) DHCP_OPT_MSG_TYPE DHCPACK = Inr w0"
    and c: "bindE (dhcp_finish_options ?d' w0) (\<lambda>(msg3, o1).
        bindE (dhcp_socket_sendto (pbuf_ok env) (nif env) (send_err env) (udp ?d') msg3 o1 0xffffffff PORT_DHCP_CLIENT)
          (\<lambda>(_, cs). Inr (cs @ [Pbuf_Free], ?d'))) = Inr (cs, ?d')"
      "sent cs = (if pbuf_ok env then [bcast_to_client (dhcp_reply env d DHCPACK y)] else [])"
    using reply_total [OF e d, of ?d' u y DHCPACK] u len by auto
  show ?thesis
    unfolding process_long [OF e d conjunct1 [OF len] conjunct2 [OF len]] f y_def [symmetric] Let_def
    using p(2) rq w c by (auto simp: dhcp_consts)
qed

text \<open>Packets of any other type, or without a type or a requested address, are dropped.\<close>

lemma other_total:
  assumes r: "receives os env" and d: "dhcp_wf d"
    and t: "map_of os DHCP_OPT_MSG_TYPE \<noteq> Some [DHCPDISCOVER]"
      "map_of os DHCP_OPT_MSG_TYPE = Some [DHCPREQUEST] \<Longrightarrow> map_of os DHCP_OPT_REQUESTED_IP = None"
  shows "dhcp_server_process env d = Inr ([Pbuf_Free], d)"
proof -
  note e = receives_env_wf [OF r] and len = receives_long [OF r]
  note pl = process_long [OF e d conjunct1 [OF len] conjunct2 [OF len]]
  have find: "opt_find (drop (options_off + 4) (work_msg env d)) cmd = Inr (opt_pos os cmd)" for cmd
    using find_option [OF r d, of cmd] by (simp add: options_off_def)
  show ?thesis
  proof (cases "map_of os DHCP_OPT_MSG_TYPE")
    case None
    then have "opt_pos os DHCP_OPT_MSG_TYPE = None" using opt_pos_None by blast
    then show ?thesis unfolding pl find by simp
  next
    case (Some dat)
    then have "length dat = 1" using r by (auto simp: receives_def well_formed_packet_def)
    then obtain b where b: "dat = [b]" by (metis length_0_conv length_Suc_conv One_nat_def)
    obtain p where "opt_pos os DHCP_OPT_MSG_TYPE = Some p"
        "buf_get (drop 240 (work_msg env d)) (p + 2) = Inr b"
      using msg_type_byte [OF r d] Some b by blast
    then have p: "opt_pos os DHCP_OPT_MSG_TYPE = Some p"
        "buf_get (drop (options_off + 4) (work_msg env d)) (p + 2) = Inr b"
      by (simp_all add: options_off_def)
    have rq: "dhcp_request env (work_msg env d) d = Inr (None, d)" if "b = DHCPREQUEST"
    proof -
      have "opt_pos os DHCP_OPT_REQUESTED_IP = None" using that t(2) Some b opt_pos_None by blast
      then show ?thesis unfolding dhcp_request_def Let_def find by simp
    qed
    show ?thesis
      unfolding pl find using p t(1) rq Some b by auto
  qed
qed

definition dhcp_ready :: "dhcp_server_t \<Rightarrow> bool" where
  "dhcp_ready d \<longleftrightarrow> dhcp_wf d \<and> udp d \<noteq> None"

definition well_formed_env :: "dhcp_env \<Rightarrow> bool" where
  "well_formed_env env \<longleftrightarrow> (\<exists>os. receives os env)"

lemma process_no_fault:
  assumes "dhcp_ready d" and "receives os env"
  shows "\<exists>cs d'. dhcp_server_process env d = Inr (cs, d')"
proof -
  from assms(1) obtain u where d: "dhcp_wf d" and u: "udp d = Some u"
    by (auto simp: dhcp_ready_def)
  consider "map_of os DHCP_OPT_MSG_TYPE = Some [DHCPDISCOVER]"
    | dat where "map_of os DHCP_OPT_MSG_TYPE = Some [DHCPREQUEST]" "map_of os DHCP_OPT_REQUESTED_IP = Some dat"
    | "map_of os DHCP_OPT_MSG_TYPE \<noteq> Some [DHCPDISCOVER]"
      "map_of os DHCP_OPT_MSG_TYPE = Some [DHCPREQUEST] \<Longrightarrow> map_of os DHCP_OPT_REQUESTED_IP = None"
    by (cases "map_of os DHCP_OPT_REQUESTED_IP") auto
  then show ?thesis
  proof cases
    case 1
    then show ?thesis using discover_total [OF assms(2) d u] by (meson surj_pair)
  next
    case (2 dat)
    then have "length dat = 4" using assms(2) by (auto simp: receives_def well_formed_packet_def)
    then obtain a0 a1 a2 a3 where "dat = [a0, a1, a2, a3]"
      by (auto simp: numeral_eq_Suc length_Suc_conv)
    then show ?thesis using request_total [OF assms(2) d u 2(1), of a0 a1 a2 a3] 2(2)
      by (auto simp: Let_def split: if_splits)
  next
    case 3
    then show ?thesis using other_total [OF assms(2) d] by blast
  qed
qed

interpretation dhcp_safe: reactive dhcp_server_process well_formed_env dhcp_ready
proof unfold_locales
  fix d env out d'
  assume "dhcp_ready d" "well_formed_env env" "dhcp_server_process env d = Inr (out, d')"
  then show "dhcp_ready d'"
    using process_keeps_wf [of env d out d'] receives_env_wf [of _ env]
    unfolding dhcp_ready_def well_formed_env_def by (elim conjE exE) simp
next
  fix d env assume "dhcp_ready d" "well_formed_env env"
  then show "\<exists>out d'. dhcp_server_process env d = Inr (out, d')"
    using process_no_fault by (auto simp: well_formed_env_def)
qed

section \<open>Properties\<close>

text \<open>C6: while a client's lease is live, no sequence of packets from other clients changes it, and none of
  the replies in between offers or acknowledges its address.\<close>

theorem dhcp_lease_exclusive:
  assumes "dhcp_wf d" and "list_all env_wf envs" and "runE dhcp_server_process envs d = Inr (css, d')"
    and "i < DHCPS_MAX_IP" and "mac (lease d ! i) \<noteq> zero_mac"
    and "\<forall>env \<in> set envs. client_mac env \<noteq> mac (lease d ! i) \<and> \<not> lease_expired (lease d ! i) (ticks env i)"
  shows "lease d' ! i = lease d ! i \<and>
    (\<forall>cs \<in> set css. \<forall>(dst, port, m) \<in> set (sent cs). reply_address m \<noteq> i)"
  using assms
proof (induction envs arbitrary: d css)
  case (Cons env envs)
  then obtain cs d1 css1 where st: "dhcp_server_process env d = Inr (cs, d1)"
    and rest: "runE dhcp_server_process envs d1 = Inr (css1, d')" and css: "css = cs # css1"
    by auto
  have one: "lease d1 ! i = lease d ! i" "\<forall>(dst, port, m) \<in> set (sent cs). reply_address m \<noteq> i"
    using process_exclusive [OF _ Cons.prems(1) st Cons.prems(4,5)] Cons.prems(2,6) by auto
  have "dhcp_wf d1" using process_keeps_wf [OF _ Cons.prems(1) st] Cons.prems(2) by simp
  then show ?case
    using Cons.IH [OF _ _ rest Cons.prems(4)] Cons.prems one css by auto
qed simp

text \<open>An acknowledged address is recorded for the client that asked, was free or already its own,
  and stays live for the advertised 24 hours; it is reclaimable 66 seconds later.\<close>

theorem dhcp_ack_binds:
  assumes "env_wf env" and "dhcp_wf d" and "dhcp_server_process env d = Inr (cs, d')"
    and "(dst, port, m) \<in> set (sent cs)" and "m ! 242 = DHCPACK"
  shows "\<exists>y < DHCPS_MAX_IP. reply_address m = y \<and> mac (lease d' ! y) = client_mac env \<and>
    (mac (lease d ! y) = client_mac env \<or> mac (lease d ! y) = zero_mac) \<and>
    (\<forall>n \<le> 86400000. \<not> lease_expired (lease d' ! y) (ticks env 0 + of_nat n)) \<and>
    (\<forall>n. 86465535 < n \<and> n \<le> 2147483648 \<longrightarrow> lease_expired (lease d' ! y) (ticks env 0 + of_nat n))"
proof -
  have long: "243 \<le> length (copied env)"
    using process_short [OF assms(1), of d] assms(3,4) by (cases "length (copied env) < 243") auto
  have mtype: "dhcp_reply env d t y ! 242 = t" for t y
    using long assms(2) by (simp add: dhcp_reply_def nth_append dhcp_wf_def reply_opts_def nth_Cons')
  have len: "length (lease d) = DHCPS_MAX_IP" using assms(2) by (simp add: dhcp_wf_def)
  have "\<exists>y < DHCPS_MAX_IP. (mac (lease d ! y) = client_mac env \<or> mac (lease d ! y) = zero_mac) \<and>
      lease d' = (lease d)[y := granted env] \<and> m = dhcp_reply env d DHCPACK y"
    using process_outcome [OF assms(1,2,3)] assms(4,5) mtype
    by (auto simp: bcast_to_client_def DHCPOFFER_def DHCPACK_def split: if_splits)
  then obtain y where y: "y < DHCPS_MAX_IP" "mac (lease d ! y) = client_mac env \<or> mac (lease d ! y) = zero_mac"
      "lease d' = (lease d)[y := granted env]" "m = dhcp_reply env d DHCPACK y" by blast
  have "lease d' ! y = granted env" using y(1,3) len by simp
  then show ?thesis
    using y reply_address_reply [OF assms(2) long y(1)] granted_live granted_expires
    by (auto simp: granted_def)
qed

text \<open>C27: every reply is 274 bytes built from the request and the server's addresses alone (nothing of
  the handler's uninitialised stack leaves the device), it goes to the broadcast address on the
  client port, and its options read back as the server wrote them.\<close>

theorem dhcp_reply_roundtrip:
  assumes "env_wf env" and "dhcp_wf d" and "dhcp_server_process env d = Inr (cs, d')"
    and "(dst, port, m) \<in> set (sent cs)"
  shows "\<exists>t y. m = dhcp_reply env d t y \<and> (t = DHCPOFFER \<or> t = DHCPACK) \<and> length m = 274 \<and>
    dst = [255, 255, 255, 255] \<and> port = PORT_DHCP_CLIENT \<and>
    (\<forall>cmd. opt_find (drop 240 m) cmd = Inr (opt_pos (reply_opts d t) cmd)) \<and>
    (\<forall>dat cmd. map_of (reply_opts d t) cmd = Some dat \<longrightarrow>
       (\<exists>p. opt_pos (reply_opts d t) cmd = Some p \<and> slice (drop 240 m) (p + 2) (length dat) = dat))"
proof -
  have long: "243 \<le> length (copied env)"
    using process_short [OF assms(1), of d] assms(3,4) by (cases "length (copied env) < 243") auto
  obtain t y where m: "m = dhcp_reply env d t y" "t = DHCPOFFER \<or> t = DHCPACK"
      "dst = [255, 255, 255, 255]" "port = PORT_DHCP_CLIENT"
    using process_outcome [OF assms(1,2,3)] assms(4) by (auto simp: bcast_to_client_def split: if_splits)
  let ?os = "reply_opts d t"
  have dm: "drop 240 m = encode_opts ?os @ DHCP_OPT_END # []"
    using long assms(2) by (simp add: m(1) dhcp_reply_def dhcp_wf_def)
  have wf: "opts_wf ?os" "length (encode_opts ?os) < 308"
    using assms(2) by (auto simp: opts_wf_def reply_opts_def dhcp_consts dhcp_wf_def)
  have find: "opt_find (drop 240 m) cmd = Inr (opt_pos ?os cmd)" for cmd
    unfolding dm by (rule opt_find_encode [OF wf])
  have read: "\<exists>p. opt_pos ?os cmd = Some p \<and> slice (drop 240 m) (p + 2) (length dat) = dat"
    if got: "map_of ?os cmd = Some dat" for cmd dat
  proof -
    obtain p where p: "opt_pos ?os cmd = Some p"
      using got opt_pos_None [of ?os cmd] by (cases "opt_pos ?os cmd") simp_all
    then show ?thesis using opt_pos_data [OF p, of "[DHCP_OPT_END]"] got unfolding dm by auto
  qed
  show ?thesis using m find read length_dhcp_reply [OF assms(2) long] by blast
qed

text \<open>C28: A running server answers any sequence of packets it can parse without ever reading or writing
  outside its buffers, and stays running. These are the packets of at least 243 bytes whose option area reaches an end marker within the message when every
  other code is followed by a length, with a type and an address of the right length. Packets without pad bytes before the end marker, as RFC 2132 describes them,
  are of this kind. Packets with pad bytes are excluded: the server takes a pad byte for an option with a length.\<close>

theorem dhcp_parsed_safe:
  assumes "dhcp_ready d" and "list_all well_formed_env envs"
  shows "\<exists>css d'. runE dhcp_server_process envs d = Inr (css, d') \<and> dhcp_ready d'"
  using assms by (rule dhcp_safe.run_safe)

text \<open>C19: the four-message exchange. A client that discovers while some address is free, expired or
  already its own is offered one; requesting the offered address (before anybody else takes it)
  is acknowledged with that address and binds it to the client. A client that already holds a
  lease is offered the first address it holds.\<close>

theorem dhcp_exchange:
  assumes "dhcp_ready d" and "receives os1 env1" and "receives os2 env2"
    and "pbuf_ok env1" and "pbuf_ok env2" and "client_mac env2 = client_mac env1"
    and "map_of os1 DHCP_OPT_MSG_TYPE = Some [DHCPDISCOVER]"
    and "map_of os2 DHCP_OPT_MSG_TYPE = Some [DHCPREQUEST]"
    and "\<exists>j < DHCPS_MAX_IP. mac (lease d ! j) \<in> {client_mac env1, zero_mac} \<or> lease_expired (lease d ! j) (ticks env1 j)"
  shows "\<exists>y < DHCPS_MAX_IP. \<exists>cs1 d1. dhcp_server_process env1 d = Inr (cs1, d1) \<and>
    sent cs1 = [bcast_to_client (dhcp_reply env1 d DHCPOFFER y)] \<and>
    (\<forall>j < DHCPS_MAX_IP. mac (lease d ! j) = client_mac env1 \<and> (\<forall>k < j. mac (lease d ! k) \<noteq> client_mac env1) \<longrightarrow> y = j) \<and>
    (map_of os2 DHCP_OPT_REQUESTED_IP = Some (take 3 (ip d) @ [DHCPS_BASE_IP + of_nat y]) \<longrightarrow>
      (\<exists>cs2 d2. dhcp_server_process env2 d1 = Inr (cs2, d2) \<and>
         sent cs2 = [bcast_to_client (dhcp_reply env2 d1 DHCPACK y)] \<and> mac (lease d2 ! y) = client_mac env1))"
proof -
  from assms(1) obtain u where d: "dhcp_wf d" and u: "udp d = Some u" by (auto simp: dhcp_ready_def)
  have len: "length (lease d) = DHCPS_MAX_IP" "length (ip d) = 4" using d by (auto simp: dhcp_wf_def)
  obtain y ls where l: "discover_loop (ticks env1) (client_mac env1) 0 DHCPS_MAX_IP (lease d) = (y, ls)" by fastforce
  have y: "y < DHCPS_MAX_IP"
    using discover_loop_bound [OF l] discover_loop_full [OF len(1), of "ticks env1" "client_mac env1" 0] l assms(9)
    by (metis fst_conv insert_iff le_neq_implies_less le_refl singletonD zero_le)
  obtain cs1 where p1: "dhcp_server_process env1 d = Inr (cs1, d\<lparr>lease := ls\<rparr>)"
      "sent cs1 = [bcast_to_client (dhcp_reply env1 d DHCPOFFER y)]"
    using discover_total [OF assms(2) d u assms(7) l] y assms(4) by auto
  have first: "y = j" if "j < DHCPS_MAX_IP" "mac (lease d ! j) = client_mac env1" "\<forall>k < j. mac (lease d ! k) \<noteq> client_mac env1" for j
    using discover_loop_match [of j 0 "lease d" "client_mac env1" "ticks env1" DHCPS_MAX_IP] that len(1) l by simp
  have own: "mac (ls ! y) = client_mac env1 \<or> mac (ls ! y) = zero_mac"
    using discover_loop_choice [OF len(1) l y] y by auto
  have d1: "dhcp_wf (d\<lparr>lease := ls\<rparr>)" "length ls = DHCPS_MAX_IP"
    using process_keeps_wf [OF receives_env_wf [OF assms(2)] d p1(1)] by (auto simp: dhcp_wf_def)
  have ack: "\<exists>cs2 d2. dhcp_server_process env2 (d\<lparr>lease := ls\<rparr>) = Inr (cs2, d2) \<and>
      sent cs2 = [bcast_to_client (dhcp_reply env2 (d\<lparr>lease := ls\<rparr>) DHCPACK y)] \<and> mac (lease d2 ! y) = client_mac env1"
    if a: "map_of os2 DHCP_OPT_REQUESTED_IP = Some (take 3 (ip d) @ [DHCPS_BASE_IP + of_nat y])"
  proof -
    obtain a0 a1 a2 where ip3: "take 3 (ip d) = [a0, a1, a2]"
      using len(2) by (auto simp: numeral_eq_Suc length_Suc_conv)
    have yy: "unat ((DHCPS_BASE_IP + of_nat y) - DHCPS_BASE_IP) = y"
      using y by (simp add: unat_of_nat DHCPS_MAX_IP_def)
    obtain cs2 where "dhcp_server_process env2 (d\<lparr>lease := ls\<rparr>) = Inr (cs2, d\<lparr>lease := ls[y := granted env2]\<rparr>)"
        "sent cs2 = [bcast_to_client (dhcp_reply env2 (d\<lparr>lease := ls\<rparr>) DHCPACK y)]"
      using request_total [OF assms(3) d1(1) _ assms(8), of u a0 a1 a2 "DHCPS_BASE_IP + of_nat y"] a ip3 u yy y own assms(5,6)
      by (auto simp: Let_def)
    then show ?thesis using y d1(2) assms(6) by (auto simp: granted_def)
  qed
  show ?thesis using y p1 first ack by blast
qed

section \<open>Sample runs\<close>

definition demo_mac :: "u8 \<Rightarrow> bytes" where "demo_mac x = [2, 0, 0, 0, 0, x]"

definition demo_env :: "u8 \<Rightarrow> dhcp_option list \<Rightarrow> dhcp_env" where
  "demo_env x os =
    (let pkt = replicate 28 0 @ demo_mac x @ replicate 206 0 @ encode_opts os @ [DHCP_OPT_END]
     in \<lparr> tot_len = length pkt, copied = pkt, stack = replicate 548 0xA5, ticks = (\<lambda>_. 5000),
          pbuf_ok = True, nif = True, send_err = 0 \<rparr>)"

definition demo_discover_opts :: "dhcp_option list" where
  "demo_discover_opts = [(DHCP_OPT_MSG_TYPE, [DHCPDISCOVER])]"

definition demo_request_opts :: "dhcp_option list" where
  "demo_request_opts = [(DHCP_OPT_MSG_TYPE, [DHCPREQUEST]), (DHCP_OPT_REQUESTED_IP, [192, 168, 4, 17])]"

definition demo_server :: dhcp_server_t where
  "demo_server = \<lparr> ip = [192, 168, 4, 1], nm = [255, 255, 255, 0],
     lease = (replicate 8 zero_lease)[0 := \<lparr> mac = demo_mac 1, expiry = 700 \<rparr>], udp = Some 7 \<rparr>"

lemmas demo_defs = demo_env_def demo_mac_def demo_discover_opts_def demo_request_opts_def demo_server_def

lemma demo_packet:
  "well_formed_packet os (replicate 28 0 @ demo_mac x @ replicate 206 0 @ encode_opts os @ [DHCP_OPT_END])"
  if "opts_wf os" "2 \<le> length (encode_opts os)" "length (encode_opts os) < 300"
    "\<forall>d. map_of os DHCP_OPT_MSG_TYPE = Some d \<longrightarrow> length d = 1"
    "\<forall>d. map_of os DHCP_OPT_REQUESTED_IP = Some d \<longrightarrow> length d = 4"
  unfolding well_formed_packet_def
proof (intro conjI exI)
  show "replicate 28 0 @ demo_mac x @ replicate 206 0 @ encode_opts os @ [DHCP_OPT_END] =
      (replicate 28 0 @ demo_mac x @ replicate 206 0) @ encode_opts os @ DHCP_OPT_END # []" by simp
qed (use that in \<open>simp_all add: demo_mac_def sizeof_dhcp_msg_def\<close>)

lemma demo_receives:
  "receives demo_discover_opts (demo_env x demo_discover_opts)"
  "receives demo_request_opts (demo_env x demo_request_opts)"
proof -
  have "opts_wf demo_discover_opts" "opts_wf demo_request_opts"
    "encode_opts demo_discover_opts = [53, 1, 1]" "encode_opts demo_request_opts = [53, 1, 3, 50, 4, 192, 168, 4, 17]"
    by (auto simp: demo_discover_opts_def demo_request_opts_def opts_wf_def dhcp_consts)
  then have "well_formed_packet os (copied (demo_env x os))" if "os = demo_discover_opts \<or> os = demo_request_opts" for os
    using that demo_packet [of os x]
    by (auto simp: demo_env_def Let_def demo_discover_opts_def demo_request_opts_def dhcp_consts)
  then show "receives demo_discover_opts (demo_env x demo_discover_opts)"
      "receives demo_request_opts (demo_env x demo_request_opts)"
    by (auto simp: receives_def demo_env_def Let_def sizeof_dhcp_msg_def)
qed

lemma demo_client: "client_mac (demo_env x os) = demo_mac x"
  by (simp add: client_mac_def demo_env_def Let_def slice_def dhcp_sizes demo_mac_def)

lemma demo_ticks: "ticks (demo_env x os) i = 5000"
  by (simp add: demo_env_def Let_def)

lemma demo_ready: "dhcp_ready demo_server"
  by (simp add: dhcp_ready_def dhcp_wf_def demo_defs zero_lease_def zero_mac_def dhcp_sizes numeral_eq_Suc)

lemma demo_request_result:
  "\<exists>cs. dhcp_server_process (demo_env 2 demo_request_opts) demo_server =
      Inr (cs, demo_server\<lparr>lease := (lease demo_server)[1 := granted (demo_env 2 demo_request_opts)]\<rparr>) \<and>
    sent cs = [bcast_to_client (dhcp_reply (demo_env 2 demo_request_opts) demo_server DHCPACK 1)]"
proof -
  have "map_of demo_request_opts DHCP_OPT_MSG_TYPE = Some [DHCPREQUEST]"
    "map_of demo_request_opts DHCP_OPT_REQUESTED_IP = Some [192, 168, 4, 17]"
    "udp demo_server = Some 7" "dhcp_wf demo_server"
    using demo_ready by (simp_all add: demo_request_opts_def dhcp_consts demo_server_def dhcp_ready_def)
  note * = request_total [OF demo_receives(2) this(4,3,1,2), of 2]
  have "unat ((17::u8) - DHCPS_BASE_IP) = 1" "take 3 (ip demo_server) = [192, 168, 4]"
    "mac (lease demo_server ! 1) = zero_mac" "pbuf_ok (demo_env 2 demo_request_opts)"
    by (simp_all add: DHCPS_BASE_IP_def demo_server_def zero_lease_def demo_env_def Let_def numeral_eq_Suc)
  then show ?thesis using * by (simp add: Let_def DHCPS_MAX_IP_def)
qed

theorem dhcp_lease_exclusive_witness:
  "\<exists>css d'. runE dhcp_server_process [demo_env 2 demo_request_opts] demo_server = Inr (css, d') \<and>
     lease d' ! 0 = \<lparr> mac = demo_mac 1, expiry = 700 \<rparr> \<and>
     (\<forall>cs \<in> set css. \<forall>(dst, port, m) \<in> set (sent cs). reply_address m \<noteq> 0)"
proof -
  obtain cs d' where r: "dhcp_server_process (demo_env 2 demo_request_opts) demo_server = Inr (cs, d')"
    using demo_request_result by blast
  have "runE dhcp_server_process [demo_env 2 demo_request_opts] demo_server = Inr ([cs], d')" using r by simp
  moreover have "dhcp_wf demo_server" "env_wf (demo_env 2 demo_request_opts)"
    using demo_ready receives_env_wf [OF demo_receives(2)] by (simp_all add: dhcp_ready_def)
  moreover have "lease demo_server ! 0 = \<lparr> mac = demo_mac 1, expiry = 700 \<rparr>" by (simp add: demo_server_def)
  moreover have "\<not> lease_expired \<lparr> mac = demo_mac 1, expiry = 700 \<rparr> 5000" by code_simp
  moreover have "demo_mac 1 \<noteq> zero_mac" "demo_mac 2 \<noteq> demo_mac 1" by code_simp+
  ultimately show ?thesis
    using dhcp_lease_exclusive [of demo_server "[demo_env 2 demo_request_opts]" "[cs]" d' 0]
    by (simp add: demo_client demo_ticks DHCPS_MAX_IP_def)
qed

theorem dhcp_ack_binds_witness:
  "\<exists>cs d' dst port m. dhcp_server_process (demo_env 2 demo_request_opts) demo_server = Inr (cs, d') \<and>
     (dst, port, m) \<in> set (sent cs) \<and> m ! 242 = DHCPACK \<and> mac (lease d' ! reply_address m) = demo_mac 2 \<and>
     \<not> lease_expired (lease d' ! reply_address m) (5000 + 86400000)"
proof -
  let ?e = "demo_env 2 demo_request_opts"
  obtain cs d' where r: "dhcp_server_process ?e demo_server = Inr (cs, d')"
    and s: "sent cs = [([255, 255, 255, 255], PORT_DHCP_CLIENT, dhcp_reply ?e demo_server DHCPACK 1)]"
    using demo_request_result by (auto simp: bcast_to_client_def)
  have m: "dhcp_reply ?e demo_server DHCPACK 1 ! 242 = DHCPACK"
    by (simp add: dhcp_reply_def demo_defs Let_def reply_opts_def slice_def nth_append nth_Cons')
  have w: "dhcp_wf demo_server" "env_wf ?e"
    using demo_ready receives_env_wf [OF demo_receives(2)] by (simp_all add: dhcp_ready_def)
  have t: "ticks ?e 0 = 5000" by (simp add: demo_env_def Let_def)
  have "mac (lease d' ! reply_address (dhcp_reply ?e demo_server DHCPACK 1)) = demo_mac 2 \<and>
    \<not> lease_expired (lease d' ! reply_address (dhcp_reply ?e demo_server DHCPACK 1)) (5000 + of_nat 86400000)"
    using dhcp_ack_binds [OF w(2,1) r _ m, of "[255, 255, 255, 255]" PORT_DHCP_CLIENT] s t
    by (auto simp: demo_client)
  then show ?thesis using r s m by force
qed

theorem dhcp_reply_roundtrip_witness:
  "\<exists>cs d' dst port m. dhcp_server_process (demo_env 2 demo_request_opts) demo_server = Inr (cs, d') \<and>
     (dst, port, m) \<in> set (sent cs) \<and> length m = 274 \<and> port = 68"
proof -
  let ?e = "demo_env 2 demo_request_opts"
  obtain cs d' where r: "dhcp_server_process ?e demo_server = Inr (cs, d')"
    and s: "sent cs = [([255, 255, 255, 255], PORT_DHCP_CLIENT, dhcp_reply ?e demo_server DHCPACK 1)]"
    using demo_request_result by (auto simp: bcast_to_client_def)
  have w: "dhcp_wf demo_server" "env_wf ?e"
    using demo_ready receives_env_wf [OF demo_receives(2)] by (simp_all add: dhcp_ready_def)
  have "length (dhcp_reply ?e demo_server DHCPACK 1) = 274"
    using dhcp_reply_roundtrip [OF w(2,1) r, of "[255, 255, 255, 255]" PORT_DHCP_CLIENT] s by auto
  then show ?thesis using r s by (force simp: PORT_DHCP_CLIENT_def)
qed

theorem dhcp_parsed_safe_witness:
  "\<exists>css d'. runE dhcp_server_process [demo_env 2 demo_discover_opts, demo_env 2 demo_request_opts] demo_server =
     Inr (css, d') \<and> dhcp_ready d'"
proof -
  have "list_all well_formed_env [demo_env 2 demo_discover_opts, demo_env 2 demo_request_opts]"
    using demo_receives by (auto simp: well_formed_env_def)
  from dhcp_parsed_safe [OF demo_ready this] show ?thesis .
qed

theorem dhcp_exchange_witness:
  "\<exists>y < DHCPS_MAX_IP. \<exists>cs1 d1. dhcp_server_process (demo_env 2 demo_discover_opts) demo_server = Inr (cs1, d1) \<and>
    sent cs1 = [bcast_to_client (dhcp_reply (demo_env 2 demo_discover_opts) demo_server DHCPOFFER y)]"
proof -
  have "map_of demo_discover_opts DHCP_OPT_MSG_TYPE = Some [DHCPDISCOVER]"
    "map_of demo_request_opts DHCP_OPT_MSG_TYPE = Some [DHCPREQUEST]"
    "\<And>os. pbuf_ok (demo_env 2 os)"
    by (simp_all add: demo_discover_opts_def demo_request_opts_def demo_env_def Let_def)
  moreover have "mac (lease demo_server ! 1) = zero_mac"
    by (simp add: demo_server_def zero_lease_def numeral_eq_Suc)
  then have "\<exists>j < DHCPS_MAX_IP. mac (lease demo_server ! j) \<in> {client_mac (demo_env 2 demo_discover_opts), zero_mac} \<or>
      lease_expired (lease demo_server ! j) (ticks (demo_env 2 demo_discover_opts) j)"
    by (auto simp: DHCPS_MAX_IP_def intro: exI [of _ 1])
  ultimately show ?thesis
    using dhcp_exchange [OF demo_ready demo_receives(1) demo_receives(2), of 2 2] demo_client by auto
qed

section \<open>Packets the server cannot parse\<close>

text \<open>A full option area that ends, after a list of options none of which is the one looked for, in a single code.\<close>

definition ends_in_code :: "u8 \<Rightarrow> bytes \<Rightarrow> bool" where
  "ends_in_code cmd area \<longleftrightarrow>
    (\<exists>os b. area = encode_opts os @ [b] \<and> opts_wf os \<and> cmd \<notin> fst ` set os \<and> b \<noteq> DHCP_OPT_END \<and> b \<noteq> cmd)"

lemma ends_in_code_Cons:
  assumes "c \<noteq> DHCP_OPT_END" "c \<noteq> cmd" "unat l \<le> length bs"
  shows "ends_in_code cmd (c # l # bs) \<longleftrightarrow> ends_in_code cmd (drop (unat l) bs)"
proof
  assume "ends_in_code cmd (c # l # bs)"
  then obtain os b where e: "c # l # bs = encode_opts os @ [b]" "opts_wf os" "cmd \<notin> fst ` set os" "b \<noteq> DHCP_OPT_END" "b \<noteq> cmd"
    by (auto simp: ends_in_code_def)
  then obtain d os' where os: "os = (c, d) # os'" by (cases os) auto
  have "unat (of_nat (length d) :: u8) = length d" using e(2) os by (simp add: opts_wf_def unat_of_nat)
  then have "drop (unat l) bs = encode_opts os' @ [b]" using e(1) os by auto
  then show "ends_in_code cmd (drop (unat l) bs)" using e(2-5) os by (auto simp: ends_in_code_def opts_wf_def)
next
  assume "ends_in_code cmd (drop (unat l) bs)"
  then obtain os b where e: "drop (unat l) bs = encode_opts os @ [b]" "opts_wf os" "cmd \<notin> fst ` set os" "b \<noteq> DHCP_OPT_END" "b \<noteq> cmd"
    by (auto simp: ends_in_code_def)
  have "c # l # bs = encode_opts ((c, take (unat l) bs) # os) @ [b]"
    using e(1) assms(3) append_take_drop_id [of "unat l" bs] by simp
  moreover have "opts_wf ((c, take (unat l) bs) # os)" using e(2) assms(1) unat_u8_bound [of l] by (auto simp: opts_wf_def)
  ultimately show "ends_in_code cmd (c # l # bs)" using e(3-5) assms(2) unfolding ends_in_code_def by fastforce
qed

text \<open>The search leaves the area exactly on such areas.\<close>

lemma opt_find_from_overread:
  assumes "length opt = 308" "i \<le> 308"
  shows "opt_find_from opt cmd i = Inl Out_Of_Bounds \<longleftrightarrow> ends_in_code cmd (drop i opt)"
  using assms
proof (induction opt cmd i rule: opt_find_from.induct)
  case (1 opt cmd i)
  show ?case
  proof (cases "i < 308")
    case False
    then show ?thesis using 1(2,3) by (subst opt_find_from.simps) (simp add: ends_in_code_def)
  next
    case True
    let ?c = "opt ! i"
    have d: "drop i opt = ?c # drop (Suc i) opt" using True 1(2) by (simp add: Cons_nth_drop_Suc)
    have at: "buf_get opt i = Inr ?c" using True 1(2) by (simp add: buf_get_def)
    consider "?c = DHCP_OPT_END \<or> ?c = cmd" | "?c \<noteq> DHCP_OPT_END" "?c \<noteq> cmd" "i = 307" | "?c \<noteq> DHCP_OPT_END" "?c \<noteq> cmd" "i < 307"
      using True by linarith
    then show ?thesis
    proof cases
      case 1
      have "\<not> ends_in_code cmd (?c # bs)" for bs
      proof
        assume "ends_in_code cmd (?c # bs)"
        then obtain os b where "?c # bs = encode_opts os @ [b]" "opts_wf os" "cmd \<notin> fst ` set os" "b \<noteq> DHCP_OPT_END" "b \<noteq> cmd"
          by (auto simp: ends_in_code_def)
        then show False using 1 by (cases os) (auto simp: opts_wf_def)
      qed
      then show ?thesis using 1 True at unfolding d by (subst opt_find_from.simps) auto
    next
      case 2
      then have "drop (Suc i) opt = []" using 1(2) by simp
      moreover have "ends_in_code cmd [?c]" using 2 unfolding ends_in_code_def by (intro exI [of _ "[]"] exI [of _ ?c]) (simp add: opts_wf_def)
      moreover have "buf_get opt (i + 1) = Inl Out_Of_Bounds" using 2(3) 1(2) by (simp add: buf_get_def)
      ultimately show ?thesis using 2 at unfolding d by (subst opt_find_from.simps) simp
    next
      case 3
      let ?l = "opt ! (i + 1)"
      have l: "buf_get opt (i + 1) = Inr ?l" using 3(3) 1(2) by (simp add: buf_get_def)
      have d2: "drop (Suc i) opt = ?l # drop (i + 2) opt" using 3(3) 1(2) by (simp add: Cons_nth_drop_Suc)
      have step: "opt_find_from opt cmd i = opt_find_from opt cmd (i + 2 + unat ?l)"
        using 3 True at l by (subst opt_find_from.simps) simp
      show ?thesis
      proof (cases "i + 2 + unat ?l \<le> 308")
        case True
        have "opt_find_from opt cmd (i + 2 + unat ?l) = Inl Out_Of_Bounds \<longleftrightarrow> ends_in_code cmd (drop (i + 2 + unat ?l) opt)"
          using 1(1) [OF \<open>i < 308\<close> 3(1,2) 1(2) True] .
        also have "\<dots> \<longleftrightarrow> ends_in_code cmd (drop i opt)"
          using ends_in_code_Cons [OF 3(1,2), of ?l "drop (i + 2) opt"] True 1(2) unfolding d d2 by (simp add: add.commute)
        finally show ?thesis unfolding step .
      next
        case False
        have "\<not> ends_in_code cmd (?c # ?l # drop (i + 2) opt)"
        proof
          assume "ends_in_code cmd (?c # ?l # drop (i + 2) opt)"
          then obtain os b where e: "?c # ?l # drop (i + 2) opt = encode_opts os @ [b]" "opts_wf os" by (auto simp: ends_in_code_def)
          then obtain x os' where os: "os = (?c, x) # os'" by (cases os) auto
          then have "unat ?l = length x" using e by (auto simp: opts_wf_def unat_of_nat)
          then have "length (drop (i + 2) opt) = unat ?l + length (encode_opts os') + 1" using e(1) os by simp
          then show False using False 1(2) 3(3) by simp
        qed
        moreover have "opt_find_from opt cmd (i + 2 + unat ?l) = Inr None" using False by (subst opt_find_from.simps) simp
        ultimately show ?thesis unfolding step d d2 by simp
      qed
    qed
  qed
qed

text \<open>C37: Which packets make the server read past its message before it even knows their type. For a packet that fills the message, in any state of the
  server, the search for the type leaves the message exactly when the option area, read with a length behind every code, ends in a single code with no type
  option and no end marker before it; the handler then faults. The guard of the loop is on the index of
  the code alone. Packets of RFC 2132 with a pad byte can be of this kind, as the sample run shows.\<close>

theorem dhcp_option_overread:
  assumes "dhcp_wf d" "env_wf env" "length (copied env) = sizeof_dhcp_msg" "sizeof_dhcp_msg \<le> tot_len env"
  shows "(opt_find (drop 240 (copied env)) DHCP_OPT_MSG_TYPE = Inl Out_Of_Bounds \<longleftrightarrow> ends_in_code DHCP_OPT_MSG_TYPE (drop 240 (copied env))) \<and>
    (ends_in_code DHCP_OPT_MSG_TYPE (drop 240 (copied env)) \<longrightarrow> dhcp_server_process env d = Inl Out_Of_Bounds)"
proof -
  have l: "length (drop 240 (copied env)) = 308" using assms(3) by (simp add: sizeof_dhcp_msg_def)
  have o: "drop (options_off + 4) (work_msg env d) = drop 240 (copied env)"
    using assms(1-3) by (simp add: work_msg_def overlay_def options_off_def op_off_def yiaddr_off_def dhcp_wf_def env_wf_def sizeof_dhcp_msg_def drop_update_cancel)
  have "243 \<le> tot_len env" "243 \<le> length (copied env)" using assms(3,4) by (simp_all add: sizeof_dhcp_msg_def)
  note pl = process_long [OF assms(2,1) this]
  have "opt_find (drop 240 (copied env)) DHCP_OPT_MSG_TYPE = Inl Out_Of_Bounds \<longleftrightarrow> ends_in_code DHCP_OPT_MSG_TYPE (drop 240 (copied env))"
    unfolding opt_find_def using opt_find_from_overread [OF l, of 0] by simp
  then show ?thesis unfolding pl o by auto
qed

text \<open>A DISCOVER as RFC 2132 allows it: a pad byte, the message type, the end marker, and pad bytes to the end.\<close>

definition padded_env :: dhcp_env where
  "padded_env = \<lparr> tot_len = 548, copied = replicate 28 0 @ demo_mac 2 @ replicate 206 0 @ [0, 53, 1, 1, 255] @ replicate 303 0,
     stack = replicate 548 0, ticks = (\<lambda>_. 0), pbuf_ok = True, nif = True, send_err = 0 \<rparr>"

theorem dhcp_option_overread_witness:
  "drop 240 (copied padded_env) = [DHCP_OPT_PAD] @ encode_opts demo_discover_opts @ [DHCP_OPT_END] @ replicate 303 DHCP_OPT_PAD \<and>
   dhcp_server_process padded_env demo_server = Inl Out_Of_Bounds"
proof -
  have area: "drop 240 (copied padded_env) = [0, 53, 1, 1, 255] @ replicate 303 0"
    by (simp add: padded_env_def demo_mac_def)
  let ?os = "(0, [1, 1, 255] @ replicate 50 0) # replicate 126 (0, [])"
  have e: "encode_opts (replicate k (0, [])) = replicate (2 * k) 0" for k by (induction k) simp_all
  have "replicate 303 (0 :: u8) = replicate 50 0 @ replicate 252 0 @ replicate 1 0" by (simp only: replicate_add [symmetric]) simp
  then have "[0, 53, 1, 1, 255] @ replicate 303 0 = encode_opts ?os @ [0 :: u8]" by (simp add: e)
  then have "ends_in_code DHCP_OPT_MSG_TYPE (drop 240 (copied padded_env))"
    unfolding ends_in_code_def area
    by (intro exI [of _ ?os] exI [of _ "0 :: u8"]) (auto simp: opts_wf_def DHCP_OPT_END_def DHCP_OPT_MSG_TYPE_def)
  moreover have "dhcp_wf demo_server" "env_wf padded_env" "length (copied padded_env) = sizeof_dhcp_msg" "sizeof_dhcp_msg \<le> tot_len padded_env"
    using demo_ready by (simp_all add: dhcp_ready_def env_wf_def padded_env_def sizeof_dhcp_msg_def demo_mac_def)
  ultimately have "dhcp_server_process padded_env demo_server = Inl Out_Of_Bounds" using dhcp_option_overread by blast
  then show ?thesis unfolding area by (simp add: demo_discover_opts_def dhcp_consts DHCP_OPT_PAD_def)
qed

end
