(* ===== verification/Dns_Server.thy ===== *)
theory Dns_Server
  imports Udp_Env
begin

text \<open>
  \<open>src/access_point_httpd/dnsserver/dnsserver.c\<close>: the captive DNS server of the access point,
  which answers every name with the address of the device.

  The handler works in a 300-byte array on its stack. Only the bytes copied from the packet
  are defined by it; the rest is whatever the stack held. Every access is checked against
  the array.
\<close>

section \<open>Model\<close>

definition PORT_DNS_SERVER :: u16 where "PORT_DNS_SERVER = 53"
definition MAX_DNS_MSG_SIZE :: nat where "MAX_DNS_MSG_SIZE = 300"

text \<open>Six 16-bit members.\<close>

definition sizeof_dns_header :: nat where "sizeof_dns_header = 12"

record dns_server_t =
  dns_udp :: "pcb option"
  dns_ip :: ip_addr

definition dns_socket_new_dgram :: "pcb option \<Rightarrow> int \<times> udp_call list \<times> pcb option" where
  "dns_socket_new_dgram new_pcb =
    (case new_pcb of None \<Rightarrow> (- ENOMEM, [], None) | Some u \<Rightarrow> (0, [Udp_Recv u], Some u))"

definition dns_socket_free :: "pcb option \<Rightarrow> udp_call list \<times> pcb option" where
  "dns_socket_free u = (case u of None \<Rightarrow> ([], None) | Some p \<Rightarrow> ([Udp_Remove p], None))"

definition dns_socket_bind :: "int \<Rightarrow> pcb option \<Rightarrow> u32 \<Rightarrow> u16 \<Rightarrow> (int \<times> udp_call list) ub" where
  "dns_socket_bind bind_err u ipw port =
    (case u of
       None \<Rightarrow> Inl Null_Deref
     | Some p \<Rightarrow> bindE (assertE (bind_err = 0)) (\<lambda>_. Inr (bind_err, [Udp_Bind p (ip4_of_u32 ipw) port])))"

definition dns_socket_sendto ::
  "bool \<Rightarrow> int \<Rightarrow> pcb option \<Rightarrow> bytes \<Rightarrow> nat \<Rightarrow> ip_addr \<Rightarrow> u16 \<Rightarrow> (int \<times> udp_call list) ub" where
  "dns_socket_sendto pbuf_ok err u buf len dest port =
    (let len' = (if len > 0xffff then 0xffff else len) in
     if \<not> pbuf_ok then Inr (- ENOMEM, [])
     else bindE (memcpy (replicate len' 0) 0 buf len') (\<lambda>data.
       case u of None \<Rightarrow> Inl Null_Deref
       | Some p \<Rightarrow> Inr (if err \<noteq> 0 then err else int len', [Udp_Sendto p dest port data])))"

text \<open>What a call of the handler sees: the packet, its source, the stack, and the results of
  the library calls.\<close>

record dns_env =
  packet :: bytes
  src_addr :: ip_addr
  src_port :: u16
  dns_stack :: bytes
  dns_pbuf_ok :: bool
  dns_send_err :: int

definition load_be16 :: "bytes \<Rightarrow> nat \<Rightarrow> u16 ub" where
  "load_be16 msg i = bindE (buf_get msg i) (\<lambda>a. bindE (buf_get msg (i + 1)) (\<lambda>b.
     Inr (push_bit 8 (ucast a) OR ucast b)))"

text \<open>The loop over the labels of the name: the position after the name, or \<open>None\<close> for an
  invalid label.\<close>

function dns_question_loop :: "bytes \<Rightarrow> nat \<Rightarrow> nat \<Rightarrow> nat option ub" where
  "dns_question_loop msg msg_len i =
    (if i < msg_len then
       bindE (buf_get msg i) (\<lambda>b.
         if b = 0 then Inr (Some (i + 1))
         else if unat b > 63 then Inr None
         else dns_question_loop msg msg_len (i + 1 + unat b))
     else Inr (Some i))"
  by pat_completeness auto
termination
  by (relation "measure (\<lambda>(msg, msg_len, i). msg_len - i)") auto

declare dns_question_loop.simps [simp del]

text \<open>The answer record: a pointer to the question, type and class, a time to live of 60
  seconds and the four bytes of the address.\<close>

definition dns_answer :: "bytes \<Rightarrow> bytes" where
  "dns_answer addr = [0xc0, of_nat sizeof_dns_header, 0, 1, 0, 1, 0, 0, 0, 60, 0, 4] @ take 4 addr"

text \<open>The header words rewritten for the reply: flags, question, answer, authority and
  additional counts; the identifier stays.\<close>

definition dns_reply_header :: bytes where
  "dns_reply_header = [0x84, 0x80, 0, 1, 0, 1, 0, 0, 0, 0]"

definition dns_server_process :: "dns_env \<Rightarrow> dns_server_t \<Rightarrow> (udp_call list \<times> dns_server_t) ub" where
  "dns_server_process env d =
    (let copied = take MAX_DNS_MSG_SIZE (packet env); msg_len = length copied in
     bindE (memcpy (dns_stack env) 0 copied msg_len) (\<lambda>msg.
     if msg_len < sizeof_dns_header then Inr ([Pbuf_Free], d)
     else bindE (load_be16 msg 2) (\<lambda>flags. bindE (load_be16 msg 4) (\<lambda>question_count.
       if drop_bit 15 flags AND 1 \<noteq> 0 then Inr ([Pbuf_Free], d)
       else if drop_bit 11 flags AND 0xf \<noteq> 0 then Inr ([Pbuf_Free], d)
       else if question_count < 1 then Inr ([Pbuf_Free], d)
       else bindE (dns_question_loop msg msg_len sizeof_dns_header) (\<lambda>r.
         case r of None \<Rightarrow> Inr ([Pbuf_Free], d)
         | Some q \<Rightarrow>
           if q - sizeof_dns_header > 255 then Inr ([Pbuf_Free], d)
           else (let p = q + 4 in
             bindE (memcpy msg p (dns_answer (dns_ip d)) 16) (\<lambda>msg1.
             bindE (memcpy msg1 2 dns_reply_header 10) (\<lambda>msg2.
             bindE (dns_socket_sendto (dns_pbuf_ok env) (dns_send_err env) (dns_udp d) msg2 (p + 16)
                      (src_addr env) (src_port env)) (\<lambda>(_, cs).
               Inr (cs @ [Pbuf_Free], d))))))))))"

definition dns_server_init ::
  "pcb option \<Rightarrow> int \<Rightarrow> ip_addr \<Rightarrow> dns_server_t \<Rightarrow> (udp_call list \<times> dns_server_t) ub" where
  "dns_server_init new_pcb bind_err ip0 d =
    (let (r, cs, u) = dns_socket_new_dgram new_pcb; d' = d\<lparr>dns_udp := u\<rparr> in
     if r \<noteq> 0 then Inr (cs, d')
     else bindE (dns_socket_bind bind_err u 0 PORT_DNS_SERVER) (\<lambda>(e, cs2).
       if e \<noteq> 0 then Inr (cs @ cs2, d') else Inr (cs @ cs2, d'\<lparr>dns_ip := ip0\<rparr>)))"

definition dns_server_deinit :: "dns_server_t \<Rightarrow> udp_call list \<times> dns_server_t" where
  "dns_server_deinit d = (let (cs, u) = dns_socket_free (dns_udp d) in (cs, d\<lparr>dns_udp := u\<rparr>))"

section \<open>Reference notions\<close>

text \<open>A name as a list of labels, and its encoding.\<close>

fun encode_name :: "bytes list \<Rightarrow> bytes" where
  "encode_name [] = [0]"
| "encode_name (l # ls) = of_nat (length l) # l @ encode_name ls"

definition name_ok :: "bytes list \<Rightarrow> bool" where
  "name_ok ls \<longleftrightarrow> (\<forall>l \<in> set ls. 0 < length l \<and> length l \<le> 63) \<and> length (encode_name ls) \<le> 255"

definition dns_ready :: "dns_server_t \<Rightarrow> bool" where
  "dns_ready d \<longleftrightarrow> dns_udp d \<noteq> None \<and> length (dns_ip d) = 4"

definition dns_env_ok :: "dns_env \<Rightarrow> bool" where
  "dns_env_ok env \<longleftrightarrow> length (dns_stack env) = MAX_DNS_MSG_SIZE"

text \<open>The header of a standard query with at least one question: 12 bytes.\<close>

definition is_query :: "bytes \<Rightarrow> bool" where
  "is_query hdr \<longleftrightarrow> length hdr = 12 \<and>
     (let flags = (push_bit 8 (ucast (hdr ! 2)) OR ucast (hdr ! 3)) :: u16;
          count = (push_bit 8 (ucast (hdr ! 4)) OR ucast (hdr ! 5)) :: u16
      in drop_bit 15 flags AND 1 = 0 \<and> drop_bit 11 flags AND 0xf = 0 \<and> 1 \<le> count)"

lemmas dns_sizes = MAX_DNS_MSG_SIZE_def sizeof_dns_header_def

section \<open>Lemmas\<close>

lemma length_dns_answer: "length addr = 4 \<Longrightarrow> length (dns_answer addr) = 16"
  by (simp add: dns_answer_def)

lemma load_be16_ok: "i + 1 < length msg \<Longrightarrow>
    load_be16 msg i = Inr (push_bit 8 (ucast (msg ! i)) OR ucast (msg ! (i + 1)))"
  by (simp add: load_be16_def buf_get_def)

lemma dns_question_loop_total:
  assumes "msg_len \<le> length msg"
  shows "\<exists>r. dns_question_loop msg msg_len i = Inr r"
  using assms
proof (induction msg msg_len i rule: dns_question_loop.induct)
  case (1 msg msg_len i)
  then show ?case
    by (subst dns_question_loop.simps) (auto simp: buf_get_def)
qed

lemma dns_question_loop_encode:
  assumes "\<forall>l \<in> set ls. 0 < length l \<and> length l \<le> 63"
    and "length pre + length (encode_name ls) \<le> msg_len" and "msg_len \<le> length (pre @ encode_name ls @ rest)"
  shows "dns_question_loop (pre @ encode_name ls @ rest) msg_len (length pre) =
    Inr (Some (length pre + length (encode_name ls)))"
  using assms
proof (induction ls arbitrary: pre)
  case Nil
  then show ?case by (subst dns_question_loop.simps) (simp add: buf_get_def nth_append)
next
  case (Cons l ls)
  let ?pre = "pre @ of_nat (length l) # l"
  have len: "unat (of_nat (length l) :: u8) = length l" "(of_nat (length l) :: u8) \<noteq> 0"
    using Cons.prems(1) by (auto simp: unat_of_nat word_of_nat_eq_0_iff dest: dvd_imp_le)
  have "dns_question_loop (?pre @ encode_name ls @ rest) msg_len (length ?pre) =
      Inr (Some (length ?pre + length (encode_name ls)))"
    using Cons.prems by (intro Cons.IH) auto
  then show ?case
    using Cons.prems len
    by (subst dns_question_loop.simps) (simp add: buf_get_def nth_append not_less)
qed

text \<open>The handler after the copy, on an array of the right size.\<close>

definition dns_work :: "dns_env \<Rightarrow> bytes" where
  "dns_work env = overlay (dns_stack env) 0 (take 300 (packet env))"

definition dns_reply :: "dns_env \<Rightarrow> dns_server_t \<Rightarrow> nat \<Rightarrow> bytes" where
  "dns_reply env d q =
     take 2 (dns_work env) @ dns_reply_header @ slice (dns_work env) 12 (q - 8) @ dns_answer (dns_ip d)"

lemma length_dns_work: "dns_env_ok env \<Longrightarrow> length (dns_work env) = 300"
  by (simp add: dns_work_def dns_env_ok_def dns_sizes)

definition dns_send :: "dns_env \<Rightarrow> dns_server_t \<Rightarrow> nat \<Rightarrow> (udp_call list \<times> dns_server_t) ub" where
  "dns_send env d q =
    bindE (memcpy (dns_work env) (q + 4) (dns_answer (dns_ip d)) 16) (\<lambda>msg1.
    bindE (memcpy msg1 2 dns_reply_header 10) (\<lambda>msg2.
    bindE (dns_socket_sendto (dns_pbuf_ok env) (dns_send_err env) (dns_udp d) msg2 (q + 4 + 16)
             (src_addr env) (src_port env)) (\<lambda>(_, cs). Inr (cs @ [Pbuf_Free], d))))"

lemma dns_send_reply:
  assumes e: "dns_env_ok env" and d: "dns_ready d" and q: "12 \<le> q" "q \<le> 267"
  shows "\<exists>cs. dns_send env d q = Inr (cs, d) \<and>
    sent cs = (if dns_pbuf_ok env then [(src_addr env, src_port env, dns_reply env d q)] else [])"
proof -
  let ?w = "dns_work env" and ?a = "dns_answer (dns_ip d)"
  have lw: "length ?w = 300" and la: "length ?a = 16" and lh: "length dns_reply_header = 10"
    using length_dns_work [OF e] length_dns_answer [of "dns_ip d"] d
    by (simp_all add: dns_ready_def dns_reply_header_def)
  define m2 where "m2 = overlay (overlay ?w (q + 4) ?a) 2 dns_reply_header"
  have m2: "memcpy ?w (q + 4) ?a 16 = Inr (overlay ?w (q + 4) ?a)"
    "memcpy (overlay ?w (q + 4) ?a) 2 dns_reply_header 10 = Inr m2" "length m2 = 300"
    using lw la lh q by (simp_all add: memcpy_def m2_def)
  have tk: "take (q + 4 + 16) m2 = dns_reply env d q"
  proof -
    have "overlay ?w (q + 4) ?a = take 2 ?w @ slice ?w 2 10 @ slice ?w 12 (q - 8) @ ?a @ drop (q + 20) ?w"
    proof -
      have "take (2 + (10 + (q - 8))) ?w = take 2 ?w @ slice ?w 2 10 @ slice ?w 12 (q - 8)"
        by (simp only: take_add slice_def drop_drop) simp
      moreover have "2 + (10 + (q - 8)) = q + 4" using q by simp
      ultimately have "take (q + 4) ?w = take 2 ?w @ slice ?w 2 10 @ slice ?w 12 (q - 8)" by metis
      then show ?thesis using la by (simp add: overlay_def add.commute)
    qed
    then have "m2 = take 2 ?w @ dns_reply_header @ slice ?w 12 (q - 8) @ ?a @ drop (q + 20) ?w"
      unfolding m2_def using lw lh q by (simp add: overlay_def slice_def)
    then show ?thesis using lw la lh q by (simp add: dns_reply_def slice_def)
  qed
  have "memcpy (replicate (q + 4 + 16) 0) 0 m2 (q + 4 + 16) = Inr (dns_reply env d q)"
    using m2(3) q tk memcpy_fresh [of "q + 4 + 16" m2] by simp
  then show ?thesis
    unfolding dns_send_def m2(1,2) bindE.simps dns_socket_sendto_def Let_def
    using q d by (auto simp: dns_ready_def)
qed

text \<open>The handler by cases.\<close>

definition asks :: "dns_env \<Rightarrow> bool" where
  "asks env \<longleftrightarrow> 12 \<le> length (packet env) \<and> is_query (take 12 (packet env))"

lemma dns_work_nth: "dns_env_ok env \<Longrightarrow> i < length (packet env) \<Longrightarrow> i < 300 \<Longrightarrow> dns_work env ! i = packet env ! i"
  by (simp add: dns_work_def overlay_nth dns_env_ok_def dns_sizes)

lemma dns_process_cases:
  assumes e: "dns_env_ok env"
  shows "dns_server_process env d =
    (if \<not> asks env then Inr ([Pbuf_Free], d)
     else bindE (dns_question_loop (dns_work env) (min 300 (length (packet env))) 12) (\<lambda>r.
       case r of None \<Rightarrow> Inr ([Pbuf_Free], d)
       | Some q \<Rightarrow> if q - 12 > 255 then Inr ([Pbuf_Free], d) else dns_send env d q))"
proof -
  have m: "memcpy (dns_stack env) 0 (take 300 (packet env)) (length (take 300 (packet env))) = Inr (dns_work env)"
    using e by (simp add: memcpy_def dns_work_def dns_env_ok_def dns_sizes min_def)
  show ?thesis
  proof (cases "length (packet env) < 12")
    case True
    then show ?thesis using m by (simp add: dns_server_process_def dns_sizes asks_def Let_def)
  next
    case False
    have l: "load_be16 (dns_work env) i = Inr (push_bit 8 (ucast (packet env ! i)) OR ucast (packet env ! (i + 1)))"
      if "i \<le> 4" for i
      using that False dns_work_nth [OF e] length_dns_work [OF e] by (simp add: load_be16_ok)
    show ?thesis
      unfolding dns_server_process_def dns_send_def Let_def MAX_DNS_MSG_SIZE_def m bindE.simps
      using False l [of 2] l [of 4]
      by (auto simp: asks_def is_query_def Let_def sizeof_dns_header_def min.commute not_le word_less_1)
  qed
qed

lemma dns_question_loop_ge:
  "dns_question_loop msg n i = Inr (Some q) \<Longrightarrow> i \<le> q"
proof (induction msg n i rule: dns_question_loop.induct)
  case (1 msg msg_len i)
  from "1.prems" "1.IH" show ?case
    by (subst (asm) dns_question_loop.simps) (force split: if_splits)
qed

text \<open>Whatever comes in, the handler completes, keeps its state and sends at most one reply.\<close>

lemma dns_process_total:
  assumes e: "dns_env_ok env" and d: "dns_ready d"
  shows "\<exists>cs. dns_server_process env d = Inr (cs, d) \<and>
    (sent cs = [] \<or> (\<exists>q. 12 \<le> q \<and> q \<le> 267 \<and> asks env \<and>
       dns_question_loop (dns_work env) (min 300 (length (packet env))) 12 = Inr (Some q) \<and>
       sent cs = [(src_addr env, src_port env, dns_reply env d q)]))"
proof (cases "asks env")
  case True
  obtain r where r: "dns_question_loop (dns_work env) (min 300 (length (packet env))) 12 = Inr r"
    using dns_question_loop_total [of "min 300 (length (packet env))" "dns_work env" 12] length_dns_work [OF e] by auto
  show ?thesis
  proof (cases "\<exists>q. r = Some q \<and> q - 12 \<le> 255")
    case True
    then obtain q where q: "r = Some q" "q - 12 \<le> 255" by blast
    then have "12 \<le> q" "q \<le> 267" using dns_question_loop_ge [of "dns_work env"] r by auto
    with q dns_send_reply [OF e d, of q] show ?thesis
      unfolding dns_process_cases [OF e] using r \<open>asks env\<close> by auto
  next
    case False
    then show ?thesis unfolding dns_process_cases [OF e] using r \<open>asks env\<close>
      by (auto split: option.splits)
  qed
qed (simp add: dns_process_cases [OF e])

lemma length_dns_reply:
  assumes "dns_env_ok env" and "dns_ready d" and "12 \<le> q" and "q \<le> 267"
  shows "length (dns_reply env d q) = q + 20"
  using assms length_dns_work [OF assms(1)] length_dns_answer [of "dns_ip d"]
  by (simp add: dns_reply_def dns_reply_header_def slice_def dns_ready_def)

interpretation dns: reactive dns_server_process dns_env_ok dns_ready
proof unfold_locales
  fix d env out d'
  assume "dns_ready d" "dns_env_ok env" "dns_server_process env d = Inr (out, d')"
  then show "dns_ready d'" using dns_process_total [of env d] by auto
next
  fix d env assume "dns_ready d" "dns_env_ok env"
  then show "\<exists>out d'. dns_server_process env d = Inr (out, d')" using dns_process_total [of env d] by blast
qed

section \<open>Properties\<close>

text \<open>C30: no packet, however malformed, and no sequence of packets makes the DNS server access memory
  outside its 300-byte buffer; each packet gets at most one reply, of at most 287 bytes, to its
  sender, and the server's state never changes.\<close>

theorem dns_memory_safe:
  assumes "dns_ready d" and "list_all dns_env_ok (env # envs)"
  shows "(\<exists>css d'. runE dns_server_process (env # envs) d = Inr (css, d') \<and> dns_ready d') \<and>
    (\<exists>cs. dns_server_process env d = Inr (cs, d) \<and> length (sent cs) \<le> 1 \<and>
      (\<forall>(dst, port, m) \<in> set (sent cs). dst = src_addr env \<and> port = src_port env \<and> length m \<le> 287))"
proof
  show "\<exists>css d'. runE dns_server_process (env # envs) d = Inr (css, d') \<and> dns_ready d'"
    using assms by (rule dns.run_safe)
  have e: "dns_env_ok env" using assms(2) by simp
  from dns_process_total [OF e assms(1)] length_dns_reply [OF e assms(1)]
  show "\<exists>cs. dns_server_process env d = Inr (cs, d) \<and> length (sent cs) \<le> 1 \<and>
      (\<forall>(dst, port, m) \<in> set (sent cs). dst = src_addr env \<and> port = src_port env \<and> length m \<le> 287)"
    by (elim exE conjE disjE) auto
qed

text \<open>C31: a standard query whose question fits the buffer is answered with its identifier, the reply
  flags, its first question verbatim and one address record that carries the device's address.\<close>

theorem dns_answers_query:
  assumes "dns_env_ok env" and "dns_ready d" and "dns_pbuf_ok env"
    and "packet env = hdr @ encode_name ls @ qtype_class @ rest"
    and "is_query hdr" and "name_ok ls" and "length qtype_class = 4"
  shows "\<exists>cs. dns_server_process env d = Inr (cs, d) \<and>
    sent cs = [(src_addr env, src_port env,
      take 2 hdr @ [0x84, 0x80, 0, 1, 0, 1, 0, 0, 0, 0] @ encode_name ls @ qtype_class @
      [0xc0, 12, 0, 1, 0, 1, 0, 0, 0, 60, 0, 4] @ dns_ip d)]"
proof -
  let ?n = "encode_name ls" and ?w = "dns_work env"
  have h: "length hdr = 12" and n: "length ?n \<le> 255" and ip: "length (dns_ip d) = 4"
    using assms by (simp_all add: is_query_def name_ok_def dns_ready_def)
  have a: "asks env" using assms(4,5) h by (simp add: asks_def)
  let ?rest = "take (284 - length ?n) rest @ drop (min 300 (length (packet env))) (dns_stack env)"
  have w: "?w = hdr @ ?n @ qtype_class @ ?rest"
    using assms(1,4,7) h n by (simp add: dns_work_def overlay_def dns_env_ok_def dns_sizes min_def)
  have loop: "dns_question_loop ?w (min 300 (length (packet env))) 12 = Inr (Some (12 + length ?n))"
    using dns_question_loop_encode [of ls hdr "min 300 (length (packet env))" "qtype_class @ ?rest"] assms(4,6,7) h n
      length_dns_work [OF assms(1)] unfolding w by (simp add: name_ok_def)
  have rep: "dns_reply env d (12 + length ?n) = take 2 hdr @ [0x84, 0x80, 0, 1, 0, 1, 0, 0, 0, 0] @ ?n @ qtype_class @
      [0xc0, 12, 0, 1, 0, 1, 0, 0, 0, 60, 0, 4] @ dns_ip d"
    unfolding dns_reply_def w using h ip assms(7)
    by (simp add: dns_reply_header_def dns_answer_def sizeof_dns_header_def slice_def)
  have "12 + length ?n \<le> 267" using n by simp
  from dns_send_reply [OF assms(1,2) _ this] show ?thesis
    unfolding dns_process_cases [OF assms(1)] using a loop rep assms(3) n by simp
qed

text \<open>The handler never checks that the question lies inside the packet. A query that ends right
  after its header is answered with four bytes of the handler's uninitialised stack in place of
  the question.\<close>

theorem dns_stack_disclosure:
  assumes "dns_env_ok env" and "dns_ready d" and "dns_pbuf_ok env" and "is_query (packet env)"
  shows "\<exists>cs m. dns_server_process env d = Inr (cs, d) \<and> sent cs = [(src_addr env, src_port env, m)] \<and>
    slice m 12 4 = slice (dns_stack env) 12 4"
proof -
  have h: "length (packet env) = 12" using assms(4) by (simp add: is_query_def)
  have a: "asks env" using assms(4) h by (simp add: asks_def)
  have loop: "dns_question_loop (dns_work env) (min 300 (length (packet env))) 12 = Inr (Some 12)"
    using h by (subst dns_question_loop.simps) simp
  have "slice (dns_reply env d 12) 12 4 = slice (dns_stack env) 12 4"
    using h assms(1) by (simp add: dns_reply_def dns_work_def overlay_def slice_def dns_reply_header_def dns_env_ok_def dns_sizes)
  with dns_send_reply [OF assms(1,2), of 12] show ?thesis
    unfolding dns_process_cases [OF assms(1)] using a loop assms(3) by auto
qed

section \<open>Sample runs\<close>

definition demo_dns :: dns_server_t where
  "demo_dns = \<lparr> dns_udp = Some 1, dns_ip = [192, 168, 4, 1] \<rparr>"

definition demo_dns_header :: bytes where
  "demo_dns_header = [0x12, 0x34, 1, 0, 0, 1, 0, 0, 0, 0, 0, 0]"

definition demo_dns_env :: "bytes \<Rightarrow> dns_env" where
  "demo_dns_env pkt = \<lparr> packet = pkt, src_addr = [192, 168, 4, 16], src_port = 5353,
     dns_stack = replicate 300 0xA5, dns_pbuf_ok = True, dns_send_err = 0 \<rparr>"

lemma demo_dns_ok: "dns_ready demo_dns" "dns_env_ok (demo_dns_env pkt)" "is_query demo_dns_header"
  "name_ok [chars ''pico'', chars ''lan'']"
proof -
  show "is_query demo_dns_header" "name_ok [chars ''pico'', chars ''lan'']" by code_simp+
qed (simp_all add: demo_dns_def demo_dns_env_def dns_ready_def dns_env_ok_def dns_sizes)

theorem dns_memory_safe_witness:
  "\<exists>cs. dns_server_process (demo_dns_env [1, 2, 3]) demo_dns = Inr (cs, demo_dns) \<and> length (sent cs) \<le> 1"
  using dns_memory_safe [OF demo_dns_ok(1), of "demo_dns_env [1, 2, 3]" "[]"] demo_dns_ok(2) by auto

theorem dns_answers_query_witness:
  "\<exists>cs. dns_server_process (demo_dns_env (demo_dns_header @ encode_name [chars ''pico'', chars ''lan''] @ [0, 1, 0, 1]))
      demo_dns = Inr (cs, demo_dns) \<and>
    map (\<lambda>(dst, port, m). (dst, port, slice m 0 6, drop 38 m)) (sent cs) =
      [([192, 168, 4, 16], 5353, [0x12, 0x34, 0x84, 0x80, 0, 1], [192, 168, 4, 1])]"
proof -
  let ?p = "demo_dns_header @ encode_name [chars ''pico'', chars ''lan''] @ [0, 1, 0, 1]"
  have "packet (demo_dns_env ?p) = demo_dns_header @ encode_name [chars ''pico'', chars ''lan''] @ [0, 1, 0, 1] @ []"
    "dns_pbuf_ok (demo_dns_env ?p)" "length [0, 1, 0, 1 :: u8] = 4"
    by (simp_all add: demo_dns_env_def)
  from dns_answers_query [OF demo_dns_ok(2,1) this(2,1) demo_dns_ok(3,4) this(3)] show ?thesis
    by (elim exE conjE, intro exI conjI) (assumption, simp add: demo_dns_env_def demo_dns_def demo_dns_header_def slice_def)
qed

theorem dns_stack_disclosure_witness:
  "\<exists>cs m. dns_server_process (demo_dns_env demo_dns_header) demo_dns = Inr (cs, demo_dns) \<and>
     sent cs = [([192, 168, 4, 16], 5353, m)] \<and> slice m 12 4 = [0xA5, 0xA5, 0xA5, 0xA5]"
  using dns_stack_disclosure [OF demo_dns_ok(2,1), of demo_dns_header] demo_dns_ok(3)
  by (simp add: demo_dns_env_def slice_def numeral_eq_Suc)

end
