(* ===== verification/Wifi_Arch.thy ===== *)
theory Wifi_Arch
  imports Pico_Prelude "HOL-Library.Signed_Division"
begin

text \<open>
  \<open>src/wifi_arch.c\<close>: bringing up the wireless interface.

  The calls into the driver are collected in order. What they return is an argument: the
  initialisation, each connection attempt, and the link status at each poll. The value of
  \<open>CYW43_LINK_UP\<close> belongs to the driver and is an argument too.
\<close>

section \<open>Model\<close>

definition CONNECT_ATTEMPTS :: nat where "CONNECT_ATTEMPTS = 5"

datatype wifi_call =
    Ap_Mode bytes bytes u32
  | Sta_Mode
  | Set_Hostname bytes
  | Led bool
  | Wifi_Connect bytes bytes u32
  | Sleep_Ms u32
  | Set_Ip u32 | Set_Netmask u32 | Set_Gw u32

definition setup_ap :: "int \<Rightarrow> bytes \<Rightarrow> bytes \<Rightarrow> u32 \<Rightarrow> int \<times> wifi_call list" where
  "setup_ap init_res ssid pass auth = (if init_res \<noteq> 0 then (init_res, []) else (0, [Ap_Mode ssid pass auth]))"

text \<open>The attempts that are left, the number of the next one, and the last result.\<close>

fun connect_loop :: "(nat \<Rightarrow> int) \<Rightarrow> bytes \<Rightarrow> bytes \<Rightarrow> u32 \<Rightarrow> nat \<Rightarrow> nat \<Rightarrow> int \<Rightarrow> int \<times> wifi_call list" where
  "connect_loop connect ssid pass auth 0 i res = (res, [])"
| "connect_loop connect ssid pass auth (Suc k) i res =
    (let res' = connect i in
     if res' = 0 then (res', [Wifi_Connect ssid pass auth])
     else let (r, cs) = connect_loop connect ssid pass auth k (Suc i) res'
          in (r, Wifi_Connect ssid pass auth # Sleep_Ms 5000 # cs))"

text \<open>The loop that waits for the link, on what it reads in each round. \<open>None\<close>: still waiting at the end of
  the list. The quotient is C's, and the delay is converted to unsigned.\<close>

fun link_loop :: "int \<Rightarrow> int list \<Rightarrow> int \<Rightarrow> int \<Rightarrow> (int \<times> wifi_call list) run" where
  "link_loop link_up polls flashrate status =
    (if 0 \<le> status \<and> status \<noteq> link_up then
       case polls of
         [] \<Rightarrow> Inr None
       | new_status # rest \<Rightarrow>
           bindE (if new_status = status then Inr flashrate
                  else if new_status + 1 = 0 then Inl Division_By_Zero
                  else Inr (flashrate sdiv (new_status + 1))) (\<lambda>rate.
           bindO (link_loop link_up rest rate new_status) (\<lambda>(st, cs).
             Inr (Some (st, [Led True, Sleep_Ms (of_int rate), Led False, Sleep_Ms (of_int rate)] @ cs))))
     else Inr (Some (status, [])))"

declare link_loop.simps [simp del]

record wifi_env =
  country_init :: int
  connect_res :: "nat \<Rightarrow> int"
  link_polls :: "int list"

definition setup_sta ::
  "int \<Rightarrow> wifi_env \<Rightarrow> bytes \<Rightarrow> bytes \<Rightarrow> u32 \<Rightarrow> bytes option \<Rightarrow> u32 option \<Rightarrow> u32 option \<Rightarrow> u32 option \<Rightarrow>
     (int \<times> wifi_call list) run" where
  "setup_sta link_up env ssid pass auth hostname ip netmask gw =
    (if country_init env \<noteq> 0 then Inr (Some (1, []))
     else
       (let pre = [Sta_Mode] @ (case hostname of None \<Rightarrow> [] | Some h \<Rightarrow> [Set_Hostname h]) @ [Led True];
            (res, attempts) = connect_loop (connect_res env) ssid pass auth CONNECT_ATTEMPTS 0 0
        in if res \<noteq> 0 then Inr (Some (2, pre @ attempts @ [Led False]))
           else bindO (link_loop link_up (link_polls env) 1000 (link_up + 1)) (\<lambda>(status, waiting).
             Inr (Some (status, pre @ attempts @ waiting @
               (if status < 0 then [Led False]
                else [Led True] @ (case ip of None \<Rightarrow> [] | Some a \<Rightarrow> [Set_Ip a]) @
                     (case netmask of None \<Rightarrow> [] | Some a \<Rightarrow> [Set_Netmask a]) @
                     (case gw of None \<Rightarrow> [] | Some a \<Rightarrow> [Set_Gw a])))))))"

section \<open>Lemmas\<close>

definition attempts_made :: "wifi_call list \<Rightarrow> nat" where
  "attempts_made cs = length (filter (\<lambda>c. case c of Wifi_Connect _ _ _ \<Rightarrow> True | _ \<Rightarrow> False) cs)"

lemma attempts_made_simps [simp]:
  "attempts_made [] = 0" "attempts_made (c # cs) = (case c of Wifi_Connect _ _ _ \<Rightarrow> 1 | _ \<Rightarrow> 0) + attempts_made cs"
  "attempts_made (as @ bs) = attempts_made as + attempts_made bs"
  by (auto simp: attempts_made_def split: wifi_call.split)

text \<open>The first attempt that succeeds ends the loop.\<close>

lemma connect_loop_result:
  assumes "connect_loop connect ssid pass auth k i res = (r, cs)"
  shows "if \<exists>j<k. connect (i + j) = 0
    then r = 0 \<and> (\<exists>j<k. connect (i + j) = 0 \<and> (\<forall>l<j. connect (i + l) \<noteq> 0) \<and> attempts_made cs = Suc j)
    else attempts_made cs = k \<and> (k = 0 \<longrightarrow> r = res) \<and> (0 < k \<longrightarrow> r = connect (i + k - 1))"
  using assms
proof (induction k arbitrary: i res r cs)
  case (Suc k)
  show ?case
  proof (cases "connect i = 0")
    case True
    with Suc.prems have "r = 0" "attempts_made cs = Suc 0" by (auto simp: Let_def)
    with True show ?thesis by (auto intro!: exI [of _ 0])
  next
    case False
    then obtain cs' where cs': "connect_loop connect ssid pass auth k (Suc i) (connect i) = (r, cs')"
      "cs = Wifi_Connect ssid pass auth # Sleep_Ms 5000 # cs'"
      using Suc.prems by (auto simp: Let_def split: prod.splits)
    have shift: "(\<exists>j<Suc k. connect (i + j) = 0) \<longleftrightarrow> (\<exists>j<k. connect (Suc i + j) = 0)"
      using False by (auto simp: less_Suc_eq_0_disj)
    show ?thesis
    proof (cases "\<exists>j<k. connect (Suc i + j) = 0")
      case True
      with Suc.IH [OF cs'(1)] obtain j where j: "r = 0" "j < k" "connect (Suc i + j) = 0"
        "\<forall>l<j. connect (Suc i + l) \<noteq> 0" "attempts_made cs' = Suc j" by auto
      have "\<forall>l<Suc j. connect (i + l) \<noteq> 0" using j(4) False by (auto simp: less_Suc_eq_0_disj)
      with j cs'(2) shift True show ?thesis by (auto intro!: exI [of _ "Suc j"])
    next
      case no: False
      with Suc.IH [OF cs'(1)] shift cs'(2) show ?thesis by (cases k) auto
    qed
  qed
qed simp

lemma link_loop_up:
  assumes "0 \<le> link_up" "list_all (\<lambda>s. 0 \<le> s \<and> s \<noteq> link_up) before" "0 \<le> status" "status \<noteq> link_up"
  shows "\<exists>cs. link_loop link_up (before @ link_up # rest) rate status = Inr (Some (link_up, cs)) \<and> attempts_made cs = 0"
  using assms(2-4)
proof (induction before arbitrary: rate status)
  case Nil
  then show ?case using assms(1)
    by (subst link_loop.simps, simp add: link_loop.simps [of link_up rest])
next
  case (Cons s before)
  let ?rate = "if s = status then rate else rate sdiv (s + 1)"
  from Cons.IH [of s ?rate] Cons.prems(1) obtain cs where
    "link_loop link_up (before @ link_up # rest) ?rate s = Inr (Some (link_up, cs))" "attempts_made cs = 0" by auto
  with Cons.prems show ?case
    by (subst link_loop.simps) (auto split: if_splits)
qed

section \<open>Properties\<close>

text \<open>Connecting to the network. The connection is tried at most five times and no further once an attempt
  succeeds; when all five fail the result is 2. After a successful attempt the function comes back
  as soon as a poll shows the link up, with that status, however often the status changed
  before, if it was never negative.\<close>

theorem setup_sta_connects:
  assumes "country_init env = 0" "0 \<le> link_up"
  shows "((\<forall>j<5. connect_res env j \<noteq> 0) \<longrightarrow>
      (\<exists>cs. setup_sta link_up env ssid pass auth hostname ip netmask gw = Inr (Some (2, cs)) \<and> attempts_made cs = 5)) \<and>
    (\<forall>j before rest. j < 5 \<and> connect_res env j = 0 \<and> (\<forall>l<j. connect_res env l \<noteq> 0) \<and>
        link_polls env = before @ link_up # rest \<and> list_all (\<lambda>s. 0 \<le> s \<and> s \<noteq> link_up) before \<longrightarrow>
      (\<exists>cs. setup_sta link_up env ssid pass auth hostname ip netmask gw = Inr (Some (link_up, cs)) \<and> attempts_made cs = Suc j))"
proof -
  obtain r as where c: "connect_loop (connect_res env) ssid pass auth 5 0 0 = (r, as)" by fastforce
  note res = connect_loop_result [OF c, unfolded add_0]
  have opt: "attempts_made (case hostname of None \<Rightarrow> [] | Some h \<Rightarrow> [Set_Hostname h]) = 0"
    "attempts_made (case ip of None \<Rightarrow> [] | Some a \<Rightarrow> [Set_Ip a]) = 0"
    "attempts_made (case netmask of None \<Rightarrow> [] | Some a \<Rightarrow> [Set_Netmask a]) = 0"
    "attempts_made (case gw of None \<Rightarrow> [] | Some a \<Rightarrow> [Set_Gw a]) = 0"
    by (simp_all split: option.split)
  have "\<exists>cs. setup_sta link_up env ssid pass auth hostname ip netmask gw = Inr (Some (2, cs)) \<and> attempts_made cs = 5"
    if "\<forall>j<5. connect_res env j \<noteq> 0"
  proof -
    have "\<not> (\<exists>j<5. connect_res env j = 0)" using that by blast
    with res that have "r \<noteq> 0" "attempts_made as = 5" by (simp_all only: if_False simp_thms)
    with assms(1) c show ?thesis by (simp add: setup_sta_def CONNECT_ATTEMPTS_def Let_def opt)
  qed
  moreover have "\<exists>cs. setup_sta link_up env ssid pass auth hostname ip netmask gw = Inr (Some (link_up, cs)) \<and> attempts_made cs = Suc j"
    if j: "j < 5" "connect_res env j = 0" "\<forall>l<j. connect_res env l \<noteq> 0"
      and polls: "link_polls env = before @ link_up # rest" "list_all (\<lambda>s. 0 \<le> s \<and> s \<noteq> link_up) before" for j before rest
  proof -
    have "\<exists>j<5. connect_res env j = 0" using j(1,2) by blast
    from res [unfolded if_P [OF this]] obtain k where k: "r = 0" "connect_res env k = 0" "\<forall>l<k. connect_res env l \<noteq> 0" "attempts_made as = Suc k" by blast
    then have "k = j" using j by (metis linorder_neqE_nat)
    from link_loop_up [OF assms(2) polls(2), of "link_up + 1" rest 1000] assms(2) obtain cs where
      "link_loop link_up (link_polls env) 1000 (link_up + 1) = Inr (Some (link_up, cs))" "attempts_made cs = 0"
      by (auto simp: polls)
    with assms c k \<open>k = j\<close> show ?thesis by (simp add: setup_sta_def CONNECT_ATTEMPTS_def Let_def opt)
  qed
  ultimately show ?thesis by blast
qed

definition demo_wifi :: wifi_env where
  "demo_wifi = \<lparr> country_init = 0, connect_res = (\<lambda>i. if i < 2 then - 1 else 0), link_polls = [1, 1, 2, 3] \<rparr>"

theorem setup_sta_connects_witness:
  "\<exists>cs. setup_sta 3 demo_wifi [65] [66] 0 None None None None = Inr (Some (3, cs)) \<and> attempts_made cs = 3"
proof -
  have "(2 :: nat) < 5 \<and> connect_res demo_wifi 2 = 0 \<and> (\<forall>l<2. connect_res demo_wifi l \<noteq> 0) \<and>
      link_polls demo_wifi = [1, 1, 2] @ 3 # [] \<and> list_all (\<lambda>s. 0 \<le> s \<and> s \<noteq> 3) [1, 1, 2 :: int]"
    by (simp add: demo_wifi_def)
  moreover have "country_init demo_wifi = 0" by (simp add: demo_wifi_def)
  ultimately have "\<exists>cs. setup_sta 3 demo_wifi [65] [66] 0 None None None None = Inr (Some (3, cs)) \<and> attempts_made cs = Suc 2"
    using setup_sta_connects [of demo_wifi 3 "[65]" "[66]" 0 None None None None, THEN conjunct2, rule_format, of 2 "[1, 1, 2]" "[]"] by fastforce
  then show ?thesis by simp
qed

text \<open>A link that fails after a successful attempt. On the driver's status -1 the blink rate is
  divided by zero. On a status below that the rate becomes negative and, converted to unsigned, the
  two delays before the function comes back are 49 days each.\<close>

theorem setup_sta_link_failure:
  assumes "country_init env = 0" "connect_res env 0 = 0" "0 \<le> link_up" "link_polls env = status # rest"
  shows "(status = - 1 \<longrightarrow> setup_sta link_up env ssid pass auth hostname ip netmask gw = Inl Division_By_Zero) \<and>
    (- 1000 \<le> status \<and> status < - 1 \<longrightarrow>
      (\<exists>cs ms. setup_sta link_up env ssid pass auth hostname ip netmask gw = Inr (Some (status, cs)) \<and>
        Sleep_Ms ms \<in> set cs \<and> 49 * 24 * 60 * 60 * 1000 < unat ms))"
proof -
  have c: "connect_loop (connect_res env) ssid pass auth 5 0 0 = (0, [Wifi_Connect ssid pass auth])"
    using assms(2) by (simp add: numeral_eq_Suc)
  have "setup_sta link_up env ssid pass auth hostname ip netmask gw = Inl Division_By_Zero" if "status = - 1"
    using assms c that by (simp add: setup_sta_def CONNECT_ATTEMPTS_def Let_def link_loop.simps [of _ "_ # _"])
  moreover have "\<exists>cs ms. setup_sta link_up env ssid pass auth hostname ip netmask gw = Inr (Some (status, cs)) \<and>
        Sleep_Ms ms \<in> set cs \<and> 49 * 24 * 60 * 60 * 1000 < unat ms" if s: "- 1000 \<le> status" "status < - 1"
  proof -
    let ?q = "1000 sdiv (status + 1) :: int"
    have e: "?q = - (1000 div (- (status + 1)))" using s by (simp add: signed_divide_int_def)
    have "0 < 1000 div (- (status + 1)) \<and> 1000 div (- (status + 1)) \<le> 1000"
      using s zdiv_mono2 [of 1000 1 "- (status + 1)"] by (simp add: pos_imp_zdiv_pos_iff)
    then have q: "- 1000 \<le> ?q" "?q < 0" using e by simp_all
    have "x mod 4294967296 = x + 4294967296" if "- 1000 \<le> x" "x < 0" for x :: int
    proof -
      have "(x + 4294967296) mod 4294967296 = x + 4294967296" using that by (intro mod_pos_pos_trivial) simp_all
      then show ?thesis by simp
    qed
    from this [OF q] have "uint (of_int ?q :: u32) = ?q + 2 ^ 32" by (simp add: uint_word_of_int)
    then have "49 * 24 * 60 * 60 * 1000 < unat (of_int ?q :: u32)" using q by (simp add: unat_eq_nat_uint)
    moreover have "\<exists>cs. setup_sta link_up env ssid pass auth hostname ip netmask gw = Inr (Some (status, cs)) \<and>
        Sleep_Ms (of_int ?q) \<in> set cs"
      using assms c s
      by (simp add: setup_sta_def CONNECT_ATTEMPTS_def Let_def link_loop.simps [of _ "_ # _"] link_loop.simps [of _ rest])
    ultimately show ?thesis by blast
  qed
  ultimately show ?thesis by blast
qed

theorem setup_sta_link_failure_witness:
  "setup_sta 3 (demo_wifi\<lparr>connect_res := (\<lambda>_. 0), link_polls := [- 1]\<rparr>) [65] [66] 0 None None None None = Inl Division_By_Zero \<and>
   (\<exists>cs ms. setup_sta 3 (demo_wifi\<lparr>connect_res := (\<lambda>_. 0), link_polls := [- 2]\<rparr>) [65] [66] 0 None None None None = Inr (Some (- 2, cs)) \<and>
     Sleep_Ms ms \<in> set cs \<and> 49 * 24 * 60 * 60 * 1000 < unat ms)"
  using setup_sta_link_failure [of "demo_wifi\<lparr>connect_res := (\<lambda>_. 0), link_polls := [- 1]\<rparr>" 3 "- 1" "[]" "[65]" "[66]" 0 None None None None]
    setup_sta_link_failure [of "demo_wifi\<lparr>connect_res := (\<lambda>_. 0), link_polls := [- 2]\<rparr>" 3 "- 2" "[]" "[65]" "[66]" 0 None None None None]
  by (simp add: demo_wifi_def)

end
