(* ===== verification/Access_Point.thy ===== *)
theory Access_Point
  imports Sensor_Queue Settings_Form Dhcp_Correct Dns_Server Wifi_Arch
begin

text \<open>
  \<open>httpd_ap_mode\<close> of \<open>src/main.c\<close>: the device as an access point with its address server, its name
  server and the settings page, until a form has changed the settings; then they go to flash and the
  device asks for a restart.

  While the loop sleeps, the network stack delivers packets and requests, and the sensor core puts texts into the
  queue. The argument is the list of what arrives in each round; a result of \<open>Inr None\<close> means that the loop is still running
  at the end of the list.
\<close>

section \<open>Model\<close>

definition AP_MODE_SSID :: string where "AP_MODE_SSID = ''pico_sensors''"
definition AP_MODE_PASS :: string where "AP_MODE_PASS = ''password''"

record 'q ap_state =
  ap_queue :: 'q
  ap_table :: "queue_entry_t list"
  ap_settings :: settings_state
  ap_http :: "settings_state http_control"
  ap_dhcp :: dhcp_server_t
  ap_dns :: dns_server_t
  ap_calls :: "udp_call list"

datatype ap_event =
    Web_Post int "bytes list" bytes u16
  | Dhcp_Packet dhcp_env
  | Dns_Packet dns_env
  | Sensor_Text bytes u8

text \<open>A text for which there is no room changes nothing: the sensor core waits in its call.\<close>

fun ap_serve :: "'q queue_ops \<Rightarrow> ap_event \<Rightarrow> 'q ap_state \<Rightarrow> 'q ap_state ub" where
  "ap_serve ops (Web_Post n chunks uri ulen) s =
    bindE (post_request n chunks uri ulen (ap_settings s, ap_http s)) (\<lambda>(_, st, h).
      Inr (s\<lparr>ap_settings := st, ap_http := h\<rparr>))"
| "ap_serve ops (Dhcp_Packet env) s =
    bindE (dhcp_server_process env (ap_dhcp s)) (\<lambda>(cs, d). Inr (s\<lparr>ap_dhcp := d, ap_calls := ap_calls s @ cs\<rparr>))"
| "ap_serve ops (Dns_Packet env) s =
    bindE (dns_server_process env (ap_dns s)) (\<lambda>(cs, d). Inr (s\<lparr>ap_dns := d, ap_calls := ap_calls s @ cs\<rparr>))"
| "ap_serve ops (Sensor_Text str i) s =
    bindE (pass_sensor_data_to_queue ops str 128 i (ap_queue s)) (\<lambda>added.
      Inr (case added of None \<Rightarrow> s | Some q \<Rightarrow> s\<lparr>ap_queue := q\<rparr>))"

fun ap_serve_all :: "'q queue_ops \<Rightarrow> ap_event list \<Rightarrow> 'q ap_state \<Rightarrow> 'q ap_state ub" where
  "ap_serve_all ops [] s = Inr s"
| "ap_serve_all ops (e # es) s = bindE (ap_serve ops e s) (ap_serve_all ops es)"

text \<open>The flag is a global that the web server sets through the pointer it was given.\<close>

definition store_settings_flag :: "'q ap_state \<Rightarrow> bool" where
  "store_settings_flag s \<longleftrightarrow> static_store_settings_flag (ap_http s) = Some True"

definition clear_store_flag :: "'q ap_state \<Rightarrow> 'q ap_state" where
  "clear_store_flag s =
    s\<lparr>ap_http := (ap_http s)\<lparr>static_store_settings_flag := map_option (\<lambda>_. False) (static_store_settings_flag (ap_http s))\<rparr>\<rparr>"

fun ap_loop :: "'q queue_ops \<Rightarrow> nat \<Rightarrow> ap_event list list \<Rightarrow> 'q ap_state \<Rightarrow> 'q ap_state run" where
  "ap_loop ops k [] s = Inr None"
| "ap_loop ops k (evs # rounds) s =
    bindO (drain_queue ops k (ap_queue s, ap_table s)) (\<lambda>(q, t).
      (let s1 = s\<lparr>ap_queue := q, ap_table := t\<rparr> in
       if store_settings_flag s1 \<and> settings_changed (ap_settings s1) then Inr (Some s1)
       else (let s2 = (if store_settings_flag s1 then clear_store_flag s1 else s1) in
             bindO (doneE (ap_serve_all ops evs s2)) (ap_loop ops k rounds))))"

text \<open>\<open>init_res\<close>: the driver's initialisation; control blocks and bind results as the servers'
  functions take them.\<close>

record ap_env =
  copy_ok :: bool
  ap_init_res :: int
  dhcp_sock :: "pcb option \<times> int"
  dns_sock :: "pcb option \<times> int"

definition ap_start :: "ap_env \<Rightarrow> u32 \<Rightarrow> 'q ap_state \<Rightarrow> 'q ap_state ub" where
  "ap_start env auth s =
    (if fst (setup_ap (ap_init_res env) (literal AP_MODE_SSID) (literal AP_MODE_PASS) auth) \<noteq> 0 then Inr s
     else
       bindE (dhcp_server_init (fst (dhcp_sock env)) (snd (dhcp_sock env)) [192, 168, 4, 1] [255, 255, 255, 0] (ap_dhcp s)) (\<lambda>(cs1, dh).
       bindE (dns_server_init (fst (dns_sock env)) (snd (dns_sock env)) [192, 168, 4, 1] (ap_dns s)) (\<lambda>(cs2, dn).
         Inr (s\<lparr>ap_dhcp := dh, ap_dns := dn, ap_calls := ap_calls s @ cs1 @ cs2,
                ap_http := snd (snd (my_httpd_run sensor_topics (of_nat NUMBER_OF_SENSOR_TOPICS) process_post_field
                  (store_settings_flag s) (ap_http s)))\<rparr>))))"

text \<open>The boolean is the value \<open>reset_core\<close> is left with. \<open>after\<close> is the memory that follows the settings.\<close>

definition httpd_ap_mode ::
  "ap_env \<Rightarrow> u32 \<Rightarrow> 'q queue_ops \<Rightarrow> nat \<Rightarrow> ap_event list list \<Rightarrow> flash_dev \<Rightarrow> bytes \<Rightarrow> flash \<Rightarrow> 'q ap_state \<Rightarrow>
     (bool \<times> flash \<times> 'q ap_state) run" where
  "httpd_ap_mode env auth ops k rounds dev after fl s =
    (if \<not> copy_ok env then Inr (Some (False, fl, s))
     else bindO (doneE (ap_start env auth s)) (\<lambda>s1.
       bindO (ap_loop ops k rounds s1) (\<lambda>s2.
         (let (cs1, dn) = dns_server_deinit (ap_dns s2);
              (cs2, dh) = dhcp_server_deinit (ap_dhcp s2);
              s3 = s2\<lparr>ap_dns := dn, ap_dhcp := dh, ap_calls := ap_calls s2 @ cs1 @ cs2\<rparr>
          in if store_settings_flag s3
             then (let s4 = clear_store_flag s3 in
               bindO (doneE (write_settings_in_flash dev after (Some (mqtt_settings (ap_settings s4))) fl)) (\<lambda>(st, fl').
                 Inr (Some (True, fl', s4\<lparr>ap_settings := (ap_settings s4)\<lparr>mqtt_settings := the st\<rparr>\<rparr>))))
             else Inr (Some (False, fl, s3))))))"

section \<open>From the form to the flash\<close>

lemma ap_start_ok:
  assumes "ap_init_res env = 0" "snd (dns_sock env) = 0"
  shows "\<exists>dh dn cs. ap_start env auth s = Inr (s\<lparr>ap_dhcp := dh, ap_dns := dn, ap_calls := cs,
    ap_http := (ap_http s)\<lparr>process_post_field_cb := Some process_post_field,
      static_store_settings_flag := Some (store_settings_flag s)\<rparr>\<rparr>)"
proof -
  obtain cs1 dh where "dhcp_server_init (fst (dhcp_sock env)) (snd (dhcp_sock env)) [192, 168, 4, 1] [255, 255, 255, 0] (ap_dhcp s) = Inr (cs1, dh)"
    by (cases "fst (dhcp_sock env)") (auto simp: dhcp_server_init_def dhcp_socket_new_dgram_def dhcp_socket_bind_def ENOMEM_def Let_def)
  moreover obtain cs2 dn where "dns_server_init (fst (dns_sock env)) (snd (dns_sock env)) [192, 168, 4, 1] (ap_dns s) = Inr (cs2, dn)"
    using assms(2)
    by (cases "fst (dns_sock env)") (auto simp: dns_server_init_def dns_socket_new_dgram_def dns_socket_bind_def ENOMEM_def assertE_def Let_def)
  ultimately show ?thesis using assms
    by (intro exI [of _ dh] exI [of _ dn] exI [of _ "ap_calls s @ cs1 @ cs2"])
      (simp add: ap_start_def setup_ap_def my_httpd_run_def)
qed

lemma store_settings_flag_frame [simp]:
  "store_settings_flag (s\<lparr>ap_queue := q\<rparr>) = store_settings_flag s" "store_settings_flag (s\<lparr>ap_table := t\<rparr>) = store_settings_flag s"
  by (simp_all add: store_settings_flag_def)

text \<open>Rounds in which only the sensor core does something. The queue and the table go with them: what is in the queue can be
  drained within the bound into the table.\<close>

fun sensor_text :: "ap_event \<Rightarrow> bool" where
  "sensor_text (Sensor_Text str i) \<longleftrightarrow> length str = 128 \<and> 0 \<in> set str \<and> unat i < NUMBER_OF_SENSOR_TOPICS"
| "sensor_text e \<longleftrightarrow> False"

definition drainable :: "('q \<Rightarrow> queue_entry_t list) \<Rightarrow> nat \<Rightarrow> 'q \<Rightarrow> queue_entry_t list \<Rightarrow> bool" where
  "drainable contents k q t \<longleftrightarrow> length (contents q) < k \<and> (\<forall>e \<in> set (contents q). unat (topic_index e) < length t)"

lemma length_store_entries: "length (store_entries es t) = length t"
  unfolding store_entries_def by (induction es arbitrary: t) simp_all

lemma drain_round:
  assumes "data_queue ops contents room" "drainable contents k q t"
  shows "\<exists>q' t'. drain_queue ops k (q, t) = Inr (Some (q', t')) \<and> contents q' = [] \<and> length t' = length t"
  using data_queue.drain_contents [OF assms(1), of q t k] assms(2) length_store_entries by (fastforce simp: drainable_def)

lemma serve_text:
  assumes "data_queue ops contents room" "drainable contents k (ap_queue s) (ap_table s)" "sensor_text e"
    and "room < k" "length (ap_table s) = NUMBER_OF_SENSOR_TOPICS"
  shows "\<exists>q. ap_serve ops e s = Inr (s\<lparr>ap_queue := q\<rparr>) \<and> drainable contents k q (ap_table s)"
proof -
  obtain str i where e: "e = Sensor_Text str i" "length str = 128" "0 \<in> set str" "unat i < length (ap_table s)"
    using assms(3,5) by (cases e) auto
  obtain u where u: "c_str str = Inr u" using e(3) by (auto simp: c_str_def)
  show ?thesis
  proof (cases "length (contents (ap_queue s)) < room")
    case True
    from data_queue.pass_adds [OF assms(1) e(2) u True, of i] obtain q d where
      q: "pass_sensor_data_to_queue ops str 128 i (ap_queue s) = Inr (Some q)"
      "contents q = contents (ap_queue s) @ [\<lparr> topic_index = i, entry_data = d \<rparr>]" by blast
    have "drainable contents k q (ap_table s)" using q(2) assms(2,4) e(4) True by (auto simp: drainable_def)
    with q(1) e(1) show ?thesis by (intro exI [of _ q]) simp
  next
    case False
    with data_queue.pass_blocks [OF assms(1) e(2) u, of "ap_queue s" i] assms(2) e(1) show ?thesis
      by (intro exI [of _ "ap_queue s"]) simp
  qed
qed

lemma serve_texts:
  assumes "data_queue ops contents room" "drainable contents k (ap_queue s) (ap_table s)" "list_all sensor_text evs"
    and "evs = [] \<or> room < k \<and> length (ap_table s) = NUMBER_OF_SENSOR_TOPICS"
  shows "\<exists>q. ap_serve_all ops evs s = Inr (s\<lparr>ap_queue := q\<rparr>) \<and> drainable contents k q (ap_table s)"
  using assms(2-)
proof (induction evs arbitrary: s)
  case Nil
  then show ?case by (intro exI [of _ "ap_queue s"]) simp
next
  case (Cons e evs)
  from serve_text [OF assms(1) Cons.prems(1)] Cons.prems(2,3) obtain q where
    q: "ap_serve ops e s = Inr (s\<lparr>ap_queue := q\<rparr>)" "drainable contents k q (ap_table s)" by auto
  with Cons.IH [of "s\<lparr>ap_queue := q\<rparr>"] Cons.prems(2,3) show ?case by auto
qed

text \<open>A round drains the queue and goes on to the flag.\<close>

lemma ap_loop_round:
  assumes "data_queue ops contents room" "drainable contents k (ap_queue s) (ap_table s)"
  shows "\<exists>q t. contents q = [] \<and> length t = length (ap_table s) \<and> drain_queue ops k (ap_queue s, ap_table s) = Inr (Some (q, t)) \<and>
    drainable contents k q t"
  using drain_round [OF assms] assms(2) by (fastforce simp: drainable_def)

lemma ap_loop_idle:
  assumes "data_queue ops contents room" "drainable contents k (ap_queue s) (ap_table s)" "\<not> store_settings_flag s"
    and "list_all sensor_text (concat idle)"
    and "concat idle = [] \<or> room < k \<and> length (ap_table s) = NUMBER_OF_SENSOR_TOPICS"
  shows "\<exists>q t. ap_loop ops k (idle @ rounds) s = ap_loop ops k rounds (s\<lparr>ap_queue := q, ap_table := t\<rparr>) \<and>
    drainable contents k q t"
  using assms(2-)
proof (induction idle arbitrary: s)
  case Nil
  then show ?case by (intro exI [of _ "ap_queue s"] exI [of _ "ap_table s"]) simp
next
  case (Cons evs idle)
  from ap_loop_round [OF assms(1) Cons.prems(1)] obtain q t where
    d: "length t = length (ap_table s)" "drain_queue ops k (ap_queue s, ap_table s) = Inr (Some (q, t))" "drainable contents k q t" by blast
  let ?s = "s\<lparr>ap_queue := q, ap_table := t\<rparr>"
  from serve_texts [OF assms(1), of k ?s evs] d(1,3) Cons.prems(3,4) obtain q2 where
    q2: "ap_serve_all ops evs ?s = Inr (?s\<lparr>ap_queue := q2\<rparr>)" "drainable contents k q2 t" by auto
  from Cons.IH [of "?s\<lparr>ap_queue := q2\<rparr>"] q2(2) Cons.prems(2-4) d(1) obtain q3 t3 where
    "ap_loop ops k (idle @ rounds) (?s\<lparr>ap_queue := q2\<rparr>) = ap_loop ops k rounds (s\<lparr>ap_queue := q3, ap_table := t3\<rparr>)"
    "drainable contents k q3 t3" by auto
  with d(2) q2(1) Cons.prems(2) show ?case by (intro exI [of _ q3] exI [of _ t3]) (simp add: Let_def)
qed

text \<open>A settings form works from the browser to the flash. After any rounds in which at most the sensor core put in texts, one posted form
  whose pairs change something makes the access point leave its loop in the round after it, write
  the flash and ask for a restart; what the next boot then loads has status 0 and exactly the
  strings the pairs of the form give, and the old ones for the fields it does not name.\<close>

lemma form_reaches_flash:
  fixes contents :: "'q \<Rightarrow> queue_entry_t list"
  assumes "data_queue ops contents room" "contents (ap_queue s) = []" "0 < k"
    and "list_all sensor_text (concat idle)" "concat idle = [] \<or> room < k \<and> length (ap_table s) = NUMBER_OF_SENSOR_TOPICS"
    and "copy_ok env" "ap_init_res env = 0 \<and> snd (dns_sock env) = 0" "ap_http s = http_control_boot" "state_wf (ap_settings s)"
    and "unat ulen \<le> length uri" "0 \<notin> set (concat cs)" "length (concat cs) < MAX_POST_DATA_LEN" "n \<le> int MAX_POST_DATA_LEN"
    and "v = fold (\<lambda>(k, v). update_field k (firmware_value v)) (form_pairs (concat cs)) (settings_view (ap_settings s))" "snd v"
    and "flash_dev_ok dev" "212 \<le> length after"
  shows "\<exists>fl' s' st. httpd_ap_mode env auth ops k (idle @ [Web_Post n cs uri ulen] # evs # rounds) dev after fl s =
      Inr (Some (True, fl', s')) \<and>
    read_settings_from_flash fl' (Some any) = (0, Some st) \<and>
    fst (settings_view (\<lparr> mqtt_settings = st, settings_changed = ch \<rparr>)) = fst v"
proof -
  note data = assms(1)
  obtain dh dn calls where start: "ap_start env auth s = Inr (s\<lparr>ap_dhcp := dh, ap_dns := dn, ap_calls := calls,
    ap_http := (ap_http s)\<lparr>process_post_field_cb := Some process_post_field,
      static_store_settings_flag := Some (store_settings_flag s)\<rparr>\<rparr>)"
    using ap_start_ok [of env auth s] assms(7) by blast
  define s1 where "s1 = s\<lparr>ap_dhcp := dh, ap_dns := dn, ap_calls := calls,
    ap_http := (ap_http s)\<lparr>process_post_field_cb := Some process_post_field,
      static_store_settings_flag := Some (store_settings_flag s)\<rparr>\<rparr>"
  have s1: "post_clean (ap_http s1)" "process_post_field_cb (ap_http s1) = Some process_post_field"
    "static_store_settings_flag (ap_http s1) = Some False" "drainable contents k (ap_queue s1) (ap_table s1)" "\<not> store_settings_flag s1"
    "ap_settings s1 = ap_settings s" "ap_table s1 = ap_table s"
    using assms(2,3,8) by (simp_all add: s1_def post_clean_def http_control_boot_def store_settings_flag_def drainable_def)
  from settings_form.post_refines [OF s1(1-3) assms(10-13,9)] obtain st h where
    post: "post_request n cs uri ulen (ap_settings s, ap_http s1) = Inr (ERR_OK, st, h)"
    "static_store_settings_flag h = Some True" "state_wf st" "settings_view st = v" by (auto simp: assms(14))
  from ap_loop_idle [OF data s1(4,5) assms(4), of "[Web_Post n cs uri ulen] # evs # rounds"] assms(5) s1(7) obtain q t where
    idle: "ap_loop ops k (idle @ [Web_Post n cs uri ulen] # evs # rounds) s1 =
      ap_loop ops k ([Web_Post n cs uri ulen] # evs # rounds) (s1\<lparr>ap_queue := q, ap_table := t\<rparr>)" "drainable contents k q t" by auto
  from ap_loop_round [OF data, of k "s1\<lparr>ap_queue := q, ap_table := t\<rparr>"] idle(2) obtain q1 t1 where
    d1: "drain_queue ops k (q, t) = Inr (Some (q1, t1))" "drainable contents k q1 t1" by auto
  from ap_loop_round [OF data, of k "s1\<lparr>ap_queue := q1, ap_table := t1\<rparr>"] d1(2) obtain q2 t2 where
    d2: "drain_queue ops k (q1, t1) = Inr (Some (q2, t2))" by auto
  define s2 where "s2 = s1\<lparr>ap_queue := q2, ap_table := t2, ap_settings := st, ap_http := h\<rparr>"
  have s2: "store_settings_flag s2" "settings_changed (ap_settings s2)" "ap_settings s2 = st"
    using post(2,4) assms(15) by (auto simp: s2_def store_settings_flag_def settings_view_def)
  have "ap_serve_all ops [Web_Post n cs uri ulen] (s1\<lparr>ap_queue := q1, ap_table := t1\<rparr>) =
      Inr (s1\<lparr>ap_queue := q1, ap_table := t1, ap_settings := st, ap_http := h\<rparr>)" using post(1) s1(6) by simp
  with idle(1) d1(1) d2 s1(5) s2(1,2)
  have loop: "ap_loop ops k (idle @ [Web_Post n cs uri ulen] # evs # rounds) s1 = Inr (Some s2)"
    by (simp add: Let_def store_settings_flag_def s2_def del: ap_serve_all.simps)
  obtain st' fl' where w: "write_settings_in_flash dev after (Some (mqtt_settings st)) fl = Inr (Some st', fl')"
    "read_settings_from_flash fl' (Some any) = (0, Some st')"
    "fst (settings_view (st\<lparr>mqtt_settings := st'\<rparr>)) = fst (settings_view st)"
    using settings_stored [OF assms(16) post(3) assms(17), of fl any] by blast
  have "\<exists>s'. httpd_ap_mode env auth ops k (idle @ [Web_Post n cs uri ulen] # evs # rounds) dev after fl s =
      Inr (Some (True, fl', s'))"
    using assms(6) start [folded s1_def] loop s2(1,3) w(1)
    by (auto simp: httpd_ap_mode_def case_prod_beta Let_def store_settings_flag_def clear_store_flag_def)
  moreover have "fst (settings_view (\<lparr> mqtt_settings = st', settings_changed = ch \<rparr>)) = fst v"
    using w(3) post(4) by (auto simp: settings_view_def cong: if_cong)
  ultimately show ?thesis using w(2) by blast
qed

end
