(* ===== verification/Station.thy ===== *)
theory Station
  imports Sensor_Queue Wifi_Arch
begin

text \<open>
  \<open>mqtt_sta_mode\<close> of \<open>src/main.c\<close>: the device as a station that publishes its readings every three
  seconds and carries out the commands it receives.

  While the loop sleeps, the network stack and the alarm call back; the argument lists, per round,
  the clock, what the allocator and the library answer, and the callbacks. The loop does not
  return: the result is its state when the list ends.
\<close>

section \<open>Model\<close>

record 'q sta_state =
  st_queue :: 'q
  st_table :: "queue_entry_t list"
  st_control :: control_state
  st_client :: "MQTT_CLIENT_T option"
  st_heap :: heap
  st_timeout :: nat                \<comment> \<open>microseconds since boot\<close>
  st_calls :: "mqtt_call list"

definition nil_time :: nat where "nil_time = 0"

record tick_env =
  now :: nat
  later :: nat                     \<comment> \<open>the clock when the next deadline is made\<close>
  pub_env :: "nat \<Rightarrow> (bool \<times> bool \<times> bool) \<times> err_t"
  full_topic_mem :: bytes          \<comment> \<open>the uninitialised array on the stack\<close>

definition sta_tick :: "'q queue_ops \<Rightarrow> nat \<Rightarrow> tick_env \<Rightarrow> 'q sta_state \<Rightarrow> 'q sta_state run" where
  "sta_tick ops k e s =
    bindO (drain_queue ops k (st_queue s, st_table s)) (\<lambda>(q, t).
      (let s1 = s\<lparr>st_queue := q, st_table := t\<rparr> in
       if st_timeout s1 = nil_time \<or> int (st_timeout s1) - int (now e) \<le> 0
       then (case st_client s1 of
               None \<Rightarrow> Inl Null_Deref
             | Some state \<Rightarrow>
                 if is_connected state
                 then bindO (doneE (publish_topic_data (pub_env e) (full_topic_mem e) state t
                              (current_control_state (st_control s1)) (st_heap s1))) (\<lambda>(_, cs, h).
                        Inr (Some (s1\<lparr>st_heap := h, st_calls := st_calls s1 @ cs, st_timeout := later e + 3000 * 1000\<rparr>)))
                 else Inr (Some s1))
       else Inr (Some s1)))"

datatype sta_event =
    Mqtt_Status err_t mqtt_connection_status_t
  | Mqtt_Message bytes "bytes list" int
  | Mqtt_Sub_Ack nat err_t
  | Mqtt_Pub_Ack addr err_t
  | Water_Alarm int int

text \<open>The callbacks of the client are registered with the client object.\<close>

fun sta_serve :: "sta_event \<Rightarrow> 'q sta_state \<Rightarrow> 'q sta_state ub" where
  "sta_serve (Mqtt_Status err status) s =
    (case st_client s of
       None \<Rightarrow> Inl Null_Deref
     | Some c \<Rightarrow> bindE (tls_mqtt_connection_cb err status c) (\<lambda>(c', cs).
         Inr (s\<lparr>st_client := Some c', st_calls := st_calls s @ cs\<rparr>)))"
| "sta_serve (Mqtt_Message topic portions aid) s =
    (case st_client s of
       None \<Rightarrow> Inl Null_Deref
     | Some c \<Rightarrow> bindE (mqtt_receive (server_command_handler aid) topic portions (st_control s, c)) (\<lambda>(ctl, c').
         Inr (s\<lparr>st_client := Some c', st_control := ctl\<rparr>)))"
| "sta_serve (Mqtt_Sub_Ack i err) s =
    (case st_client s of
       None \<Rightarrow> Inl Null_Deref
     | Some c \<Rightarrow>
        bindE (buf_get (topics_states c) i) (\<lambda>session.
        bindE (tls_mqtt_subscribe_request_cb True session err) (\<lambda>(session', cs).
          Inr (s\<lparr>st_client := Some (c\<lparr>topics_states := (topics_states c)[i := session']\<rparr>), st_calls := st_calls s @ cs\<rparr>))))"
| "sta_serve (Mqtt_Pub_Ack a err) s =
    bindE (tls_mqtt_pub_request_cb (Some a) err (st_heap s)) (\<lambda>h. Inr (s\<lparr>st_heap := h\<rparr>))"
| "sta_serve (Water_Alarm new_id aid) s =
    bindE (water_alarm_callback new_id aid (st_control s)) (\<lambda>(_, ctl). Inr (s\<lparr>st_control := ctl\<rparr>))"

fun sta_serve_all :: "sta_event list \<Rightarrow> 'q sta_state \<Rightarrow> 'q sta_state ub" where
  "sta_serve_all [] s = Inr s"
| "sta_serve_all (e # es) s = bindE (sta_serve e s) (sta_serve_all es)"

fun sta_loop :: "'q queue_ops \<Rightarrow> nat \<Rightarrow> (tick_env \<times> sta_event list) list \<Rightarrow> 'q sta_state \<Rightarrow> 'q sta_state run" where
  "sta_loop ops k [] s = Inr (Some s)"
| "sta_loop ops k ((e, evs) # rounds) s =
    bindO (sta_tick ops k e s) (\<lambda>s1. bindO (doneE (sta_serve_all evs s1)) (sta_loop ops k rounds))"

text \<open>What comes before the loop. The result of \<open>setup_sta\<close> is not looked at; the client works on the
  static settings object.\<close>

record sta_env =
  link_up_code :: int
  wifi :: wifi_env
  client_env :: init_env
  connect_err :: err_t

definition sta_start :: "sta_env \<Rightarrow> u32 \<Rightarrow> tls_mqtt_settings \<Rightarrow> 'q sta_state \<Rightarrow> 'q sta_state run" where
  "sta_start env auth st s =
    bindO (setup_sta (link_up_code env) (wifi env) (wifi_ssid st) (wifi_pass st) auth (Some (tls_mqtt_client_id st)) None None None) (\<lambda>_.
    bindO (tls_mqtt_init (client_env env) Static st None topics_sessions (st_heap s)) (\<lambda>r.
      (let s1 = s\<lparr>st_client := map_option snd (i_client r), st_heap := i_heap r, st_calls := st_calls s @ i_calls r,
                  st_timeout := nil_time\<rparr>
       in if i_ret r = TLS_MQTT_OK
          then (case st_client s1 of
                  None \<Rightarrow> Inl Null_Deref
                | Some c \<Rightarrow> bindO (doneE (tls_mqtt_connect (connect_err env) c)) (\<lambda>(_, c', cs).
                    Inr (Some (s1\<lparr>st_client := Some c', st_calls := st_calls s1 @ cs\<rparr>))))
          else Inr (Some s1))))"

definition mqtt_sta_mode ::
  "sta_env \<Rightarrow> u32 \<Rightarrow> 'q queue_ops \<Rightarrow> nat \<Rightarrow> (tick_env \<times> sta_event list) list \<Rightarrow> tls_mqtt_settings \<Rightarrow> 'q sta_state \<Rightarrow>
     'q sta_state run" where
  "mqtt_sta_mode env auth ops k rounds st s = bindO (sta_start env auth st s) (sta_loop ops k rounds)"

end
