(* ===== verification/Station_Safe.thy ===== *)
theory Station_Safe
  imports Station
begin

text \<open>
  The station never fails: an invariant of its whole state, kept by every round of the loop, every
  callback of the network stack, the alarm, and the sensor core that fills the queue.
\<close>

section \<open>Memory of outgoing messages\<close>

fun publish_args :: "mqtt_call list \<Rightarrow> addr list" where
  "publish_args [] = []"
| "publish_args (Mqtt_Publish tp pl n qos retain arg # cs) = arg # publish_args cs"
| "publish_args (c # cs) = publish_args cs"

lemma publish_args_append [simp]: "publish_args (as @ bs) = publish_args as @ publish_args bs"
  by (induction as rule: publish_args.induct) auto

text \<open>A message and its two strings, allocated one after the other.\<close>

definition live :: "heap \<Rightarrow> addr \<Rightarrow> bool" where
  "live h a \<longleftrightarrow> (\<exists>n. cells h a = Some (Message \<lparr> m_topic = Some (a + 1), m_payload = Some (a + 2), m_payload_length = n \<rparr>)) \<and>
     cells h (a + 1) \<noteq> None \<and> cells h (a + 2) \<noteq> None \<and> a + 2 < brk h"

definition grows :: "heap \<Rightarrow> heap \<Rightarrow> bool" where
  "grows h h' \<longleftrightarrow> brk h \<le> brk h' \<and> (\<forall>a < brk h. cells h' a = cells h a)"

lemma grows_refl [simp]: "grows h h"
  by (simp add: grows_def)

lemma grows_trans: "grows a b \<Longrightarrow> grows b c \<Longrightarrow> grows a c"
  by (auto simp: grows_def)

lemma live_grows: "live h a \<Longrightarrow> grows h h' \<Longrightarrow> live h' a"
  by (auto simp: live_def grows_def)

text \<open>Whatever the allocator and the library answer, a publish does not fail; the request it may
  have made is live.\<close>

lemma publish_any:
  assumes "c_str tp = Inr s" "length s < 65535" "unat n \<le> length pl"
  shows "\<exists>err cs h'. tls_mqtt_publish oks perr c (Some tp) (Some pl) n qos h = Inr (err, cs, h') \<and> grows h h' \<and>
    (publish_args cs = [] \<or> publish_args cs = [brk h] \<and> live h' (brk h))"
proof -
  obtain ok1 ok2 ok3 where oks: "oks = (ok1, ok2, ok3)" by (cases oks)
  have u: "unat (of_nat (length s) :: u16) = length s" using assms(2) by (simp add: unat_of_nat)
  show ?thesis unfolding oks
    by (cases "is_connected c"; cases "n = 0"; cases ok1; cases ok2; cases ok3)
      (simp_all add: tls_mqtt_publish_def malloc_def Let_def u assms memcpy_ok clean_message_def store_def grows_def live_def)
qed

definition requests_ok :: "heap \<Rightarrow> addr list \<Rightarrow> bool" where
  "requests_ok h rs \<longleftrightarrow> sorted_wrt (\<lambda>a b. a + 2 < b) rs \<and> (\<forall>a \<in> set rs. live h a)"

lemma requests_ok_more:
  assumes "requests_ok h rs" "grows h h'" "requests_ok h' new" "\<forall>a \<in> set new. brk h \<le> a"
  shows "requests_ok h' (rs @ new)"
proof -
  have "a + 2 < b" if "a \<in> set rs" "b \<in> set new" for a b
    using that assms(1,4) by (fastforce simp: requests_ok_def live_def)
  then show ?thesis using assms live_grows by (auto simp: requests_ok_def sorted_wrt_append)
qed

lemma requests_ok_filter: "requests_ok h rs \<Longrightarrow> requests_ok h (filter P rs)"
  by (auto simp: requests_ok_def intro: sorted_wrt_filter)

lemma publish_loop_any:
  assumes "c_str (tls_mqtt_client_id (settings state)) = Inr cid" "length cid \<le> 99"
    and "list_all (\<lambda>(nb, db). \<exists>nm t. c_str nb = Inr nm \<and> c_str db = Inr t \<and> length nm \<le> 7 \<and> length db \<le> 128) items"
    and "length full_topic = 108"
  shows "\<exists>err cs ft h'. publish_loop env state items n full_topic h = Inr (err, cs, ft, h') \<and> length ft = 108 \<and>
    grows h h' \<and> requests_ok h' (publish_args cs) \<and> (\<forall>a \<in> set (publish_args cs). brk h \<le> a)"
  using assms(3,4)
proof (induction items arbitrary: n full_topic h)
  case Nil
  then show ?case by (simp add: requests_ok_def)
next
  case (Cons item items)
  obtain nb db nm t where item: "item = (nb, db)" and c: "c_str nb = Inr nm" "c_str db = Inr t" "length nm \<le> 7" "length db \<le> 128"
    using Cons.prems(1) by auto
  from sprintf_topic_ok [OF assms(1) c(1), of full_topic] assms(2) c(3) Cons.prems(2) obtain ft where
    ft: "sprintf_topic full_topic (tls_mqtt_client_id (settings state)) nb = Inr ft" "length ft = 108"
    "c_str ft = Inr (cid @ 47 # nm)" by auto
  have l: "length t < length db" by (rule c_str_length_less [OF c(2)])
  then have "unat (of_nat (length t) :: u16) \<le> length db" using c(4) by (simp add: unat_of_nat)
  from publish_any [OF ft(3) _ this, of "fst (env n)" "snd (env n)" state QOS h] assms(2) c(3) obtain err cs h1 where
    p: "tls_mqtt_publish (fst (env n)) (snd (env n)) state (Some ft) (Some db) (of_nat (length t)) QOS h = Inr (err, cs, h1)"
    "grows h h1" "publish_args cs = [] \<or> publish_args cs = [brk h] \<and> live h1 (brk h)" by auto
  have cs: "requests_ok h1 (publish_args cs)" "\<forall>a \<in> set (publish_args cs). brk h \<le> a" using p(3) by (auto simp: requests_ok_def)
  have st: "publish_loop env state (item # items) n full_topic h = (if err \<noteq> ERR_OK then Inr (err, cs, ft, h1)
      else bindE (publish_loop env state items (Suc n) ft h1) (\<lambda>(err', cs', topic', h2). Inr (err', cs @ cs', topic', h2)))"
    using ft(1) c(2) p(1) item by (simp add: strlen_def)
  obtain err' cs' ft' h2 where r: "publish_loop env state items (Suc n) ft h1 = Inr (err', cs', ft', h2)" "length ft' = 108"
    "grows h1 h2" "requests_ok h2 (publish_args cs')" "\<forall>a \<in> set (publish_args cs'). brk h1 \<le> a"
    using Cons.IH [OF _ ft(2), of "Suc n" h1] Cons.prems(1) by auto
  have "requests_ok h2 (publish_args cs @ publish_args cs')" by (rule requests_ok_more [OF cs(1) r(3-5)])
  moreover have "brk h \<le> brk h1" using p(2) by (simp add: grows_def)
  ultimately show ?case using st p(2) cs r ft(2) by (auto intro: grows_trans dest: order_trans)
qed

lemma clean_live:
  assumes "live h a"
  shows "\<exists>h'. clean_message (Some a) h = Inr h' \<and> brk h' = brk h \<and> (\<forall>b. b < a \<or> a + 2 < b \<longrightarrow> cells h' b = cells h b)"
  using assms by (auto simp: live_def clean_message_def)

lemma requests_ok_ack:
  assumes "requests_ok h rs" "a \<in> set rs" "brk h' = brk h" "\<forall>b. b < a \<or> a + 2 < b \<longrightarrow> cells h' b = cells h b"
  shows "requests_ok h' (removeAll a rs)"
proof -
  have "live h' b" if "b \<in> set rs" "b \<noteq> a" for b
  proof -
    have "b + 2 < a \<or> a + 2 < b"
      using assms(1,2) that by (auto simp: requests_ok_def sorted_wrt_iff_nth_less in_set_conv_nth) (metis nat_neq_iff)
    moreover have "live h b" using assms(1) that by (simp add: requests_ok_def)
    ultimately show ?thesis using assms(3,4) by (auto simp: live_def)
  qed
  then show ?thesis using assms(1) by (auto simp: requests_ok_def removeAll_filter_not_eq intro: sorted_wrt_filter)
qed

section \<open>The invariant\<close>

definition text_ok :: "queue_entry_t \<Rightarrow> bool" where
  "text_ok e \<longleftrightarrow> length (entry_data e) = 128 \<and> 0 \<in> set (entry_data e)"

definition table_ok :: "queue_entry_t list \<Rightarrow> bool" where
  "table_ok t \<longleftrightarrow> length t = 4 \<and> (\<forall>e \<in> set t. text_ok e)"

definition client_ok :: "MQTT_CLIENT_T \<Rightarrow> bool" where
  "client_ok c \<longleftrightarrow> mqtt_wf c \<and> settings_ptr c \<noteq> Null \<and> length (tls_mqtt_client_id (settings c)) = 100 \<and>
     0 \<in> set (tls_mqtt_client_id (settings c)) \<and> 0 \<in> set (tls_mqtt_broker_port (settings c))"

definition queue_ok :: "('q \<Rightarrow> queue_entry_t list) \<Rightarrow> nat \<Rightarrow> 'q \<Rightarrow> bool" where
  "queue_ok contents room q \<longleftrightarrow> length (contents q) \<le> room \<and>
     (\<forall>e \<in> set (contents q). unat (topic_index e) < 4 \<and> text_ok e)"

definition sta_inv :: "('q \<Rightarrow> queue_entry_t list) \<Rightarrow> nat \<Rightarrow> 'q sta_state \<times> addr list \<Rightarrow> bool" where
  "sta_inv contents room = (\<lambda>(s, rs). queue_ok contents room (st_queue s) \<and> table_ok (st_table s) \<and> control_inv (st_control s) \<and>
     (\<exists>c. st_client s = Some c \<and> client_ok c) \<and> requests_ok (st_heap s) rs)"

lemma store_entries_ok:
  "table_ok t \<Longrightarrow> \<forall>e \<in> set es. unat (topic_index e) < 4 \<and> text_ok e \<Longrightarrow> table_ok (store_entries es t)"
  unfolding store_entries_def
proof (induction es arbitrary: t)
  case (Cons e es)
  have "table_ok (t[unat (topic_index e) := e])"
    using Cons.prems by (auto simp: table_ok_def dest: set_update_subset_insert [THEN subsetD])
  then show ?case using Cons by simp
qed simp

lemma drain_ok:
  assumes "data_queue ops contents room" "queue_ok contents room q" "table_ok t" "room < k"
  shows "\<exists>q' t'. drain_queue ops k (q, t) = Inr (Some (q', t')) \<and> contents q' = [] \<and> table_ok t'"
proof -
  have "\<forall>e \<in> set (contents q). unat (topic_index e) < length t" "length (contents q) < k"
    using assms(2-4) by (auto simp: queue_ok_def table_ok_def)
  from data_queue.drain_contents [OF assms(1) this] show ?thesis
    using store_entries_ok [OF assms(3)] assms(2) by (auto simp: queue_ok_def)
qed

text \<open>The topics that are published.\<close>

lemma control_texts:
  assumes "control_inv ctl"
  shows "\<exists>t1. map (\<lambda>c. c_str (ct_name c)) (current_control_state ctl) = map Inr [chars ''water'', chars ''light''] \<and>
    map (\<lambda>c. c_str (topic_data c)) (current_control_state ctl) = map Inr [chars (if pump ctl then ''ON'' else ''OFF''), t1] \<and>
    list_all (\<lambda>c. length (topic_data c) = 10) (current_control_state ctl)"
proof -
  have wf: "control_wf ctl" and p: "pump ctl \<longleftrightarrow> text_of 0 ctl = Inr (chars ''ON'')"
    using assms by (simp_all add: control_inv_def shows_pump_def)
  obtain c0 c1 where cc: "current_control_state ctl = [c0, c1]"
    using control_wf_length [OF wf] by (auto simp: length_Suc_conv numeral_2_eq_2)
  have "map ct_name [c0, c1] = map ct_name initial_control_state" using assms cc by (simp add: control_inv_def)
  moreover have "c_str (char_array 8 ''water'') = Inr (chars ''water'')" "c_str (char_array 8 ''light'') = Inr (chars ''light'')"
    by code_simp+
  ultimately have "c_str (ct_name c0) = Inr (chars ''water'')" "c_str (ct_name c1) = Inr (chars ''light'')"
    by (simp_all add: initial_control_state_def)
  moreover have t: "\<forall>i < 2. length (topic_data ([c0, c1] ! i)) = 10 \<and>
      (c_str (topic_data ([c0, c1] ! i)) = Inr (chars ''ON'') \<or> c_str (topic_data ([c0, c1] ! i)) = Inr (chars ''OFF''))"
    using wf cc by (auto simp: control_wf_def)
  have "length (topic_data c0) = 10" "c_str (topic_data c0) = Inr (chars (if pump ctl then ''ON'' else ''OFF''))"
    using t [rule_format, of 0] p cc by auto
  moreover obtain t1 where "length (topic_data c1) = 10" "c_str (topic_data c1) = Inr t1" using t [rule_format, of 1] by auto
  ultimately show ?thesis using cc by auto
qed

lemma topics_publishable:
  assumes "table_ok t" "control_inv ctl"
  defines "good \<equiv> (\<lambda>(nb, db). \<exists>nm x. c_str nb = Inr nm \<and> c_str db = Inr x \<and> length nm \<le> 7 \<and> length db \<le> 128)"
  shows "list_all good (zip sensor_topics (map entry_data t))"
    and "list_all good (map (\<lambda>c. (ct_name c, topic_data c)) (current_control_state ctl))"
proof -
  have n: "\<exists>nm. c_str nb = Inr nm \<and> length nm \<le> 7" if "nb \<in> set sensor_topics" for nb
    using that by (auto simp: sensor_topics_def literal_def zero_in_chars length_chars_eq)
  have d: "\<exists>x. c_str (entry_data e) = Inr x" "length (entry_data e) \<le> 128" if "e \<in> set t" for e
    using that assms(1) by (auto simp: table_ok_def text_ok_def c_str_def)
  show "list_all good (zip sensor_topics (map entry_data t))"
    using n d by (fastforce simp: list_all_iff good_def dest: set_zip_leftD set_zip_rightD)
  obtain t1 where "map (\<lambda>c. c_str (ct_name c)) (current_control_state ctl) = map Inr [chars ''water'', chars ''light'']"
    "map (\<lambda>c. c_str (topic_data c)) (current_control_state ctl) = map Inr [chars (if pump ctl then ''ON'' else ''OFF''), t1]"
    "list_all (\<lambda>c. length (topic_data c) = 10) (current_control_state ctl)" using control_texts [OF assms(2)] by blast
  then show "list_all good (map (\<lambda>c. (ct_name c, topic_data c)) (current_control_state ctl))"
    by (auto simp: good_def map_eq_Cons_conv length_chars_eq)
qed

lemma publish_data_any:
  assumes "client_ok c" "table_ok t" "control_inv ctl" "length mem = 108"
  shows "\<exists>err cs h'. publish_topic_data env mem c t (current_control_state ctl) h = Inr (err, cs, h') \<and> grows h h' \<and>
    requests_ok h' (publish_args cs) \<and> (\<forall>a \<in> set (publish_args cs). brk h \<le> a)"
proof -
  obtain cid where cid: "c_str (tls_mqtt_client_id (settings c)) = Inr cid" using assms(1) by (auto simp: client_ok_def c_str_def)
  then have l: "length cid \<le> 99" using c_str_length_less [OF cid] assms(1) by (simp add: client_ok_def)
  note pl = publish_loop_any [where env = env, OF cid l]
  obtain err cs ft h1 where p1: "publish_loop env c (zip sensor_topics (map entry_data t)) 0 mem h = Inr (err, cs, ft, h1)"
    "length ft = 108" "grows h h1" "requests_ok h1 (publish_args cs)" "\<forall>a \<in> set (publish_args cs). brk h \<le> a"
    using pl [OF topics_publishable(1) [OF assms(2,3)] assms(4), of 0 h] by blast
  obtain err' cs' ft' h2 where p2: "publish_loop env c (map (\<lambda>c. (ct_name c, topic_data c)) (current_control_state ctl)) NUMBER_OF_SENSOR_TOPICS ft h1 =
      Inr (err', cs', ft', h2)" "grows h1 h2" "requests_ok h2 (publish_args cs')" "\<forall>a \<in> set (publish_args cs'). brk h1 \<le> a"
    using pl [OF topics_publishable(2) [OF assms(2,3)] p1(2), of NUMBER_OF_SENSOR_TOPICS h1] by blast
  have "requests_ok h2 (publish_args cs @ publish_args cs')" by (rule requests_ok_more [OF p1(4) p2(2-4)])
  moreover have "brk h \<le> brk h1" using p1(3) by (simp add: grows_def)
  ultimately show ?thesis using p1 p2
    by (auto simp: publish_topic_data_def intro: grows_trans dest: order_trans)
qed

section \<open>The steps\<close>

text \<open>What can happen when. The library acknowledges requests it has accepted and not yet acknowledged;
  it passes topics as strings and payloads in non-empty portions; a new alarm has an identifier other than zero,
  and an alarm that fires is pending.\<close>

fun event_ok :: "sta_event \<Rightarrow> 'q sta_state \<Rightarrow> addr list \<Rightarrow> bool" where
  "event_ok (Mqtt_Status err status) s rs \<longleftrightarrow> True"
| "event_ok (Mqtt_Message topic portions aid) s rs \<longleftrightarrow> 0 \<notin> set topic \<and> length (concat portions) < 2 ^ 32 \<and>
     (portions = [[]] \<or> portions \<noteq> [] \<and> (\<forall>c \<in> set portions. c \<noteq> [])) \<and> aid \<noteq> 0"
| "event_ok (Mqtt_Sub_Ack i err) s rs \<longleftrightarrow> i < TLS_MQTT_NUMBER_OF_TOPICS"
| "event_ok (Mqtt_Pub_Ack a err) s rs \<longleftrightarrow> a \<in> set rs"
| "event_ok (Water_Alarm new_id aid) s rs \<longleftrightarrow> aid \<in> set (pending (st_control s)) \<and> new_id \<noteq> 0"

fun requests_after :: "sta_event \<Rightarrow> addr list \<Rightarrow> addr list" where
  "requests_after (Mqtt_Pub_Ack a err) rs = removeAll a rs"
| "requests_after e rs = rs"

definition new_requests :: "'q sta_state \<Rightarrow> 'q sta_state \<Rightarrow> addr list" where
  "new_requests s s' = publish_args (drop (length (st_calls s)) (st_calls s'))"

text \<open>The two cores and the interrupts, interleaved: the sensor core adds a text to the queue, the network
  core runs one round of its loop, or a callback comes. The second component is the list of the publish requests
  the library holds; of the new ones it accepts any.\<close>

inductive sta_step :: "'q queue_ops \<Rightarrow> nat \<Rightarrow> 'q sta_state \<times> addr list \<Rightarrow> 'q sta_state \<times> addr list \<Rightarrow> bool" for ops k where
  feed: "pass_sensor_data_to_queue ops str 128 i (st_queue s) = Inr (Some q) \<Longrightarrow> unat i < NUMBER_OF_SENSOR_TOPICS \<Longrightarrow>
    length str = 128 \<Longrightarrow> 0 \<in> set str \<Longrightarrow> sta_step ops k (s, rs) (s\<lparr>st_queue := q\<rparr>, rs)"
| tick: "sta_tick ops k e s = Inr (Some s') \<Longrightarrow> length (full_topic_mem e) = 108 \<Longrightarrow>
    sta_step ops k (s, rs) (s', rs @ filter accepted (new_requests s s'))"
| event: "event_ok e s rs \<Longrightarrow> sta_serve e s = Inr s' \<Longrightarrow> sta_step ops k (s, rs) (s', requests_after e rs)"

inductive_cases sta_stepE: "sta_step ops k (s, rs) x"

lemma tick_inv:
  assumes "data_queue ops contents room" "room < k" "sta_inv contents room (s, rs)" "length (full_topic_mem e) = 108"
  shows "\<exists>s'. sta_tick ops k e s = Inr (Some s') \<and> sta_inv contents room (s', rs @ filter accepted (new_requests s s'))"
proof -
  obtain c where i: "queue_ok contents room (st_queue s)" "table_ok (st_table s)" "control_inv (st_control s)" "st_client s = Some c"
    "client_ok c" "requests_ok (st_heap s) rs" using assms(3) by (auto simp: sta_inv_def)
  from drain_ok [OF assms(1) i(1,2) assms(2)] obtain q t where
    d: "drain_queue ops k (st_queue s, st_table s) = Inr (Some (q, t))" "contents q = []" "table_ok t" by blast
  obtain err cs h where p: "publish_topic_data (pub_env e) (full_topic_mem e) c t (current_control_state (st_control s)) (st_heap s) =
      Inr (err, cs, h)" "grows (st_heap s) h" "requests_ok h (publish_args cs)" "\<forall>a \<in> set (publish_args cs). brk (st_heap s) \<le> a"
    using publish_data_any [OF i(5) d(3) i(3) assms(4), of "pub_env e" "st_heap s"] by blast
  have r: "requests_ok h (rs @ filter accepted (publish_args cs))"
    using requests_ok_more [OF i(6) p(2) requests_ok_filter [OF p(3)]] p(4) by auto
  define s1 where "s1 = s\<lparr>st_queue := q, st_table := t\<rparr>"
  define s2 where "s2 = s1\<lparr>st_heap := h, st_calls := st_calls s1 @ cs, st_timeout := later e + 3000 * 1000\<rparr>"
  have q: "queue_ok contents room q" using d(2) by (simp add: queue_ok_def)
  have "sta_tick ops k e s = Inr (Some s1) \<or> sta_tick ops k e s = Inr (Some s2)"
    using d(1) i(4) p(1) by (auto simp: sta_tick_def Let_def s1_def s2_def)
  moreover have "sta_inv contents room (s1, rs @ filter accepted (new_requests s s1))"
    "sta_inv contents room (s2, rs @ filter accepted (new_requests s s2))"
    using i q d(3) r by (simp_all add: sta_inv_def s1_def s2_def new_requests_def)
  ultimately show ?thesis by metis
qed

lemma command_inv:
  assumes "control_inv ctl" "i < 2" "aid \<noteq> 0"
  shows "\<exists>ctl'. server_command_handler aid (of_nat i) d n ctl = Inr ctl' \<and> control_inv ctl'"
  using assms(2) water_command_ok [OF assms(1,3), of d n] light_command_ok [OF assms(1), of aid d n] by (auto simp: less_2)

lemma client_ok_link: "client_ok c \<Longrightarrow> same_link c c' \<Longrightarrow> mqtt_wf c' \<Longrightarrow> client_ok c'"
  by (simp add: client_ok_def same_link_def)

lemma message_inv:
  assumes "control_inv ctl" "client_ok c" "event_ok (Mqtt_Message topic cs aid) s rs"
  shows "\<exists>ctl' c'. mqtt_receive (server_command_handler aid) topic cs (ctl, c) = Inr (ctl', c') \<and> control_inv ctl' \<and> client_ok c'"
proof -
  have wf: "mqtt_wf c" using assms(2) by (simp add: client_ok_def)
  have "\<exists>ctl' c'. mqtt_receive (server_command_handler aid) topic cs (ctl, c) = Inr (ctl', c') \<and> control_inv ctl' \<and> mqtt_wf c'"
  proof (cases "topic \<notin> set topic_strings \<or> 127 < length (concat cs) \<or> cs = [[]]")
    case True
    then show ?thesis using mqtt_receive_other [OF wf, of topic cs "server_command_handler aid" ctl] assms(1,3) by auto
  next
    case False
    then obtain i where i: "i < 2" "topic = topic_strings ! i" by (auto simp: in_set_conv_nth length_topic_strings)
    have cs: "\<forall>c \<in> set cs. c \<noteq> []" "cs \<noteq> []" "length (concat cs) \<le> 127" "aid \<noteq> 0" using False assms(3) by auto
    obtain buf c' where r: "mqtt_receive (server_command_handler aid) topic cs (ctl, c) =
        bindE (server_command_handler aid (of_nat i) buf (of_nat (length (concat cs))) ctl) (\<lambda>app'. Inr (app', c'))" "mqtt_wf c'"
      using mqtt_receive_known [OF wf i(1) cs(1-3), of "server_command_handler aid" ctl] i(2) by blast
    obtain ctl' where "server_command_handler aid (of_nat i) buf (of_nat (length (concat cs))) ctl = Inr ctl'" "control_inv ctl'"
      using command_inv [OF assms(1) i(1) cs(4)] by blast
    with r show ?thesis by simp
  qed
  then obtain ctl' c' where r: "mqtt_receive (server_command_handler aid) topic cs (ctl, c) = Inr (ctl', c')" "control_inv ctl'" "mqtt_wf c'"
    by blast
  from client_ok_link [OF assms(2) mqtt_receive_link [OF r(1)] r(3)] r show ?thesis by blast
qed

lemma connect_inv: "client_ok c \<Longrightarrow> \<exists>ret c' cs. tls_mqtt_connect err c = Inr (ret, c', cs) \<and> client_ok c'"
  by (auto simp: client_ok_def tls_mqtt_connect_def Let_def c_str_def mqtt_wf_def)

lemma connection_inv:
  assumes "client_ok c"
  shows "\<exists>c' cs. tls_mqtt_connection_cb err status c = Inr (c', cs) \<and> client_ok c'"
proof -
  have k: "client_ok (c\<lparr>is_connected := b\<rparr>)" for b using assms by (simp add: client_ok_def mqtt_wf_def)
  from connect_inv [OF k [of False], of err] obtain ret c' cs where
    "tls_mqtt_connect err (c\<lparr>is_connected := False\<rparr>) = Inr (ret, c', cs)" "client_ok c'" by blast
  then show ?thesis using k by (cases status) (auto simp: tls_mqtt_connection_cb_def Let_def)
qed

lemma sub_ack_inv:
  assumes "client_ok c" "i < 2"
  shows "\<exists>t cs. tls_mqtt_subscribe_request_cb True (topics_states c ! i) err = Inr (t, cs) \<and>
    client_ok (c\<lparr>topics_states := (topics_states c)[i := t]\<rparr>)"
proof -
  have wf: "mqtt_wf c" using assms(1) by (simp add: client_ok_def)
  let ?t = "topics_states c ! i"
  have t: "session_ok ?t" "topic_name ?t = topics ! i" "topic_number ?t = of_nat i" using wf assms(2) by (auto simp: mqtt_wf_def)
  have "mqtt_wf (c\<lparr>topics_states := (topics_states c)[i := t]\<rparr>)" if "t = ?t \<or> t = ?t\<lparr>is_subscribed := \<not> is_subscribed ?t\<rparr>" for t
    using that t by (intro mqtt_wf_update [OF wf assms(2)]) (auto simp: session_ok_def)
  then show ?thesis using assms(1) by (auto simp: tls_mqtt_subscribe_request_cb_def client_ok_def)
qed

lemma event_inv:
  assumes "sta_inv contents room (s, rs)" "event_ok e s rs"
  shows "\<exists>s'. sta_serve e s = Inr s' \<and> sta_inv contents room (s', requests_after e rs)"
proof -
  obtain c where i: "queue_ok contents room (st_queue s)" "table_ok (st_table s)" "control_inv (st_control s)" "st_client s = Some c"
    "client_ok c" "requests_ok (st_heap s) rs" using assms(1) by (auto simp: sta_inv_def)
  show ?thesis
  proof (cases e)
    case (Mqtt_Status err status)
    then show ?thesis using connection_inv [OF i(5), of err status] i by (auto simp: sta_inv_def)
  next
    case (Mqtt_Message topic cs aid)
    then show ?thesis using message_inv [OF i(3,5), of topic cs aid s rs] assms(2) i by (auto simp: sta_inv_def)
  next
    case (Mqtt_Sub_Ack j err)
    then have "j < 2" "j < length (topics_states c)" using assms(2) i(5) by (auto simp: client_ok_def mqtt_wf_def)
    then show ?thesis using sub_ack_inv [OF i(5), of j err] i Mqtt_Sub_Ack by (auto simp: sta_inv_def)
  next
    case (Mqtt_Pub_Ack a err)
    then have a: "a \<in> set rs" "live (st_heap s) a" using assms(2) i(6) by (auto simp: requests_ok_def)
    obtain h where "clean_message (Some a) (st_heap s) = Inr h" "requests_ok h (removeAll a rs)"
      using clean_live [OF a(2)] requests_ok_ack [OF i(6) a(1)] by blast
    then show ?thesis using i Mqtt_Pub_Ack by (simp add: sta_inv_def tls_mqtt_pub_request_cb_def)
  next
    case (Water_Alarm new_id aid)
    then show ?thesis using alarm_callback_inv [OF i(3), of aid new_id] assms(2) i by (auto simp: sta_inv_def)
  qed
qed

lemma feed_inv:
  assumes "data_queue ops contents room" "queue_ok contents room q" "pass_sensor_data_to_queue ops str 128 i q = Inr (Some q')"
    and "unat i < 4" "length str = 128" "0 \<in> set str"
  shows "queue_ok contents room q'"
proof -
  have room: "length (contents q) < room"
  proof (rule ccontr)
    assume "\<not> length (contents q) < room"
    then have "queue_add ops e q = None" for e using data_queue.add_full [OF assms(1), of q e] by simp
    with assms(3) show False by (auto simp: pass_sensor_data_to_queue_def bindO_eq_Some)
  qed
  obtain x where x: "c_str str = Inr x" using assms(6) by (auto simp: c_str_def)
  from data_queue.pass_adds [OF assms(1,5) x room, of i] assms(3) obtain d where
    "contents q' = contents q @ [\<lparr> topic_index = i, entry_data = d \<rparr>]" "length d = 128" "c_str d = Inr x" by auto
  moreover from this(3) have "0 \<in> set d" by (simp add: c_str_Inr_iff)
  ultimately show ?thesis using assms(2,4) room by (auto simp: queue_ok_def text_ok_def)
qed

lemma sta_step_inv:
  assumes "data_queue ops contents room" "room < k" "sta_step ops k x y" "sta_inv contents room x"
  shows "sta_inv contents room y"
  using assms(3,4)
proof (cases rule: sta_step.cases)
  case (feed str i s q rs)
  then show ?thesis using assms(4) feed_inv [OF assms(1), of "st_queue s" str i q]
    by (auto simp: sta_inv_def NUMBER_OF_SENSOR_TOPICS_def sensor_topics_def)
next
  case (tick e s s' rs accepted)
  then show ?thesis using assms(4) tick_inv [OF assms(1,2), of s rs e accepted] by auto
next
  case (event e s rs s')
  then show ?thesis using assms(4) event_inv [of contents room s rs e] by auto
qed

lemma sta_steps_inv:
  assumes "data_queue ops contents room" "room < k" "(sta_step ops k)\<^sup>*\<^sup>* x y" "sta_inv contents room x"
  shows "sta_inv contents room y"
  using assms(3,4) by (induction rule: rtranclp_induct) (auto intro: sta_step_inv [OF assms(1,2)])

section \<open>From the start\<close>

text \<open>The settings the station can work with.\<close>

definition usable_settings :: "tls_mqtt_settings \<Rightarrow> bool" where
  "usable_settings st \<longleftrightarrow> length (tls_mqtt_client_id st) = 100 \<and> 0 \<in> set (tls_mqtt_client_id st) \<and> 0 \<in> set (tls_mqtt_broker_port st)"

text \<open>The wireless setup returns, the name is resolved, and memory is available.\<close>

definition network_up :: "sta_env \<Rightarrow> u32 \<Rightarrow> tls_mqtt_settings \<Rightarrow> bool" where
  "network_up env auth st \<longleftrightarrow>
     (\<exists>r. setup_sta (link_up_code env) (wifi env) (wifi_ssid st) (wifi_pass st) auth (Some (tls_mqtt_client_id st)) None None None = Inr (Some r)) \<and>
     (\<exists>a. lookup_gives (client_env env) a) \<and> ok_client (client_env env) \<and> new_client (client_env env) \<noteq> None \<and> ok_ci (client_env env)"

definition sta_boot :: "'q \<Rightarrow> heap \<Rightarrow> 'q sta_state" where
  "sta_boot q h = \<lparr> st_queue = q, st_table = initial_sensor_data, st_control = control_boot, st_client = None, st_heap = h,
     st_timeout = nil_time, st_calls = [] \<rparr>"

lemma sessions_wf: "topics_states c = topics_sessions \<Longrightarrow> mqtt_wf c"
  by (auto simp: mqtt_wf_def topics_sessions_def session_ok_def less_2)

lemma table_ok_boot: "table_ok initial_sensor_data"
  by (simp add: table_ok_def text_ok_def initial_sensor_data_def NUMBER_OF_SENSOR_TOPICS_def sensor_topics_def)

lemma sta_start_inv:
  assumes "network_up env auth st" "usable_settings st" "queue_ok contents room q"
  shows "\<exists>s. sta_start env auth st (sta_boot q h) = Inr (Some s) \<and> sta_inv contents room (s, []) \<and> st_queue s = q"
proof -
  obtain r a cl where n: "setup_sta (link_up_code env) (wifi env) (wifi_ssid st) (wifi_pass st) auth (Some (tls_mqtt_client_id st)) None None None = Inr (Some r)"
    "lookup_gives (client_env env) a" "ok_client (client_env env)" "new_client (client_env env) = Some cl" "ok_ci (client_env env)"
    using assms(1) by (auto simp: network_up_def)
  from mqtt_init_ok [OF n(2-5), of Static st None topics_sessions h] obtain res self c where
    i: "tls_mqtt_init (client_env env) Static st None topics_sessions h = Inr (Some res)" "i_ret res = TLS_MQTT_OK"
    "i_client res = Some (self, c)" "settings c = st" "settings_ptr c = Static" "topics_states c = topics_sessions" by blast
  have "client_ok c" using i(4-6) assms(2) sessions_wf [OF i(6)] by (simp add: client_ok_def usable_settings_def)
  then obtain ret c' cs where "tls_mqtt_connect (connect_err env) c = Inr (ret, c', cs)" "client_ok c'" using connect_inv by blast
  then show ?thesis using n(1) i(1-3) assms(3) table_ok_boot boot_inv
    by (simp add: sta_start_def sta_boot_def sta_inv_def requests_ok_def)
qed

section \<open>Properties\<close>

text \<open>C2: Once started with its network up, the station never fails: after any interleaving of sensor texts,
  rounds of its loop, connection changes, messages, acknowledgements and alarms, with any outcome
  of allocations and library calls, the next round and the next callback complete without
  touching memory wrongly, and a running pump has its alarm pending.\<close>

theorem station_never_fails:
  fixes contents :: "'q \<Rightarrow> queue_entry_t list"
  assumes "data_queue ops contents room" "room < k" "contents q = []"
    and "network_up env auth st" "usable_settings st"
    and "sta_start env auth st (sta_boot q h) = Inr (Some s0)" "(sta_step ops k)\<^sup>*\<^sup>* (s0, []) (s, rs)"
  shows "(length (full_topic_mem e) = 108 \<longrightarrow> (\<exists>s'. sta_tick ops k e s = Inr (Some s'))) \<and>
    (event_ok ev s rs \<longrightarrow> (\<exists>s'. sta_serve ev s = Inr s')) \<and>
    (pump (st_control s) \<longrightarrow> pending (st_control s) = [water_pump_alarm (st_control s)])"
proof -
  have "queue_ok contents room q" using assms(3) by (simp add: queue_ok_def)
  from sta_start_inv [OF assms(4,5) this, of h] assms(6) have "sta_inv contents room (s0, [])" by auto
  from sta_steps_inv [OF assms(1,2,7) this] have inv: "sta_inv contents room (s, rs)" .
  then show ?thesis using tick_inv [OF assms(1,2) inv, of e] event_inv [OF inv, of ev]
    by (auto simp: sta_inv_def control_inv_def)
qed

text \<open>C39: A station that cannot set up its client does not get through its first round: without memory for
  the client object the loop follows a null pointer, and on every later failure the cleanup frees the static settings.\<close>

theorem station_init_failure:
  fixes contents :: "'q \<Rightarrow> queue_entry_t list"
  assumes "data_queue ops contents room" "contents (st_queue s) = []" "0 < k"
    and "setup_sta (link_up_code env) (wifi env) (wifi_ssid st) (wifi_pass st) auth (Some (tls_mqtt_client_id st)) None None None = Inr (Some r)"
  shows "(\<not> ok_client (client_env env) \<longrightarrow> mqtt_sta_mode env auth ops k ((e, evs) # rounds) st s = Inl Null_Deref) \<and>
    (init_fails (client_env env) \<and> ok_client (client_env env) \<longrightarrow> mqtt_sta_mode env auth ops k ((e, evs) # rounds) st s = Inl Invalid_Free)"
proof -
  have d: "drain_queue ops k (st_queue s, t) = Inr (Some (st_queue s, t))" for t
    using data_queue.remove_empty [OF assms(1,2)] assms(3) by (cases k) (auto simp: try_read_data_from_queue_def)
  have "mqtt_sta_mode env auth ops k ((e, evs) # rounds) st s = Inl Null_Deref" if "\<not> ok_client (client_env env)"
    using that assms(4) d
    by (simp add: mqtt_sta_mode_def sta_start_def tls_mqtt_init_def malloc_def sta_tick_def Let_def nil_time_def)
  moreover have "mqtt_sta_mode env auth ops k ((e, evs) # rounds) st s = Inl Invalid_Free"
    if f: "init_fails (client_env env)" "ok_client (client_env env)"
  proof -
    have "\<forall>x \<in> set topics_sessions. topic_buffer x \<noteq> []" by (simp add: topics_sessions_def)
    then have "tls_mqtt_init (client_env env) Static st None topics_sessions (st_heap s) = Inl Invalid_Free"
      using init_fails_cleans [OF f, of topics_sessions Static st None "st_heap s"] clean_static by (auto simp: init_fail_def)
    then show ?thesis using assms(4) by (simp add: mqtt_sta_mode_def sta_start_def)
  qed
  ultimately show ?thesis by blast
qed

lemma table_texts:
  assumes "table_ok t"
  shows "\<exists>t0 t1 t2 t3. map (\<lambda>e. c_str (entry_data e)) t = map Inr [t0, t1, t2, t3] \<and> list_all (\<lambda>e. length (entry_data e) = 128) t"
proof -
  obtain e0 e1 e2 e3 where "t = [e0, e1, e2, e3]" using assms by (auto simp: table_ok_def length_Suc_conv numeral_eq_Suc)
  then show ?thesis using assms by (auto simp: table_ok_def text_ok_def c_str_def)
qed

text \<open>A due round, with nothing refused.\<close>

lemma due_round:
  assumes "drain_queue ops k (st_queue s, st_table s) = Inr (Some (q, t))" "table_ok t"
    and "map (\<lambda>e. c_str (entry_data e)) t = map Inr [t0, t1, t2, t3]"
    and "control_inv (st_control s)" "st_client s = Some c" "client_ok c" "is_connected c"
    and "st_timeout s \<le> now e" "\<And>n. pub_env e n = ((True, True, True), ERR_OK)" "length (full_topic_mem e) = 108"
    and "c_str (tls_mqtt_client_id (settings c)) = Inr cid"
  shows "\<exists>s' cs t5. sta_tick ops k e s = Inr (Some s') \<and> st_calls s' = st_calls s @ cs \<and> st_control s' = st_control s \<and>
    st_timeout s' = later e + 3000000 \<and>
    mqtt_publishes cs = messages cid [(chars ''r_hum'', t0), (chars ''r_temp'', t1), (chars ''w_temp'', t2), (chars ''moist'', t3),
      (chars ''water'', chars (if pump (st_control s) then ''ON'' else ''OFF'')), (chars ''light'', t5)]"
proof -
  let ?t4 = "chars (if pump (st_control s) then ''ON'' else ''OFF'')"
  obtain t5 where ctl: "map (\<lambda>c. c_str (ct_name c)) (current_control_state (st_control s)) = map Inr [chars ''water'', chars ''light'']"
    "map (\<lambda>c. c_str (topic_data c)) (current_control_state (st_control s)) = map Inr [?t4, t5]"
    "list_all (\<lambda>c. length (topic_data c) = 10) (current_control_state (st_control s))" using control_texts [OF assms(4)] by blast
  have l: "length (tls_mqtt_client_id (settings c)) = 100" using assms(6) by (simp add: client_ok_def)
  have t: "list_all (\<lambda>e. length (entry_data e) = 128) t" using assms(2) by (auto simp: table_ok_def text_ok_def list_all_iff)
  from publish_topic_data_ok [where h = "st_heap s" and env = "pub_env e", OF assms(7,11) l assms(10) assms(9) assms(3) t ctl] obtain cs h where
    "publish_topic_data (pub_env e) (full_topic_mem e) c t (current_control_state (st_control s)) (st_heap s) = Inr (ERR_OK, cs, h)"
    "mqtt_publishes cs = messages cid [(chars ''r_hum'', t0), (chars ''r_temp'', t1), (chars ''w_temp'', t2), (chars ''moist'', t3),
      (chars ''water'', ?t4), (chars ''light'', t5)]" by blast
  then show ?thesis using assms(1,5,7,8) by (simp add: sta_tick_def Let_def) blast
qed

lemma water_published: "(cid @ 47 # chars ''water'' @ [0], chars (if b then ''ON'' else ''OFF'')) \<in>
    set (messages cid [a0, a1, a2, a3, (chars ''water'', chars (if b then ''ON'' else ''OFF'')), a5])"
  by (cases b) (auto simp: messages_def chars_def)

text \<open>C11: A remote command works from the broker back to the broker: a message on the water topic, whatever
  it says and however it is cut up, switches the pump, and the first round after the
  deadline publishes the new state and sets the next deadline three seconds later.\<close>

theorem remote_command_cycle:
  fixes contents :: "'q \<Rightarrow> queue_entry_t list"
  assumes "data_queue ops contents room" "contents (st_queue s) = []" "0 < k" "sta_inv contents room (s, rs)"
    and "st_client s = Some c" "is_connected c" "c_str (tls_mqtt_client_id (settings c)) = Inr cid"
    and "portions \<noteq> []" "\<forall>x \<in> set portions. x \<noteq> []" "length (concat portions) \<le> 127" "0 < aid"
    and "now e1 < st_timeout s" "st_timeout s \<le> now e2" "st_timeout s \<noteq> nil_time"
    and "\<And>n. pub_env e2 n = ((True, True, True), ERR_OK)" "length (full_topic_mem e2) = 108"
  shows "\<exists>s'. sta_loop ops k [(e1, [Mqtt_Message (topic_strings ! 0) portions aid]), (e2, [])] s = Inr (Some s') \<and>
    (pump (st_control s') \<longleftrightarrow> \<not> pump (st_control s)) \<and> st_timeout s' = later e2 + 3000000 \<and>
    (cid @ 47 # chars ''water'' @ [0], chars (if pump (st_control s') then ''ON'' else ''OFF''))
      \<in> set (mqtt_publishes (drop (length (st_calls s)) (st_calls s')))"
proof -
  have i: "table_ok (st_table s)" "control_inv (st_control s)" "client_ok c" "mqtt_wf c"
    using assms(4,5) by (auto simp: sta_inv_def client_ok_def)
  have d: "drain_queue ops k (st_queue s, t) = Inr (Some (st_queue s, t))" for t
    using data_queue.remove_empty [OF assms(1,2)] assms(3) by (cases k) (auto simp: try_read_data_from_queue_def)
  have t1: "sta_tick ops k e1 s = Inr (Some s)" using d assms(12,14) by (simp add: sta_tick_def Let_def)
  obtain buf c' where r: "mqtt_receive (server_command_handler aid) (topic_strings ! 0) portions (st_control s, c) =
      bindE (server_command_handler aid 0 buf (of_nat (length (concat portions))) (st_control s)) (\<lambda>app'. Inr (app', c'))" "mqtt_wf c'"
    using mqtt_receive_known [OF i(4) _ assms(9,8,10), of 0 "server_command_handler aid" "st_control s"] by auto
  obtain ctl where ctl: "server_command_handler aid 0 buf (of_nat (length (concat portions))) (st_control s) = Inr ctl" "control_inv ctl"
    "pump ctl \<longleftrightarrow> \<not> pump (st_control s)" using water_command_ok [OF i(2), of aid] assms(11) by auto
  have r': "mqtt_receive (server_command_handler aid) (topic_strings ! 0) portions (st_control s, c) = Inr (ctl, c')" using r(1) ctl(1) by simp
  note l = mqtt_receive_link [OF r']
  let ?s = "s\<lparr>st_client := Some c', st_control := ctl\<rparr>"
  have c': "client_ok c'" "is_connected c'" "c_str (tls_mqtt_client_id (settings c')) = Inr cid"
    using client_ok_link [OF i(3) l r(2)] l assms(6,7) by (simp_all add: same_link_def)
  obtain x0 x1 x2 x3 where x: "map (\<lambda>e. c_str (entry_data e)) (st_table s) = map Inr [x0, x1, x2, x3]" using table_texts [OF i(1)] by blast
  from due_round [where s = ?s and ops = ops and k = k and e = e2, OF _ i(1) x _ _ c'(1,2) _ assms(15,16) c'(3)] d ctl(2) assms(13)
  obtain s' cs t5 where "sta_tick ops k e2 ?s = Inr (Some s')" "st_calls s' = st_calls s @ cs" "st_control s' = ctl" "st_timeout s' = later e2 + 3000000"
    "mqtt_publishes cs = messages cid [(chars ''r_hum'', x0), (chars ''r_temp'', x1), (chars ''w_temp'', x2), (chars ''moist'', x3),
      (chars ''water'', chars (if pump ctl then ''ON'' else ''OFF'')), (chars ''light'', t5)]" by auto
  moreover from this(5) have "(cid @ 47 # chars ''water'' @ [0], chars (if pump ctl then ''ON'' else ''OFF'')) \<in> set (mqtt_publishes cs)"
    using water_published by metis
  ultimately show ?thesis using t1 r' ctl(3) assms(5) by simp
qed

section \<open>Sample runs\<close>

definition demo_sta_env :: "bool \<Rightarrow> sta_env" where
  "demo_sta_env ok = \<lparr> link_up_code = 3, wifi = \<lparr> country_init = 0, connect_res = (\<lambda>_. 0), link_polls = [3] \<rparr>,
     client_env = demo_init_env ok, connect_err = ERR_OK \<rparr>"

definition demo_tick :: "nat \<Rightarrow> tick_env" where
  "demo_tick t = \<lparr> now = t, later = t, pub_env = (\<lambda>_. ((True, True, True), ERR_OK)), full_topic_mem = replicate 108 0 \<rparr>"

lemma demo_wifi:
  "\<exists>r. setup_sta 3 (wifi (demo_sta_env ok)) ssid pass auth (Some cid) None None None = Inr (Some r)"
  by (simp add: demo_sta_env_def setup_sta_def CONNECT_ATTEMPTS_def numeral_eq_Suc link_loop.simps)

lemma demo_network: "network_up (demo_sta_env True) auth st"
proof -
  have "ok_client (demo_init_env True)" "new_client (demo_init_env True) \<noteq> None" "ok_ci (demo_init_env True)"
    by (simp_all add: demo_init_env_def)
  with demo_wifi [of True] demo_init(2) show ?thesis by (auto simp: network_up_def demo_sta_env_def)
qed

lemma default_usable: "usable_settings default_settings"
proof -
  have "c_str (char_array 100 PICO_HOSTNAME) = Inr (chars PICO_HOSTNAME)" "c_str (char_array 6 BROKER_MQTT_PORT) = Inr (chars BROKER_MQTT_PORT)"
    "length (char_array 100 PICO_HOSTNAME) = 100" by code_simp+
  then show ?thesis by (auto simp: usable_settings_def default_settings_def c_str_Inr_iff)
qed

theorem station_never_fails_witness:
  "\<exists>s0 s1 s2. sta_start (demo_sta_env True) 0 default_settings (sta_boot [] demo_heap) = Inr (Some s0) \<and>
    sta_serve (Mqtt_Status ERR_OK MQTT_CONNECT_ACCEPTED) s0 = Inr s1 \<and> sta_tick sdk_queue 11 (demo_tick 5) s1 = Inr (Some s2)"
proof -
  let ?e = "Mqtt_Status ERR_OK MQTT_CONNECT_ACCEPTED"
  have q: "queue_ok (\<lambda>q. q) 10 []" by (simp add: queue_ok_def)
  obtain s0 :: "queue_entry_t list sta_state" where s0: "sta_start (demo_sta_env True) 0 default_settings (sta_boot [] demo_heap) = Inr (Some s0)"
    using sta_start_inv [OF demo_network default_usable q] by blast
  have u: "(10 :: nat) < 11" "length (full_topic_mem (demo_tick 5)) = 108" by (simp_all add: demo_tick_def)
  note run = station_never_fails [OF sdk.data_queue_axioms u(1) refl demo_network default_usable s0]
  obtain s1 where s1: "sta_serve ?e s0 = Inr s1" using run [of s0 "[]" undefined ?e] by auto
  then have "(sta_step sdk_queue 11)\<^sup>*\<^sup>* (s0, []) (s1, [])"
    using sta_step.event [of ?e s0 "[]" s1 sdk_queue 11] by auto
  from run [OF this, of "demo_tick 5" ?e] u(2) obtain s2 where "sta_tick sdk_queue 11 (demo_tick 5) s1 = Inr (Some s2)" by blast
  with s0 s1 show ?thesis by blast
qed

theorem station_init_failure_witness:
  "mqtt_sta_mode (demo_sta_env False) 0 sdk_queue 11 [(demo_tick 5, [])] default_settings (sta_boot [] demo_heap) = Inl Invalid_Free"
proof -
  obtain r where r: "setup_sta 3 (wifi (demo_sta_env False)) (wifi_ssid default_settings) (wifi_pass default_settings) 0
      (Some (tls_mqtt_client_id default_settings)) None None None = Inr (Some r)" using demo_wifi by blast
  have "link_up_code (demo_sta_env False) = 3" "client_env (demo_sta_env False) = demo_init_env False" "ok_client (demo_init_env False)"
    by (simp_all add: demo_sta_env_def demo_init_env_def)
  then show ?thesis
    using station_init_failure [OF sdk.data_queue_axioms, of "sta_boot [] demo_heap" 11 "demo_sta_env False" default_settings 0 r "demo_tick 5" "[]" "[]"]
      r demo_init(1) by (simp add: sta_boot_def)
qed

definition demo_station :: "queue_entry_t list sta_state" where
  "demo_station = (sta_boot [] demo_heap)\<lparr>st_client := Some demo_client, st_timeout := 100\<rparr>"

theorem remote_command_cycle_witness:
  "\<exists>s'. sta_loop sdk_queue 11 [(demo_tick 5, [Mqtt_Message (topic_strings ! 0) [chars ''O'', chars ''N''] 7]), (demo_tick 200, [])] demo_station =
      Inr (Some s') \<and> pump (st_control s') \<and>
    (literal ''PicoWClient1/water'', chars ''ON'') \<in> set (mqtt_publishes (st_calls s'))"
proof -
  have cl: "is_connected demo_client" "c_str (tls_mqtt_client_id (settings demo_client)) = Inr (chars ''PicoWClient1'')"
    by (simp_all add: demo_client_def default_settings_def PICO_HOSTNAME_def) (code_simp+)
  have "client_ok demo_client" using default_usable demo_client_wf
    by (simp add: client_ok_def usable_settings_def demo_client_def)
  then have i: "sta_inv (\<lambda>q. q) 10 (demo_station, [])" using table_ok_boot boot_inv
    by (simp add: sta_inv_def demo_station_def sta_boot_def queue_ok_def requests_ok_def)
  have p: "\<not> pump control_boot" by (simp add: control_boot_def)
  have "\<exists>s'. sta_loop sdk_queue 11 [(demo_tick 5, [Mqtt_Message (topic_strings ! 0) [chars ''O'', chars ''N''] 7]), (demo_tick 200, [])] demo_station =
      Inr (Some s') \<and> (pump (st_control s') \<longleftrightarrow> \<not> pump (st_control demo_station)) \<and> st_timeout s' = later (demo_tick 200) + 3000000 \<and>
    (chars ''PicoWClient1'' @ 47 # chars ''water'' @ [0], chars (if pump (st_control s') then ''ON'' else ''OFF''))
      \<in> set (mqtt_publishes (drop (length (st_calls demo_station)) (st_calls s')))"
    by (rule remote_command_cycle [OF sdk.data_queue_axioms _ _ i _ cl])
      (simp_all add: demo_station_def sta_boot_def demo_tick_def nil_time_def chars_def)
  then show ?thesis using p by (auto simp: demo_station_def sta_boot_def literal_def chars_def)
qed

end
