(* ===== verification/Firmware.thy ===== *)
theory Firmware
  imports Access_Point Station_Safe
begin

text \<open>
  The two cores of \<open>src/main.c\<close>: \<open>core1_entry\<close> sets up the control hardware, loads the settings and
  runs the access point or the station; \<open>main\<close> measures, hands the texts on, and restarts the
  device when the network core asks for it.
\<close>

section \<open>Model\<close>

subsection \<open>The network core\<close>

definition DEFAULT_SETTINGS_BUTTON :: nat where "DEFAULT_SETTINGS_BUTTON = 10"

record gpio_bank =
  dir_out :: "nat \<Rightarrow> bool"
  pulled_up :: "nat \<Rightarrow> bool"
  alarm_slots :: "nat option"    \<comment> \<open>of the pool of the network core\<close>

type_synonym net_hw = "control_state \<times> gpio_bank"

text \<open>A pin is initialised as an input with its output value cleared.\<close>

definition gpio_init :: "nat \<Rightarrow> net_hw \<Rightarrow> net_hw" where
  "gpio_init pin = (\<lambda>(c, g). (gpio_put pin False c, g\<lparr>dir_out := (dir_out g)(pin := False)\<rparr>))"

definition gpio_set_dir :: "nat \<Rightarrow> bool \<Rightarrow> net_hw \<Rightarrow> net_hw" where
  "gpio_set_dir pin out = (\<lambda>(c, g). (c, g\<lparr>dir_out := (dir_out g)(pin := out)\<rparr>))"

definition gpio_pull_up :: "nat \<Rightarrow> net_hw \<Rightarrow> net_hw" where
  "gpio_pull_up pin = (\<lambda>(c, g). (c, g\<lparr>pulled_up := (pulled_up g)(pin := True)\<rparr>))"

definition init_net_hardware :: "net_hw \<Rightarrow> net_hw" where
  "init_net_hardware hw0 =
    (let hw1 = gpio_pull_up DEFAULT_SETTINGS_BUTTON (gpio_set_dir DEFAULT_SETTINGS_BUTTON False (gpio_init DEFAULT_SETTINGS_BUTTON hw0));
         hw2 = (\<lambda>(c, g). (c\<lparr>water_pump_mutex := False\<rparr>, g\<lparr>alarm_slots := Some 1\<rparr>)) hw1;
         hw3 = (\<lambda>(c, g). (gpio_put WATER_PIN False c, g)) (gpio_set_dir WATER_PIN True (gpio_init WATER_PIN hw2))
     in (\<lambda>(c, g). (gpio_put LIGHT_PIN False c, g)) (gpio_set_dir LIGHT_PIN True (gpio_init LIGHT_PIN hw3)))"

text \<open>\<open>mem\<close>: the settings object before; the result is the object and the flash afterwards.\<close>

definition load_settings :: "flash_dev \<Rightarrow> bytes \<Rightarrow> tls_mqtt_settings \<Rightarrow> flash \<Rightarrow> (tls_mqtt_settings \<times> flash) ub" where
  "load_settings dev after mem fl =
    (let (res, s) = read_settings_from_flash fl (Some mem) in
     if res \<noteq> 0
     then bindE (initialize_default_settings s) (\<lambda>s1.
          bindE (write_settings_in_flash dev after s1 fl) (\<lambda>(s2, fl'). Inr (the s2, fl')))
     else Inr (the s, fl))"

record core1_env =
  button_level :: bool
  env_dev :: flash_dev
  mem_after :: bytes             \<comment> \<open>the memory that follows the settings\<close>
  auth_mode :: u32
  drain_bound :: nat
  ap_side :: ap_env
  ap_rounds :: "ap_event list list"
  sta_side :: sta_env
  sta_rounds :: "(tick_env \<times> sta_event list) list"

text \<open>The globals of the file and what they start with, besides the settings.\<close>

record 'q globals =
  g_queue :: 'q
  g_table :: "queue_entry_t list"
  g_hw :: net_hw
  g_heap :: heap
  g_settings :: tls_mqtt_settings
  g_dhcp :: dhcp_server_t        \<comment> \<open>on the stack, uninitialised\<close>
  g_dns :: dns_server_t

datatype 'q core1_result =
    Ap_Ended bool flash "'q ap_state"
  | Sta_Running flash "'q sta_state"

definition core1_entry :: "'q queue_ops \<Rightarrow> core1_env \<Rightarrow> flash \<Rightarrow> 'q globals \<Rightarrow> 'q core1_result run" where
  "core1_entry ops env fl g =
    (let (ctl, _) = init_net_hardware (g_hw g);
         button_pressed = (\<not> button_level env)
     in bindO (doneE (load_settings (env_dev env) (mem_after env) (g_settings g) fl)) (\<lambda>(st, fl1).
          if button_pressed
          then bindO (httpd_ap_mode (ap_side env) (auth_mode env) ops (drain_bound env) (ap_rounds env) (env_dev env) (mem_after env) fl1
                 \<lparr> ap_queue = g_queue g, ap_table = g_table g,
                   ap_settings = \<lparr> mqtt_settings = st, settings_changed = False \<rparr>, ap_http = http_control_boot,
                   ap_dhcp = g_dhcp g, ap_dns = g_dns g, ap_calls = [] \<rparr>) (\<lambda>(reset, fl2, s).
                 Inr (Some (Ap_Ended reset fl2 s)))
          else bindO (mqtt_sta_mode (sta_side env) (auth_mode env) ops (drain_bound env) (sta_rounds env) st
                 \<lparr> st_queue = g_queue g, st_table = g_table g, st_control = ctl, st_client = None, st_heap = g_heap g,
                   st_timeout = nil_time, st_calls = [] \<rparr>) (\<lambda>s.
                 Inr (Some (Sta_Running fl1 s)))))"

subsection \<open>The sensor core\<close>

record ('w, 'q) main_state =
  m_sensors :: "'w sensor_wrap_t list"
  m_world :: 'w
  m_queue :: 'q
  reset_core :: bool

text \<open>One iteration; the boolean says that the device now waits for the watchdog.\<close>

definition main_iteration :: "'q queue_ops \<Rightarrow> ('w, 'q) main_state \<Rightarrow> (bool \<times> ('w, 'q) main_state) run" where
  "main_iteration ops s =
    bindO (prepare_sensors (m_sensors s) (m_world s)) (\<lambda>(a1, w1).
    bindO (collect_data_sensors a1 w1) (\<lambda>(a2, w2).
    bindO (transfer_data_sensors (pass_sensor_data_to_queue ops) a2 (m_queue s)) (\<lambda>q.
      if reset_core s
      then bindO (deinit_clean_sensors a2 w2) (\<lambda>(a3, w3).
             Inr (Some (True, s\<lparr>m_sensors := a3, m_world := w3, m_queue := q, reset_core := False\<rparr>)))
      else Inr (Some (False, s\<lparr>m_sensors := a2, m_world := w2, m_queue := q\<rparr>)))))"

text \<open>The loop. Between iterations the other core changes the queue and may ask for a restart: the list
  says what it does before each iteration.\<close>

fun main_loop :: "'q queue_ops \<Rightarrow> (('q \<Rightarrow> 'q) \<times> bool) list \<Rightarrow> ('w, 'q) main_state \<Rightarrow> (bool \<times> ('w, 'q) main_state) run" where
  "main_loop ops [] s = Inr (Some (False, s))"
| "main_loop ops ((f, ask) # rounds) s =
    bindO (main_iteration ops (s\<lparr>m_queue := f (m_queue s), reset_core := reset_core s \<or> ask\<rparr>)) (\<lambda>(restart, s1).
      if restart then Inr (Some (True, s1)) else main_loop ops rounds s1)"

definition main_fw ::
  "'q queue_ops \<Rightarrow> (('q \<Rightarrow> 'q) \<times> bool) list \<Rightarrow> 'w sensor_wrap_t list \<Rightarrow> 'w \<Rightarrow> 'q \<Rightarrow> (bool \<times> ('w, 'q) main_state) run" where
  "main_fw ops rounds arr w q =
    bindO (init_sensors arr w) (\<lambda>(a, w1).
      main_loop ops rounds \<lparr> m_sensors = a, m_world = w1, m_queue = q, reset_core = False \<rparr>)"

section \<open>The settings at boot\<close>

lemma load_valid:
  assumes "read_settings_from_flash fl (Some mem) = (0, Some st)"
  shows "load_settings dev after mem fl = Inr (st, fl)"
  using assms by (simp add: load_settings_def)

lemma read_any: "read_settings_from_flash fl (Some a) = read_settings_from_flash fl (Some b)"
  by (simp add: read_settings_from_flash_def)

lemma init_net_hardware_boot: "fst (init_net_hardware (control_boot, g)) = control_boot"
  by (simp add: init_net_hardware_def gpio_init_def gpio_set_dir_def gpio_pull_up_def gpio_put_def control_boot_def Let_def fun_upd_idem)

lemma load_invalid:
  assumes "flash_dev_ok dev" "212 \<le> length after" "fst (read_settings_from_flash fl (Some mem)) \<noteq> 0"
  shows "\<exists>fl'. load_settings dev after mem fl = Inr (stamped default_settings, fl') \<and>
    read_settings_from_flash fl' (Some any) = (0, Some (stamped default_settings))"
proof -
  obtain r s where rs: "read_settings_from_flash fl (Some mem) = (r, Some s)" "r \<noteq> 0"
    using assms(3) by (cases "read_settings_from_flash fl (Some mem)") (auto dest: read_settings_result_wf)
  obtain fl' where "write_settings_in_flash dev after (Some default_settings) fl = Inr (Some (stamped default_settings), fl')"
    "read_from_non_volatile (of_nat sizeof_settings) fl' = settings_bytes (stamped default_settings)"
    using write_settings_ok [OF assms(1) default_settings_wf assms(2)] by blast
  then show ?thesis using rs read_settings_stamped [OF default_settings_wf]
    by (simp add: load_settings_def initialize_default_settings_def assertE_def)
qed

lemma load_settings_total:
  assumes "flash_dev_ok dev" "212 \<le> length after"
  shows "\<exists>st fl'. load_settings dev after mem fl = Inr (st, fl')"
proof (cases "fst (read_settings_from_flash fl (Some mem)) = 0")
  case True
  then show ?thesis by (cases "read_settings_from_flash fl (Some mem)") (simp add: load_settings_def)
next
  case False
  then show ?thesis using load_invalid [OF assms False] by blast
qed

lemma load_settings_wf:
  assumes "flash_dev_ok dev" "212 \<le> length after" "load_settings dev after mem fl = Inr (st, fl')"
  shows "settings_wf st"
proof (cases "fst (read_settings_from_flash fl (Some mem)) = 0")
  case True
  then show ?thesis using assms(3) read_settings_result_wf [of fl mem 0]
    by (cases "read_settings_from_flash fl (Some mem)") (auto simp: load_settings_def)
next
  case False
  then show ?thesis using load_invalid [OF assms(1,2) False] assms(3) default_settings_wf by auto
qed

text \<open>C17: Every boot ends with settings, and the next boot finds the same ones. Whatever the flash holds,
  loading succeeds with an object whose arrays have their sizes; from then on the
  flash reads back that object with status 0. Contents with both flags right are taken as
  they are and the flash is left alone; otherwise the defaults are installed.\<close>

theorem boot_installs_settings:
  assumes "flash_dev_ok dev" "212 \<le> length after"
  shows "\<exists>st fl'. load_settings dev after mem fl = Inr (st, fl') \<and> settings_wf st \<and>
    load_settings dev after mem' fl' = Inr (st, fl') \<and>
    (if fst (read_settings_from_flash fl (Some mem)) = 0 then fl' = fl
     else fst (settings_view (\<lparr> mqtt_settings = st, settings_changed = ch \<rparr>)) =
          fst (settings_view (\<lparr> mqtt_settings = default_settings, settings_changed = ch \<rparr>)))"
proof (cases "fst (read_settings_from_flash fl (Some mem)) = 0")
  case True
  then obtain st where st: "read_settings_from_flash fl (Some mem) = (0, Some st)" "settings_wf st"
    using read_settings_result_wf by (metis prod.collapse)
  then have "read_settings_from_flash fl (Some mem') = (0, Some st)" using read_any by metis
  with st True load_valid [of fl] show ?thesis by (intro exI [of _ st] exI [of _ fl]) simp
next
  case False
  from load_invalid [OF assms False, of mem'] obtain fl' where
    l: "load_settings dev after mem fl = Inr (stamped default_settings, fl')"
    "read_settings_from_flash fl' (Some mem') = (0, Some (stamped default_settings))" by blast
  let ?d = "\<lparr> mqtt_settings = default_settings, settings_changed = ch \<rparr>"
  have wf: "state_wf ?d" using default_settings_wf by (simp add: state_wf_def)
  from settings_stored [OF assms(1) wf assms(2), of fl mem'] write_settings_ok [OF assms(1) default_settings_wf assms(2), of fl]
  have "fst (settings_view (?d\<lparr>mqtt_settings := stamped default_settings\<rparr>)) = fst (settings_view ?d)" by auto
  moreover have "settings_wf (stamped default_settings)" using default_settings_wf by simp
  ultimately show ?thesis using False l(1) load_valid [OF l(2)]
    by (intro exI [of _ "stamped default_settings"] exI [of _ fl']) simp
qed

section \<open>Iterations of the sensor core\<close>

lemma resting_text: "resting s \<Longrightarrow> length (sw_topic_data s) = 128 \<and> 0 \<in> set (sw_topic_data s)"
  by (auto simp: resting_def dht_driver.at_rest_def ds_driver.at_rest_def sensor_with_def)

definition cleaned :: "'w sensor_wrap_t \<Rightarrow> bool" where
  "cleaned s \<longleftrightarrow> disconnected s \<or> custom_data s = None"

lemma clean_sensors_ok:
  assumes "list_all resting arr"
  shows "\<exists>arr' w'. deinit_clean_sensors arr w = Inr (Some (arr', w')) \<and> list_all cleaned arr'"
proof -
  have "\<exists>s' w'. clean_sensor s v = Inr (Some (s', w')) \<and> cleaned s' \<and> True" if "resting s" for s v
    using that dht_driver.clean_step [of s v] ds_driver.clean_step [of s v]
    by (fastforce simp: resting_def cleaned_def clean_sensor_def)
  from for_sensors_inv [of resting "\<lambda>_. True" clean_sensor cleaned arr w, OF this assms] show ?thesis
    unfolding deinit_clean_sensors_def by blast
qed

lemma transfer_resting:
  assumes "data_queue ops contents room" "contents q = []" "list_all resting arr" "length arr \<le> room" "length arr \<le> 4"
  shows "\<exists>q'. transfer_data_sensors (pass_sensor_data_to_queue ops) arr q = Inr (Some q') \<and> length (contents q') \<le> length arr \<and>
    (\<forall>e \<in> set (contents q'). unat (topic_index e) < 4 \<and> text_ok e) \<and>
    (\<forall>cur. length arr \<le> length cur \<longrightarrow> table_after 0 arr cur (store_entries (contents q') cur))"
proof -
  have t: "list_all (\<lambda>s. length (sw_topic_data s) = 128 \<and> 0 \<in> set (sw_topic_data s)) arr"
    using assms(3) resting_text by (auto simp: list_all_iff)
  from data_queue.transfer_adds [OF assms(1) t, of q 0] assms(2,4,5) obtain q' where
    "transfer_loop (pass_sensor_data_to_queue ops) 0 arr q = Inr (Some q')" "length (contents q') \<le> length arr"
    "\<forall>e \<in> set (contents q'). unat (topic_index e) < length arr \<and> length (entry_data e) = 128 \<and> 0 \<in> set (entry_data e)"
    "\<forall>cur. length arr \<le> length cur \<longrightarrow> table_after 0 arr cur (store_entries (contents q') cur)" by auto
  then show ?thesis using assms(5) unfolding transfer_data_sensors_def text_ok_def by fastforce
qed

text \<open>One iteration: the sensors hold fresh reports, and the queue holds them too.\<close>

lemma main_iteration_ok:
  assumes "data_queue ops contents room" "contents (m_queue s) = []" "list_all resting (m_sensors s)"
    and "length (m_sensors s) \<le> room" "length (m_sensors s) \<le> 4" "answering (answers (m_world s))"
  shows "\<exists>s'. main_iteration ops s = Inr (Some (reset_core s, s')) \<and> \<not> reset_core s' \<and>
    (if reset_core s then list_all cleaned (m_sensors s')
     else list_all fresh (m_sensors s') \<and> length (m_sensors s') = length (m_sensors s) \<and> answers (m_world s') = answers (m_world s) \<and>
       queue_ok contents room (m_queue s') \<and>
       (\<forall>cur. length (m_sensors s') \<le> length cur \<longrightarrow>
          table_after 0 (m_sensors s') cur (store_entries (contents (m_queue s')) cur)))"
proof -
  from sensor_round_ok [OF assms(3,6)] obtain a1 w1 a2 w2 where
    r: "prepare_sensors (m_sensors s) (m_world s) = Inr (Some (a1, w1))" "collect_data_sensors a1 w1 = Inr (Some (a2, w2))"
    "list_all fresh a2" "length a2 = length (m_sensors s)" "answers w2 = answers (m_world s)"
    by (auto simp: sensor_round_def bindO_eq_Some)
  have a2: "list_all resting a2" using r(3) by (auto intro: list.pred_mono_strong fresh_resting)
  obtain q where q: "transfer_data_sensors (pass_sensor_data_to_queue ops) a2 (m_queue s) = Inr (Some q)" "length (contents q) \<le> length a2"
    "\<forall>e \<in> set (contents q). unat (topic_index e) < 4 \<and> text_ok e"
    "\<forall>cur. length a2 \<le> length cur \<longrightarrow> table_after 0 a2 cur (store_entries (contents q) cur)"
    using transfer_resting [OF assms(1,2) a2] r(4) assms(4,5) by auto
  have "queue_ok contents room q" using q(2,3) r(4) assms(4) by (simp add: queue_ok_def)
  moreover obtain a3 w3 where "deinit_clean_sensors a2 w2 = Inr (Some (a3, w3))" "list_all cleaned a3" using clean_sensors_ok [OF a2] by blast
  ultimately show ?thesis using r q by (auto simp: main_iteration_def)
qed

text \<open>An iteration ends exactly when the queue has room for the texts of the connected sensors.\<close>

lemma main_iteration_exact:
  assumes "data_queue ops contents room" "length (contents (m_queue s)) \<le> room" "list_all resting (m_sensors s)"
    and "answering (answers (m_world s))"
  shows "if length (contents (m_queue s)) + attached (m_sensors s) \<le> room
    then \<exists>s'. main_iteration ops s = Inr (Some (reset_core s, s')) \<and> \<not> reset_core s' \<and>
      length (contents (m_queue s')) = length (contents (m_queue s)) + attached (m_sensors s) \<and>
      (if reset_core s then list_all cleaned (m_sensors s')
       else list_all resting (m_sensors s') \<and> attached (m_sensors s') = attached (m_sensors s) \<and>
         answers (m_world s') = answers (m_world s))
    else main_iteration ops s = Inr None"
proof -
  from sensor_round_ok [OF assms(3,4)] obtain a1 w1 a2 w2 where
    r: "prepare_sensors (m_sensors s) (m_world s) = Inr (Some (a1, w1))" "collect_data_sensors a1 w1 = Inr (Some (a2, w2))"
    "list_all fresh a2" "answers w2 = answers (m_world s)"
    by (auto simp: sensor_round_def bindO_eq_Some)
  have n: "attached a2 = attached (m_sensors s)" using round_attached r(1,2) by metis
  have a2: "list_all resting a2" using r(3) by (auto intro: list.pred_mono_strong fresh_resting)
  then have t: "list_all (\<lambda>s. length (sw_topic_data s) = 128 \<and> 0 \<in> set (sw_topic_data s)) a2"
    using resting_text by (auto simp: list_all_iff)
  obtain a3 w3 where c: "deinit_clean_sensors a2 w2 = Inr (Some (a3, w3))" "list_all cleaned a3" using clean_sensors_ok [OF a2] by blast
  from data_queue.transfer_counts [OF assms(1) t assms(2), of 0] r(1,2,4) n a2 c show ?thesis
    by (cases "reset_core s") (auto simp: main_iteration_def transfer_data_sensors_def split: if_split_asm)
qed

text \<open>Whether the queue has room in every iteration up to the one with a request: it holds \<open>l\<close> elements, the other core takes out
  \<open>k\<close> before an iteration, and each iteration puts in \<open>n\<close>.\<close>

fun never_full :: "nat \<Rightarrow> nat \<Rightarrow> nat \<Rightarrow> (nat \<times> bool) list \<Rightarrow> bool" where
  "never_full room n l [] \<longleftrightarrow> True"
| "never_full room n l ((k, ask) # rounds) \<longleftrightarrow> l - k + n \<le> room \<and> (ask \<or> never_full room n (l - k + n) rounds)"

text \<open>It has if the other core takes out as many as come in, and when it takes none, the queue is full after a known number of iterations.\<close>

lemma never_full_served:
  "\<forall>(k, ask) \<in> set rounds. n \<le> k \<Longrightarrow> l \<le> n \<Longrightarrow> n \<le> room \<Longrightarrow> never_full room n l rounds"
  by (induction rounds arbitrary: l) auto

lemma never_full_idle:
  "never_full room n l (replicate m (0, False)) \<longleftrightarrow> m = 0 \<or> l + m * n \<le> room"
  by (induction m arbitrary: l) (auto simp: algebra_simps)

lemma main_loop_exact:
  assumes "data_queue ops contents room"
    and "list_all2 (\<lambda>(f, ask) (k, ask'). ask' = ask \<and> (\<forall>q. contents (f q) = drop k (contents q))) rounds takes"
    and "length (contents (m_queue s)) \<le> room" "list_all resting (m_sensors s)" "answering (answers (m_world s))" "\<not> reset_core s"
  shows "if never_full room (attached (m_sensors s)) (length (contents (m_queue s))) takes
    then \<exists>s'. main_loop ops rounds s = Inr (Some (\<exists>(k, ask) \<in> set takes. ask, s')) \<and> \<not> reset_core s' \<and>
      ((\<exists>(k, ask) \<in> set takes. ask) \<longrightarrow> list_all cleaned (m_sensors s'))
    else main_loop ops rounds s = Inr None"
  using assms(2-)
proof (induction rounds takes arbitrary: s rule: list_all2_induct)
  case (Cons round rounds take takes)
  obtain f ask k where e: "round = (f, ask)" "take = (k, ask)" "contents (f q) = drop k (contents q)" for q
    using Cons.hyps(1) by (cases round; cases take) auto
  let ?s = "s\<lparr>m_queue := f (m_queue s), reset_core := reset_core s \<or> ask\<rparr>"
  have sel: "m_sensors ?s = m_sensors s" "m_world ?s = m_world s" "reset_core ?s = ask"
    "length (contents (m_queue ?s)) = length (contents (m_queue s)) - k" using Cons.prems(4) by (simp_all add: e(3))
  have "length (contents (m_queue ?s)) \<le> room" using Cons.prems(1) sel(4) by simp
  note exact = main_iteration_exact [OF assms(1) this, unfolded sel, OF Cons.prems(2,3)]
  have step: "if length (contents (m_queue s)) - k + attached (m_sensors s) \<le> room
    then \<exists>s'. main_iteration ops ?s = Inr (Some (ask, s')) \<and> \<not> reset_core s' \<and>
      length (contents (m_queue s')) = length (contents (m_queue s)) - k + attached (m_sensors s) \<and>
      (if ask then list_all cleaned (m_sensors s')
       else list_all resting (m_sensors s') \<and> attached (m_sensors s') = attached (m_sensors s) \<and>
         answers (m_world s') = answers (m_world s))
    else main_iteration ops ?s = Inr None" by (rule exact)
  show ?case
  proof (cases "length (contents (m_queue s)) - k + attached (m_sensors s) \<le> room \<and> \<not> ask")
    case True
    with step obtain s1 where s1: "main_iteration ops ?s = Inr (Some (ask, s1))" "\<not> reset_core s1"
      "length (contents (m_queue s1)) = length (contents (m_queue s)) - k + attached (m_sensors s)"
      "list_all resting (m_sensors s1)" "attached (m_sensors s1) = attached (m_sensors s)" "answers (m_world s1) = answers (m_world s)" by auto
    with Cons.IH [of s1] Cons.prems(3) True show ?thesis by (simp add: e)
  next
    case False
    with step show ?thesis by (auto simp: e(1,2) split: if_split_asm)
  qed
qed simp

text \<open>C18: The sensor core restarts the device when it is asked to, unless the queue between the cores runs full first: before
  each iteration the network core takes some elements out of the queue, possibly none, and may ask for a restart. If
  the queue has room for the texts of the connected sensors in every iteration up to the request, all of
  them complete, and the iteration with the request ends waiting for the watchdog with every connected sensor
  cleaned up; without a request the loop goes on. If in some iteration before a request there is no room, as when the network
  core is held up in its set-up and takes nothing, exactly then the loop does not get on by itself: it blocks in the call
  that adds to the queue, and a later request is not seen. The polling loops of the sensors end because the clock runs.\<close>

theorem main_restarts_on_request:
  fixes contents :: "'q \<Rightarrow> queue_entry_t list"
  assumes "data_queue ops contents room" "contents q = []"
    and "list_all2 (\<lambda>(f, ask) (k, ask'). ask' = ask \<and> (\<forall>q. contents (f q) = drop k (contents q))) rounds takes"
    and "\<forall>m. clock_runs (w_dht w m)" "arr = sensors_arr \<or> arr = sensors_arr @ [ds18b20_sensor device_bus 2]"
  shows "\<exists>a w1. init_sensors arr w = Inr (Some (a, w1)) \<and>
    (if never_full room (attached a) 0 takes
     then \<exists>s. main_fw ops rounds arr w q = Inr (Some (\<exists>(k, ask) \<in> set takes. ask, s)) \<and> \<not> reset_core s \<and>
       ((\<exists>(k, ask) \<in> set takes. ask) \<longrightarrow> (\<forall>x \<in> set (m_sensors s). disconnected x \<or> custom_data x = None))
     else main_fw ops rounds arr w q = Inr None)"
proof -
  have drivers: "list_all (\<lambda>s. s = dht11_sensor \<or> s = ds18b20_sensor device_bus 2) arr" using assms(5) by (auto simp: sensors_arr_def)
  from init_sensors_ok [OF drivers clock_answers [OF assms(4)]] obtain a w1 where
    i: "init_sensors arr w = Inr (Some (a, w1))" "list_all resting a" "answers w1 = answers w" by blast
  from main_loop_exact [OF assms(1,3), of "\<lparr> m_sensors = a, m_world = w1, m_queue = q, reset_core = False \<rparr>"] i
    clock_answers [OF assms(4)] assms(2)
  show ?thesis by (auto simp: main_fw_def list_all_iff cleaned_def split: if_split_asm)
qed

section \<open>From the sensor to the broker\<close>

lemma messages_member: "(tn, t) \<in> set items \<Longrightarrow> t \<noteq> [] \<Longrightarrow> (cid @ 47 # tn @ [0], t) \<in> set (messages cid items)"
  by (force simp: messages_def)

lemma report_not_empty: "dht_says t \<or> ds_says t \<Longrightarrow> t \<noteq> []"
  by (auto simp: dht_says_def ds_says_def dht_text_def ds18b20_text_def chars_def split: option.splits)

lemma fresh_report: "fresh s \<Longrightarrow> \<not> disconnected s \<Longrightarrow> \<exists>t. c_str (sw_topic_data s) = Inr t \<and> (dht_says t \<or> ds_says t)"
  by (auto simp: fresh_def dht_driver.reported_def ds_driver.reported_def)

lemma sensor_topic_names: "i < 4 \<Longrightarrow> c_str (sensor_topics ! i) = Inr (chars ([''r_hum'', ''r_temp'', ''w_temp'', ''moist''] ! i))"
  by (auto simp: sensor_topics_def literal_def less_Suc_eq numeral_eq_Suc zero_in_chars)

text \<open>One iteration and the next due round, with the texts the sensors report.\<close>

lemma iteration_published:
  fixes contents :: "'q \<Rightarrow> queue_entry_t list"
  assumes "data_queue ops contents room" "contents (m_queue ms) = []" "list_all resting (m_sensors ms)"
    and "length (m_sensors ms) \<le> room" "length (m_sensors ms) \<le> 4" "answering (answers (m_world ms))" "\<not> reset_core ms"
    and "room < k" "table_ok (st_table s)" "control_inv (st_control s)" "st_client s = Some c" "client_ok c" "is_connected c"
    and "st_timeout s \<le> now e" "\<And>n. pub_env e n = ((True, True, True), ERR_OK)" "length (full_topic_mem e) = 108"
    and "c_str (tls_mqtt_client_id (settings c)) = Inr cid"
  shows "\<exists>ms' s'. main_iteration ops ms = Inr (Some (False, ms')) \<and>
    sta_tick ops k e (s\<lparr>st_queue := m_queue ms'\<rparr>) = Inr (Some s') \<and> length (m_sensors ms') = length (m_sensors ms) \<and>
    (\<exists>w'. sensor_round (m_sensors ms) (m_world ms) = Inr (Some (m_sensors ms', w'))) \<and>
    (\<forall>i < length (m_sensors ms'). disconnected (m_sensors ms' ! i) \<or>
       (\<exists>t tn. c_str (sw_topic_data (m_sensors ms' ! i)) = Inr t \<and> (dht_says t \<or> ds_says t) \<and> c_str (sensor_topics ! i) = Inr tn \<and>
          (cid @ 47 # tn @ [0], t) \<in> set (mqtt_publishes (drop (length (st_calls s)) (st_calls s')))))"
proof -
  from main_iteration_ok [OF assms(1-6)] assms(7) obtain ms' where
    m: "main_iteration ops ms = Inr (Some (False, ms'))" "list_all fresh (m_sensors ms')" "length (m_sensors ms') = length (m_sensors ms)"
    "queue_ok contents room (m_queue ms')"
    "\<forall>cur. length (m_sensors ms') \<le> length cur \<longrightarrow> table_after 0 (m_sensors ms') cur (store_entries (contents (m_queue ms')) cur)" by auto
  let ?arr = "m_sensors ms'" and ?t = "store_entries (contents (m_queue ms')) (st_table s)"
  have len: "length (st_table s) = 4" using assms(9) by (simp add: table_ok_def)
  have "\<forall>e \<in> set (contents (m_queue ms')). unat (topic_index e) < length (st_table s)" "length (contents (m_queue ms')) < k"
    using m(4) len assms(8) by (auto simp: queue_ok_def)
  from data_queue.drain_contents [OF assms(1) this] obtain q where
    d: "drain_queue ops k (m_queue ms', st_table s) = Inr (Some (q, ?t))" by blast
  have t: "table_ok ?t" using store_entries_ok [OF assms(9)] m(4) by (simp add: queue_ok_def)
  have after: "table_after 0 ?arr (st_table s) ?t" using m(3,5) assms(5) len by simp
  obtain t0 t1 t2 t3 where x: "map (\<lambda>e. c_str (entry_data e)) ?t = map Inr [t0, t1, t2, t3]" using table_texts [OF t] by blast
  let ?items = "[(chars ''r_hum'', t0), (chars ''r_temp'', t1), (chars ''w_temp'', t2), (chars ''moist'', t3)]"
  from due_round [where s = "s\<lparr>st_queue := m_queue ms'\<rparr>" and e = e and ops = ops and k = k and q = q, OF _ t x _ _ assms(12,13) _ assms(15,16,17)] d assms(10,11,14)
  obtain s' cs t5 where r: "sta_tick ops k e (s\<lparr>st_queue := m_queue ms'\<rparr>) = Inr (Some s')" "st_calls s' = st_calls s @ cs"
    "mqtt_publishes cs = messages cid (?items @ [(chars ''water'', chars (if pump (st_control s) then ''ON'' else ''OFF'')), (chars ''light'', t5)])" by auto
  have "\<exists>t tn. c_str (sw_topic_data (?arr ! i)) = Inr t \<and> (dht_says t \<or> ds_says t) \<and> c_str (sensor_topics ! i) = Inr tn \<and>
      (cid @ 47 # tn @ [0], t) \<in> set (mqtt_publishes cs)" if i: "i < length ?arr" "\<not> disconnected (?arr ! i)" for i
  proof -
    have i4: "i < 4" using i m(3) assms(5) by simp
    have "fresh (?arr ! i)" using m(2) i(1) by (simp add: list_all_length)
    then obtain u where u: "c_str (sw_topic_data (?arr ! i)) = Inr u" "dht_says u \<or> ds_says u" using fresh_report i(2) by blast
    have "c_str (entry_data (?t ! i)) = Inr u" using after i u(1) by (auto simp: table_after_def)
    moreover have "i < length ?t" using t i4 by (simp add: table_ok_def)
    ultimately have "(map Inr [t0, t1, t2, t3] :: bytes ub list) ! i = Inr u" unfolding x [symmetric] by (simp del: list.map)
    then have "(chars ([''r_hum'', ''r_temp'', ''w_temp'', ''moist''] ! i), u) \<in> set ?items"
      using i4 by (auto simp: less_Suc_eq numeral_eq_Suc)
    from messages_member [OF _ report_not_empty [OF u(2)], of _ "?items @ _"] this
    have "(cid @ 47 # chars ([''r_hum'', ''r_temp'', ''w_temp'', ''moist''] ! i) @ [0], u) \<in> set (mqtt_publishes cs)" unfolding r(3) by auto
    with u sensor_topic_names [OF i4] show ?thesis by blast
  qed
  moreover have "\<exists>w'. sensor_round (m_sensors ms) (m_world ms) = Inr (Some (m_sensors ms', w'))"
    using m(1) assms(7) by (auto simp: main_iteration_def sensor_round_def bindO_eq_Some)
  ultimately show ?thesis using m(1,3) r(1,2) by (intro exI [of _ ms'] exI [of _ s']) auto
qed

text \<open>C4: What is measured is published. One iteration of the sensor core followed by a due round of the network core
  sends, for every connected sensor, the text of this iteration (its reading, or the null report) as a message
  under the client identifier and the topic of the sensor's position.\<close>

theorem reading_published:
  fixes contents :: "'q \<Rightarrow> queue_entry_t list"
  assumes "data_queue ops contents room" "contents (m_queue ms) = []" "list_all resting (m_sensors ms)"
    and "length (m_sensors ms) \<le> room" "length (m_sensors ms) \<le> 4" "answering (answers (m_world ms))" "\<not> reset_core ms"
    and "room < k" "table_ok (st_table s)" "control_inv (st_control s)" "st_client s = Some c" "client_ok c" "is_connected c"
    and "st_timeout s \<le> now e" "\<And>n. pub_env e n = ((True, True, True), ERR_OK)" "length (full_topic_mem e) = 108"
    and "c_str (tls_mqtt_client_id (settings c)) = Inr cid"
  shows "\<exists>ms' s'. main_iteration ops ms = Inr (Some (False, ms')) \<and>
    sta_tick ops k e (s\<lparr>st_queue := m_queue ms'\<rparr>) = Inr (Some s') \<and> length (m_sensors ms') = length (m_sensors ms) \<and>
    (\<forall>i < length (m_sensors ms'). disconnected (m_sensors ms' ! i) \<or>
       (\<exists>t tn. c_str (sw_topic_data (m_sensors ms' ! i)) = Inr t \<and> (dht_says t \<or> ds_says t) \<and> c_str (sensor_topics ! i) = Inr tn \<and>
          (cid @ 47 # tn @ [0], t) \<in> set (mqtt_publishes (drop (length (st_calls s)) (st_calls s')))))"
  using iteration_published [OF assms] by blast

section \<open>Sample runs\<close>

theorem boot_installs_settings_witness:
  "\<exists>st fl'. load_settings nor_flash (replicate 212 0) default_settings (\<lambda>_. 0xFF) = Inr (st, fl') \<and> settings_wf st \<and>
    load_settings nor_flash (replicate 212 0) default_settings fl' = Inr (st, fl')"
proof -
  have "212 \<le> length (replicate 212 (0 :: u8))" by simp
  from boot_installs_settings [OF nor_flash_ok this, of default_settings "\<lambda>_. 0xFF" default_settings] show ?thesis by blast
qed

lemma demo_attached: "init_sensors sensors_arr demo_world = Inr (Some (a, w1)) \<Longrightarrow> attached a = 1"
  by (auto simp: init_sensors_def sensors_arr_def init_sensor_def dht11_sensor_def init_fn_dht_def take_block_def demo_world_def Let_def
      dht_at_def dht_init_def bindO_eq_Some split: if_splits)

theorem main_restarts_on_request_witness:
  "(\<exists>s. main_fw sdk_queue [(\<lambda>q. q, False), (drop 1, True), (\<lambda>q. q, False)] sensors_arr demo_world [] = Inr (Some (True, s)) \<and>
      (\<forall>x \<in> set (m_sensors s). disconnected x \<or> custom_data x = None)) \<and>
   main_fw sdk_queue (replicate 11 (\<lambda>q. q, False) @ [(drop 1, True)]) sensors_arr demo_world [] = Inr None"
proof -
  note run = main_restarts_on_request [where w = demo_world and arr = sensors_arr and q = "[]", OF sdk.data_queue_axioms refl]
  have clock: "\<forall>m. clock_runs (w_dht demo_world m)" by (simp add: demo_clock)
  let ?one = "[(\<lambda>q. q, False), (drop 1, True), (\<lambda>q. q, False)]" and ?two = "replicate 11 (\<lambda>q. q, False) @ [(drop 1, True)]"
  have "list_all2 (\<lambda>(f, ask) (k, ask'). ask' = ask \<and> (\<forall>q :: queue_entry_t list. f q = drop k q)) ?one [(0, False), (1, True), (0, False)]"
    by simp
  from run [OF this clock] demo_attached have one: "\<exists>s. main_fw sdk_queue ?one sensors_arr demo_world [] = Inr (Some (True, s)) \<and>
      (\<forall>x \<in> set (m_sensors s). disconnected x \<or> custom_data x = None)" by (auto split: if_split_asm)
  have "list_all2 (\<lambda>(f, ask) (k, ask'). ask' = ask \<and> (\<forall>q :: queue_entry_t list. f q = drop k q)) ?two (replicate 11 (0, False) @ [(1, True)])"
    by (simp add: numeral_eq_Suc)
  from run [OF this clock] demo_attached have "main_fw sdk_queue ?two sensors_arr demo_world [] = Inr None"
    by (auto simp: numeral_eq_Suc split: if_split_asm)
  with one show ?thesis by blast
qed

definition demo_main :: "(devices sensor_world, queue_entry_t list) main_state" where
  "demo_main = \<lparr> m_sensors = [dht11_sensor\<lparr>custom_data := Some (Dht_Obj (demo_dht\<lparr>sm_on := False\<rparr>)), disconnected := False\<rparr>],
     m_world = demo_world, m_queue = [], reset_core = False \<rparr>"

lemma demo_main_resting: "list_all resting (m_sensors demo_main)"
  by (simp add: demo_main_def resting_def dht_driver.at_rest_def dht_driver.driven_def sensor_with_def dht_idle_def
      dht11_sensor_def demo_dht_def)

theorem reading_published_witness:
  "\<exists>ms' s'. main_iteration sdk_queue demo_main = Inr (Some (False, ms')) \<and>
    sta_tick sdk_queue 11 (demo_tick 200) (demo_station\<lparr>st_queue := m_queue ms'\<rparr>) = Inr (Some s') \<and>
    (\<forall>i < length (m_sensors ms'). disconnected (m_sensors ms' ! i) \<or>
       (\<exists>t tn. c_str (sw_topic_data (m_sensors ms' ! i)) = Inr t \<and> (dht_says t \<or> ds_says t) \<and> c_str (sensor_topics ! i) = Inr tn \<and>
          (chars ''PicoWClient1'' @ 47 # tn @ [0], t) \<in> set (mqtt_publishes (drop (length (st_calls demo_station)) (st_calls s')))))"
proof -
  have cl: "is_connected demo_client" "c_str (tls_mqtt_client_id (settings demo_client)) = Inr (chars ''PicoWClient1'')"
    by (simp_all add: demo_client_def default_settings_def PICO_HOSTNAME_def) (code_simp+)
  have m: "m_queue demo_main = []" "length (m_sensors demo_main) \<le> 10" "length (m_sensors demo_main) \<le> 4"
    "answering (answers (m_world demo_main))" "\<not> reset_core demo_main"
    using demo_answering by (simp_all add: demo_main_def)
  have s: "table_ok (st_table demo_station)" "control_inv (st_control demo_station)" "st_client demo_station = Some demo_client"
    "st_timeout demo_station \<le> now (demo_tick 200)"
    using table_ok_boot boot_inv by (simp_all add: demo_station_def sta_boot_def demo_tick_def)
  have c: "client_ok demo_client" using default_usable demo_client_wf
    by (simp add: client_ok_def usable_settings_def demo_client_def)
  have t: "pub_env (demo_tick 200) n = ((True, True, True), ERR_OK)" "length (full_topic_mem (demo_tick 200)) = 108" for n
    by (simp_all add: demo_tick_def)
  have k: "(10 :: nat) < 11" by simp
  from reading_published [OF sdk.data_queue_axioms m(1) demo_main_resting m(2-5) k s(1-3) c cl(1) s(4) t cl(2)] show ?thesis by blast
qed

end
