(* ===== verification/Web_Page.thy ===== *)
theory Web_Page
  imports Settings_Form Sensor_Queue
begin

text \<open>
  \<open>src/access_point_httpd/myfs.c\<close>: the file system of the web server, which holds one page. Its bytes
  are the file name, the response header and \<open>fs/index.ssi\<close>; the page has the tags that the
  sensor texts replace and the form that sets the settings.
\<close>

section \<open>Model\<close>

definition unlines :: "string list \<Rightarrow> string" where
  "unlines ls = concat (map (\<lambda>l. l @ [CHR 0x0A]) ls)"

definition http_lines :: "string list \<Rightarrow> string" where
  "http_lines ls = concat (map (\<lambda>l. l @ [CHR 0x0D, CHR 0x0A]) ls)"

definition file_name :: string where
  "file_name = ''/index.ssi'' @ [CHR 0x00, CHR 0x00]"

definition http_header :: string where
  "http_header = http_lines
    [''HTTP/1.0 200 OK'',
     ''Server: lwIP/2.2.0 (http://savannah.nongnu.org/projects/lwip)'',
     ''Content-Type: text/html'',
     ''Expires: Fri, 10 Apr 2008 14:00:00 GMT'',
     ''Pragma: no-cache'',
     '''']"

text \<open>The page, line by line: style, sensor section, form.\<close>

definition page_style :: "string list" where
  "page_style =
    [''<!DOCTYPE html>'',
     ''<html lang=\"en\">'',
     ''<head>'',
     ''    <meta charset=\"UTF-8\">'',
     ''    <meta name=\"viewport\" content=\"width=device-width, initial-scale=1.0\">'',
     ''    <title>Sensor Data and Controls</title>'',
     ''    <style>'',
     ''        body {'',
     ''            font-family: Arial, sans-serif;'',
     ''            margin: 20px;'',
     ''            display: flex;'',
     ''            gap: 20px;'',
     ''        }'',
     ''        .container {'',
     ''            display: flex;'',
     ''            gap: 20px;'',
     ''            width: 100%;'',
     ''        }'',
     ''        .data-display, .controls {'',
     ''            flex: 1;'',
     ''            padding: 20px;'',
     ''            border: 1px solid #ccc;'',
     ''            border-radius: 5px;'',
     ''            background-color: #f9f9f9;'',
     ''        }'',
     ''        .data-display h3, .controls h3 {'',
     ''            margin-top: 0;'',
     ''        }'',
     ''        .data-display p, .controls p {'',
     ''            font-size: 16px;'',
     ''            margin: 8px 0;'',
     ''        }'',
     ''        .controls form {'',
     ''            margin: 10px 0;'',
     ''        }'',
     ''        .config-form input {'',
     ''            margin-bottom: 10px;'',
     ''            width: 100%;'',
     ''            padding: 8px;'',
     ''            box-sizing: border-box;'',
     ''        }'',
     ''    </style>'',
     ''</head>'']"

definition page_data :: "string list" where
  "page_data =
    [''<body>'',
     ''    <div class=\"container\">'',
     ''        <!-- Data Display Section -->'',
     ''        <div class=\"data-display\">'',
     ''            <h2>Sensor Data</h2>'',
     ''            <p><strong>Room Humidity:</strong> <!--#r_hum-->%</p>'',
     ''            <p><strong>Room Temperature:</strong> <!--#r_temp-->'' @ [CHR 0xC2, CHR 0xB0] @ ''C</p>'',
     ''            <p><strong>Water Temperature:</strong> <!--#w_temp-->'' @ [CHR 0xC2, CHR 0xB0] @ ''C</p>'',
     ''            <p><strong>Soil Moisture:</strong> <!--#moist-->%</p>'',
     ''        </div>'',
     ''        '']"

definition page_form :: "string list" where
  "page_form =
    [''        <!-- Controls Section -->'',
     ''        <div class=\"controls\">'',
     ''            <h2>Device Configuration</h2>'',
     ''            <form class=\"config-form\" method=\"POST\">'',
     ''                <label for=\"ssid\">Wi-Fi SSID:</label>'',
     ''                <input type=\"text\" id=\"ssid\" name=\"wifi_ssid\" placeholder=\"Enter SSID (optional)\" maxlength=\"32\">'',
     '''',
     ''                <label for=\"password\">Wi-Fi Password:</label>'',
     ''                <input type=\"password\" id=\"password\" name=\"wifi_pass\" placeholder=\"Enter Password (optional)\" maxlength=\"63\">'',
     '''',
     ''                <label for=\"mqtt_host\">MQTT Broker Hostname:</label>'',
     ''                <input type=\"text\" id=\"mqtt_host\" name=\"tls_mqtt_broker_hostname\" placeholder=\"Enter Broker Hostname (optional)\" maxlength=\"199\">'',
     '''',
     ''                <label for=\"mqtt_port\">MQTT Broker Port:</label>'',
     ''                <input type=\"text\" id=\"mqtt_port\" name=\"tls_mqtt_broker_port\" placeholder=\"Enter Port (optional)\" maxlength=\"5\" pattern=\"[0-9]*\">'',
     '''',
     ''                <label for=\"mqtt_cn\">MQTT Common Name:</label>'',
     ''                <input type=\"text\" id=\"mqtt_cn\" name=\"tls_mqtt_broker_CN\" placeholder=\"Enter Common Name (optional)\" maxlength=\"199\">'',
     '''',
     ''                <label for=\"client_id\">MQTT Client ID:</label>'',
     ''                <input type=\"text\" id=\"client_id\" name=\"tls_mqtt_client_id\" placeholder=\"Enter Client ID (optional)\" maxlength=\"99\">'',
     '''',
     ''                <label for=\"client_name\">MQTT Client Name:</label>'',
     ''                <input type=\"text\" id=\"client_name\" name=\"tls_mqtt_client_name\" placeholder=\"Enter Client Name (optional)\" maxlength=\"99\">'',
     '''',
     ''                <label for=\"client_pass\">MQTT Client Password:</label>'',
     ''                <input type=\"password\" id=\"client_pass\" name=\"tls_mqtt_client_password\" placeholder=\"Enter Client Password (optional)\" maxlength=\"99\">'',
     '''',
     ''                <button type=\"submit\">Save Settings</button>'',
     ''                <button type=\"reset\">Discard</button>'',
     ''            </form>'',
     ''        </div>'',
     ''    </div>'',
     ''</body>'',
     ''</html>'',
     '''']"

definition page_lines :: "string list" where
  "page_lines = page_style @ page_data @ page_form"

definition index_ssi :: string where
  "index_ssi = unlines page_lines"

definition data__index_ssi :: bytes where
  "data__index_ssi = chars (file_name @ http_header @ index_ssi)"

text \<open>A directory entry. The value of \<open>FS_FILE_FLAGS_SSI\<close> is lwIP's.\<close>

datatype fsdata_file =
  Fsdata_File (fs_next: "fsdata_file option") (fs_name: bytes) (fs_data: bytes) (fs_len: nat) (fs_flags: u8)

definition FS_FILE_FLAGS_HEADER_INCLUDED :: u8 where "FS_FILE_FLAGS_HEADER_INCLUDED = 1"

definition file__index_ssi :: "u8 \<Rightarrow> fsdata_file" where
  "file__index_ssi ssi_flag = Fsdata_File None data__index_ssi (drop 12 data__index_ssi)
     (length data__index_ssi - 12) (FS_FILE_FLAGS_HEADER_INCLUDED OR ssi_flag)"

definition FS_NUMFILES :: nat where "FS_NUMFILES = 1"

section \<open>Reading the page\<close>

fun after_prefix :: "'a list \<Rightarrow> 'a list \<Rightarrow> 'a list option" where
  "after_prefix [] xs = Some xs"
| "after_prefix (p # ps) [] = None"
| "after_prefix (p # ps) (x # xs) = (if p = x then after_prefix ps xs else None)"

text \<open>The text between each occurrence of a mark and the next occurrence of a character.\<close>

fun between :: "string \<Rightarrow> char \<Rightarrow> string \<Rightarrow> string list" where
  "between mark stop [] = []"
| "between mark stop (c # cs) =
    (case after_prefix mark (c # cs) of
       None \<Rightarrow> between mark stop cs
     | Some r \<Rightarrow> takeWhile (\<lambda>x. x \<noteq> stop) r # between mark stop cs)"

text \<open>The names of the tags \<open><!--#name-->\<close>, and the name and length limit of each input; no tag
  extends over a line.\<close>

definition ssi_tags :: "string list \<Rightarrow> string list" where
  "ssi_tags ls = concat (map (between ''<!--#'' CHR ''-'') ls)"

definition number_of :: "string \<Rightarrow> nat" where
  "number_of s = foldl (\<lambda>n c. 10 * n + (of_char c - 48)) 0 s"

definition attribute :: "string \<Rightarrow> string \<Rightarrow> string" where
  "attribute nm tag = concat (between (CHR '' '' # nm @ ''=\"'') CHR 0x22 tag)"

definition form_inputs :: "string list \<Rightarrow> (string \<times> nat) list" where
  "form_inputs ls = map (\<lambda>tag. (attribute ''name'' tag, number_of (attribute ''maxlength'' tag)))
     (concat (map (between ''<input'' CHR ''>'') ls))"

lemma length_index_ssi: "length index_ssi = 3466"
  by code_simp

lemma tags_page: "ssi_tags page_lines = [''r_hum'', ''r_temp'', ''w_temp'', ''moist'']"
  by code_simp

lemma inputs_page: "form_inputs page_lines =
    [(''wifi_ssid'', 32), (''wifi_pass'', 63), (''tls_mqtt_broker_hostname'', 199), (''tls_mqtt_broker_port'', 5),
     (''tls_mqtt_broker_CN'', 199), (''tls_mqtt_client_id'', 99), (''tls_mqtt_client_name'', 99), (''tls_mqtt_client_password'', 99)]"
  by code_simp

section \<open>The form as a browser sends it\<close>

fun form_body :: "(bytes \<times> bytes) list \<Rightarrow> bytes" where
  "form_body [] = []"
| "form_body [(k, v)] = k @ eq_sign # v"
| "form_body ((k, v) # ps) = k @ eq_sign # v @ amp # form_body ps"

definition plain_pair :: "bytes \<times> bytes \<Rightarrow> bool" where
  "plain_pair = (\<lambda>(k, v). eq_sign \<notin> set k \<and> amp \<notin> set k \<and> amp \<notin> set v)"

lemma form_pairs_single:
  assumes "plain_pair (k, v)"
  shows "form_pairs (k @ eq_sign # v) = [(k, v)]"
proof -
  have "takeWhile (\<lambda>b. b \<noteq> eq_sign) (k @ eq_sign # v) = k" "dropWhile (\<lambda>b. b \<noteq> eq_sign) (k @ eq_sign # v) = eq_sign # v"
    using assms by (induction k) (auto simp: plain_pair_def)
  moreover have "pieces (k @ eq_sign # v) = [k @ eq_sign # v]" using assms by (intro pieces_last) (simp add: plain_pair_def)
  ultimately show ?thesis by (simp add: form_pairs_def)
qed

lemma form_pairs_body: "list_all plain_pair ps \<Longrightarrow> form_pairs (form_body ps) = ps"
proof (induction ps rule: form_body.induct)
  case (3 k v p ps)
  have "amp \<notin> set (k @ eq_sign # v)" using 3(2) by (simp add: plain_pair_def)
  from form_pairs_token [OF this, of "form_body (p # ps)"] form_pairs_single [of k v] 3 show ?case by simp
qed (simp_all add: form_pairs_single)

lemma length_form_body: "length (form_body ps) \<le> (\<Sum>(k, v) \<leftarrow> ps. length k + length v + 2)"
  by (induction ps rule: form_body.induct) auto

lemma zero_form_body: "\<forall>(k, v) \<in> set ps. 0 \<notin> set k \<and> 0 \<notin> set v \<Longrightarrow> 0 \<notin> set (form_body ps)"
  by (induction ps rule: form_body.induct) auto

text \<open>The encoding of names and values (\<open>application/x-www-form-urlencoded\<close>): letters, digits and four marks stand for themselves,
  a space becomes a plus sign, and every other byte a percent sign with two hexadecimal digits.\<close>

definition plain_byte :: "u8 \<Rightarrow> bool" where
  "plain_byte b \<longleftrightarrow> 48 \<le> b \<and> b \<le> 57 \<or> 65 \<le> b \<and> b \<le> 90 \<or> 97 \<le> b \<and> b \<le> 122 \<or> b \<in> {42, 45, 46, 95}"

definition hex_digit :: "u8 \<Rightarrow> u8" where
  "hex_digit d = (if d < 10 then 48 + d else 55 + d)"

definition url_byte :: "u8 \<Rightarrow> bytes" where
  "url_byte b = (if plain_byte b then [b] else if b = 32 then [43] else [37, hex_digit (drop_bit 4 b), hex_digit (b AND 15)])"

definition url_encode :: "bytes \<Rightarrow> bytes" where
  "url_encode v = concat (map url_byte v)"

text \<open>The body of the form of the page with the entries \<open>vs\<close>.\<close>

definition browser_body :: "bytes list \<Rightarrow> bytes" where
  "browser_body vs = form_body (zip (map (\<lambda>(nm, _). url_encode (chars nm)) (form_inputs page_lines)) (map url_encode vs))"

lemma hex_digit_range:
  assumes "d < 16"
  shows "hex_digit d \<in> {48..57} \<union> {65..70}"
proof (cases "d < 10")
  case True
  then have "48 \<le> 48 + d \<and> 48 + d \<le> 57" by (simp add: word_le_nat_alt word_less_nat_alt unat_word_ariths)
  then show ?thesis using True by (simp add: hex_digit_def)
next
  case False
  then have "65 \<le> 55 + d \<and> 55 + d \<le> 70" using assms by (simp add: word_le_nat_alt word_less_nat_alt unat_word_ariths)
  then show ?thesis using False by (simp add: hex_digit_def)
qed

lemma nibbles: "drop_bit 4 (b :: u8) < 16" "b AND 15 < (16 :: u8)"
proof -
  have "unat (drop_bit 4 b) = drop_bit 4 (unat b)" by (rule unat_drop_bit_eq)
  also have "\<dots> = unat b div 16" by (simp add: drop_bit_eq_div)
  finally have "unat (drop_bit 4 b) = unat b div 16" .
  then show "drop_bit 4 b < 16" using unat_u8_bound [of b] by (simp add: word_less_nat_alt)
  have "b AND 15 \<le> 15" by (rule word_and_le1)
  then show "b AND 15 < 16" by (simp add: word_le_nat_alt word_less_nat_alt)
qed

text \<open>No separator and no terminator is left.\<close>

lemma url_byte_clean: "x \<in> set (url_byte b) \<Longrightarrow> x \<noteq> 0 \<and> x \<noteq> amp \<and> x \<noteq> eq_sign"
  using hex_digit_range [OF nibbles(1) [of b]] hex_digit_range [OF nibbles(2) [of b]]
  by (auto simp: url_byte_def plain_byte_def split: if_splits)

lemma url_encode_clean: "0 \<notin> set (url_encode v)" "amp \<notin> set (url_encode v)" "eq_sign \<notin> set (url_encode v)"
  using url_byte_clean by (fastforce simp: url_encode_def)+

lemma url_encode_Nil [simp]: "url_encode v = [] \<longleftrightarrow> v = []"
  by (cases v) (auto simp: url_encode_def url_byte_def)

lemma length_url_encode: "length v \<le> length (url_encode v)"
  by (induction v) (auto simp: url_encode_def url_byte_def)

text \<open>Exactly the strings of plain bytes are encoded as themselves.\<close>

lemma url_encode_plain: "url_encode v = v \<longleftrightarrow> list_all plain_byte v"
proof (induction v)
  case (Cons b v)
  have l: "length v \<le> length (url_encode v)" by (rule length_url_encode)
  show ?case
  proof (cases "plain_byte b \<or> b = 32")
    case True
    have "plain_byte b \<Longrightarrow> b \<noteq> 32" by (auto simp: plain_byte_def)
    then show ?thesis using True Cons.IH by (auto simp: url_encode_def url_byte_def)
  next
    case False
    then have "length (url_encode (b # v)) = 3 + length (url_encode v)" by (simp add: url_encode_def url_byte_def)
    then have "url_encode (b # v) \<noteq> b # v" using l by (metis add_leE length_Cons not_less_eq_eq numeral_3_eq_3 add_Suc plus_nat.add_0)
    then show ?thesis using False by simp
  qed
qed (simp add: url_encode_def)

lemma browser_body_eq: "browser_body vs = form_body (zip (map chars field_names) (map url_encode vs))"
proof -
  have "map (\<lambda>(nm, _). url_encode (chars nm)) (form_inputs page_lines) = map chars field_names"
    unfolding inputs_page field_names_def by code_simp
  then show ?thesis by (simp add: browser_body_def)
qed

text \<open>What the firmware makes of the encoded value of one field.\<close>

definition stored :: "string \<Rightarrow> bytes \<Rightarrow> bool" where
  "stored nm e \<longleftrightarrow> e \<noteq> [] \<and> hd e \<noteq> digit_zero \<and> length e < sizeof_member nm"

lemma fold_update:
  assumes "length es = length ns" "set ns \<subseteq> set field_names" "distinct ns"
  shows "fold (\<lambda>(k, v). update_field k (firmware_value v)) (zip (map chars ns) es) (m, ch) =
    (\<lambda>nm. case map_of (zip ns es) nm of None \<Rightarrow> m nm | Some e \<Rightarrow> if stored nm e then e else m nm,
     ch \<or> (\<exists>(nm, e) \<in> set (zip ns es). stored nm e))"
  using assms
proof (induction ns arbitrary: es m ch)
  case Nil
  then show ?case by simp
next
  case (Cons nm ns)
  then obtain e es' where es: "es = e # es'" "length es' = length ns" by (cases es) auto
  have nm: "nm \<in> set field_names" "nm \<notin> set ns" using Cons.prems by auto
  have u: "update_field (chars nm) (firmware_value e) (m, ch) = (if stored nm e then (m(nm := e), True) else (m, ch))"
    using update_field_known [OF nm(1), of "firmware_value e" m ch] nm(1)
    by (cases e) (auto simp: firmware_value_def stored_def acceptable_def)
  have none: "map_of (zip ns es') nm = None" using nm(2) by (auto simp: map_of_eq_None_iff dest: set_zip_leftD)
  show ?case
  proof (cases "stored nm e")
    case False
    then show ?thesis using Cons.IH [OF es(2), of m ch] Cons.prems u none es(1)
      by (auto simp: fun_eq_iff simp del: map_of_zip_is_None)
  next
    case True
    have "(\<lambda>x. case map_of (zip ns es') x of None \<Rightarrow> (m(nm := e)) x | Some w \<Rightarrow> if stored x w then w else (m(nm := e)) x) =
        (\<lambda>x. case map_of (zip (nm # ns) es) x of None \<Rightarrow> m x | Some w \<Rightarrow> if stored x w then w else m x)"
      using none True es(1) by (auto simp: fun_eq_iff split: option.split)
    then show ?thesis using Cons.IH [OF es(2), of "m(nm := e)" True] Cons.prems u True es(1) by (simp add: fun_upd_def)
  qed
qed

section \<open>Properties\<close>

text \<open>C15: What becomes of what is typed into the page. For any entries in the inputs of the form, with any bytes, whose encoded form is
  shorter than the limit of a body, the request of the browser, in any segments, is accepted whole, and each setting then holds
  the encoded entry, not the entry: the firmware does not decode. An entry is dropped, and the old string kept, when it is
  empty, when its first character is the digit zero, or when its encoding exceeds the limit the page gives for the
  input. So a stored entry is the one typed exactly when it consists of letters, digits and the marks
  that are not encoded.\<close>

theorem page_form_roundtrip:
  assumes "post_clean h" and "process_post_field_cb h = Some process_post_field"
    and "static_store_settings_flag h = Some b" and "unat ulen \<le> length uri" and "state_wf st"
    and "length vs = length (form_inputs page_lines)" and "concat cs = browser_body vs" and "length (concat cs) < MAX_POST_DATA_LEN"
  shows "\<exists>st' h'. post_request (int (length (concat cs))) cs uri ulen (st, h) = Inr (ERR_OK, st', h') \<and> state_wf st' \<and>
    (\<forall>i < length vs. let (nm, limit) = form_inputs page_lines ! i; v = vs ! i; e = url_encode v in
       if v = [] \<or> hd v = digit_zero \<or> limit < length e
       then fst (settings_view st') nm = fst (settings_view st) nm
       else fst (settings_view st') nm = e \<and> settings_changed st' \<and> (fst (settings_view st') nm = v \<longleftrightarrow> list_all plain_byte v))"
proof -
  let ?es = "map url_encode vs"
  let ?ps = "zip (map chars field_names) ?es"
  have n: "length vs = 8" "length field_names = 8" using assms(6) by (simp_all add: inputs_page field_names_def)
  have body: "concat cs = form_body ?ps" using assms(7) by (simp add: browser_body_eq)
  have names: "amp \<notin> set (chars nm) \<and> eq_sign \<notin> set (chars nm)" if "nm \<in> set field_names" for nm
    using that by (auto simp: field_names_def chars_def)
  have parts: "k \<in> chars ` set field_names" "v \<in> url_encode ` set vs" if "(k, v) \<in> set ?ps" for k v
    using set_zip_leftD [OF that] set_zip_rightD [OF that] by simp_all
  have "plain_pair (k, v)" if "(k, v) \<in> set ?ps" for k v
    using parts [OF that] names url_encode_clean by (auto simp: plain_pair_def)
  then have "list_all plain_pair ?ps" unfolding list_all_iff by (intro ballI) (metis surj_pair)
  then have pairs: "form_pairs (concat cs) = ?ps" using form_pairs_body body by simp
  have z: "0 \<notin> set (concat cs)" unfolding body
    using parts field_chars_no_zero url_encode_clean(1) by (intro zero_form_body) fast
  have v: "fold (\<lambda>(k, v). update_field k (firmware_value v)) (form_pairs (concat cs)) (settings_view st) =
    (\<lambda>nm. case map_of (zip field_names ?es) nm of None \<Rightarrow> fst (settings_view st) nm
       | Some e \<Rightarrow> if stored nm e then e else fst (settings_view st) nm,
     settings_changed st \<or> (\<exists>(nm, e) \<in> set (zip field_names ?es). stored nm e))"
    unfolding pairs using fold_update [of ?es field_names "fst (settings_view st)" "settings_changed st"] n distinct_field_names
    by (simp add: settings_view_def)
  from settings_form.post_refines [OF assms(1-4) z assms(8) _ assms(5), of "int (length (concat cs))"] assms(8) obtain st' h' where
    r: "post_request (int (length (concat cs))) cs uri ulen (st, h) = Inr (ERR_OK, st', h')" "state_wf st'"
      "settings_view st' = fold (\<lambda>(k, v). update_field k (firmware_value v)) (form_pairs (concat cs)) (settings_view st)" by auto
  have ch: "settings_changed st' = snd (settings_view st')" by (simp add: settings_view_def)
  have one: "let (nm, limit) = form_inputs page_lines ! i; v = vs ! i; e = url_encode v in
       if v = [] \<or> hd v = digit_zero \<or> limit < length e
       then fst (settings_view st') nm = fst (settings_view st) nm
       else fst (settings_view st') nm = e \<and> settings_changed st' \<and> (fst (settings_view st') nm = v \<longleftrightarrow> list_all plain_byte v)"
    if i: "i < length vs" for i
  proof -
    let ?nm = "field_names ! i" and ?e = "url_encode (vs ! i)"
    have at: "form_inputs page_lines ! i = (?nm, sizeof_member ?nm - 1)" "0 < sizeof_member ?nm"
      using i n by (auto simp: inputs_page field_names_def sizes less_Suc_eq numeral_eq_Suc)
    have "map_of (zip field_names ?es) ?nm = Some (?es ! i)" using i n distinct_field_names by (intro map_of_zip_nth) simp_all
    then have new: "fst (settings_view st') ?nm = (if stored ?nm ?e then ?e else fst (settings_view st) ?nm)" using i r(3) v by simp
    have "(?nm, ?e) \<in> set (zip field_names ?es)" using i n by (auto simp: set_zip)
    then have c: "stored ?nm ?e \<Longrightarrow> settings_changed st'" unfolding ch r(3) v by auto
    have "hd ?e = digit_zero \<longleftrightarrow> hd (vs ! i) = digit_zero" if "vs ! i \<noteq> []"
      using that by (cases "vs ! i") (auto simp: url_encode_def url_byte_def plain_byte_def)
    then have "stored ?nm ?e \<longleftrightarrow> \<not> (vs ! i = [] \<or> hd (vs ! i) = digit_zero \<or> sizeof_member ?nm - 1 < length ?e)"
      using at(2) by (auto simp: stored_def)
    then show ?thesis using new c url_encode_plain [of "vs ! i"] unfolding at(1) by (simp add: Let_def)
  qed
  then show ?thesis using r by blast
qed

section \<open>Sample run\<close>

definition demo_entries :: "bytes list" where
  "demo_entries = [chars ''home'', chars ''a=b c'', [], chars ''1884'', chars ''0x'', [], [], []]"

theorem page_form_roundtrip_witness:
  "\<exists>st' h'. post_request (int (length (browser_body demo_entries))) [browser_body demo_entries] (replicate 64 0) 64
      (demo_settings, demo_httpd) = Inr (ERR_OK, st', h') \<and>
    fst (settings_view st') ''wifi_ssid'' = chars ''home'' \<and> fst (settings_view st') ''wifi_pass'' = chars ''a%3Db+c'' \<and>
    fst (settings_view st') ''tls_mqtt_broker_CN'' = fst (settings_view demo_settings) ''tls_mqtt_broker_CN''"
proof -
  have l: "length demo_entries = length (form_inputs page_lines)" by (simp add: demo_entries_def inputs_page)
  have "length (concat [browser_body demo_entries]) < MAX_POST_DATA_LEN"
    unfolding browser_body_eq MAX_POST_DATA_LEN_def demo_entries_def by code_simp
  from page_form_roundtrip [OF demo_httpd_ok(1-3) _ demo_httpd_ok(4) l _ this, of 64 "replicate 64 0"]
  obtain st' h' where r: "post_request (int (length (browser_body demo_entries))) [browser_body demo_entries] (replicate 64 0) 64
      (demo_settings, demo_httpd) = Inr (ERR_OK, st', h')"
    "\<And>i. i < length demo_entries \<Longrightarrow> let (nm, limit) = form_inputs page_lines ! i; v = demo_entries ! i; e = url_encode v in
       if v = [] \<or> hd v = digit_zero \<or> limit < length e
       then fst (settings_view st') nm = fst (settings_view demo_settings) nm
       else fst (settings_view st') nm = e \<and> settings_changed st' \<and> (fst (settings_view st') nm = v \<longleftrightarrow> list_all plain_byte v)" by auto
  have "url_encode (demo_entries ! 0) = chars ''home''" "url_encode (demo_entries ! 1) = chars ''a%3Db+c''" "hd (demo_entries ! 4) = digit_zero"
    "hd (demo_entries ! 0) \<noteq> digit_zero" "hd (demo_entries ! 1) \<noteq> digit_zero" "demo_entries ! 0 \<noteq> []" "demo_entries ! 1 \<noteq> []"
    by code_simp+
  with r(2) [of 0] r(2) [of 1] r(2) [of 4] r(1) show ?thesis
    by (simp add: demo_entries_def inputs_page Let_def)
qed

end
