(* ===== verification/Tls_Build.thy ===== *)
theory Tls_Build
  imports Mqtt_Correct
begin

text \<open>
  What the build with \<open>ENABLE_TLS\<close> adds to \<open>src/tls_mqtt_client.c\<close>: the TLS configuration of the
  client, its place in the connect information, and its release. The functions that contain such a part are
  given in whole, with the parts they share taken from \<open>Mqtt_Client\<close>.

  Configurations belong to lwIP's \<open>altcp_tls\<close>; the state keeps the ones that exist. Whether that
  library accepts a null pointer when it is asked to release a configuration is an argument. The
  certificates are constants of \<open>src/crypto_consts.h\<close> that the repository only sketches, and arguments too.
\<close>

section \<open>Model\<close>

text \<open>The members \<open>client->tls_config\<close>, \<open>client->ci->tls_config\<close> and \<open>client->ci->server_name\<close>.\<close>

record tls_part =
  tls_config :: "nat option"
  info_tls_config :: "nat option"
  info_server_name :: "bytes option"
  configs :: "nat list"
  next_config :: nat

definition altcp_tls_free_config :: "bool \<Rightarrow> nat option \<Rightarrow> tls_part \<Rightarrow> tls_part ub" where
  "altcp_tls_free_config null_ok p tp =
    (case p of
       None \<Rightarrow> if null_ok then Inr tp else Inl Null_Deref
     | Some c \<Rightarrow> if c \<in> set (configs tp) then Inr (tp\<lparr>configs := removeAll c (configs tp)\<rparr>) else Inl Invalid_Free)"

definition altcp_tls_create_config :: "bool \<Rightarrow> tls_part \<Rightarrow> nat option \<times> tls_part" where
  "altcp_tls_create_config ok tp =
    (if ok then (Some (next_config tp), tp\<lparr>configs := next_config tp # configs tp, next_config := next_config tp + 1\<rparr>)
     else (None, tp))"

type_synonym certificates = "bytes \<times> bytes \<times> bytes"   \<comment> \<open>authority, key, client\<close>

definition tls_mqtt_reconfigure_tls_config ::
  "bool \<Rightarrow> bool \<Rightarrow> certificates \<Rightarrow> MQTT_CLIENT_T \<times> tls_part \<Rightarrow> (TLS_MQTT_RET \<times> MQTT_CLIENT_T \<times> tls_part \<times> mqtt_call list) ub" where
  "tls_mqtt_reconfigure_tls_config null_ok ok = (\<lambda>(ca_cert, client_key, client_cert) (state, tp).
    bindE (if tls_config tp \<noteq> None
           then bindE (altcp_tls_free_config null_ok (tls_config tp) tp) (\<lambda>tp'.
                  Inr (tp'\<lparr>tls_config := None\<rparr>, [Arch_Begin, Tls_Free_Config (tls_config tp), Arch_End]))
           else Inr (tp, [])) (\<lambda>(tp1, cs1).
    bindE (strlen ca_cert) (\<lambda>n1. bindE (strlen client_key) (\<lambda>n2. bindE (strlen client_cert) (\<lambda>n4.
      (let (r, tp2) = altcp_tls_create_config ok tp1;
           cs = cs1 @ [Arch_Begin, Tls_Create_Config (n1 + 1) (n2 + 1) 0 (n4 + 1), Arch_End];
           tp3 = tp2\<lparr>tls_config := r\<rparr>
       in if tls_config tp3 = None
          then Inr (TLS_MQTT_ERR_CERTS, state\<lparr>err_state := TLS_MQTT_ERR_CERTS\<rparr>, tp3, cs)
          else Inr (TLS_MQTT_OK, state\<lparr>err_state := TLS_MQTT_OK\<rparr>, tp3, cs)))))))"

definition tls_reconfigure_client ::
  "bool \<Rightarrow> MQTT_CLIENT_T \<times> tls_part \<Rightarrow> heap \<Rightarrow> (TLS_MQTT_RET \<times> MQTT_CLIENT_T \<times> tls_part \<times> heap) ub" where
  "tls_reconfigure_client ok = (\<lambda>(state, tp) h.
    bindE (tls_mqtt_reconfigure_client ok state h) (\<lambda>(ret, state', h').
      if ret = TLS_MQTT_OK
      then Inr (ret, state', tp\<lparr>info_server_name := Some (tls_mqtt_broker_CN (settings state)), info_tls_config := tls_config tp\<rparr>, h')
      else Inr (ret, state', tp, h')))"

text \<open>The block of the connect information goes with \<open>free(client->ci)\<close>.\<close>

definition tls_clean ::
  "bool \<Rightarrow> addr \<Rightarrow> MQTT_CLIENT_T \<times> tls_part \<Rightarrow> heap \<Rightarrow> (TopicState list \<times> mqtt_call list \<times> tls_part \<times> heap) ub" where
  "tls_clean null_ok self = (\<lambda>(client, tp) h.
    bindE (clean_sessions (topics_states client)) (\<lambda>ts.
    bindE (free (settings_ptr client) h) (\<lambda>h1.
    bindE (free (ptr_of (ci client)) h1) (\<lambda>h2.
    bindE (altcp_tls_free_config null_ok (tls_config tp) (tp\<lparr>info_tls_config := None, info_server_name := None\<rparr>)) (\<lambda>tp1.
    bindE (free (Heap self) h2) (\<lambda>h3.
      Inr (ts, [Arch_Begin, Mqtt_Client_Free, Arch_End, Arch_Begin, Tls_Free_Config (tls_config tp), Arch_End],
           tp1\<lparr>tls_config := None\<rparr>, h3)))))))"

definition tls_init_fail ::
  "bool \<Rightarrow> TLS_MQTT_RET \<Rightarrow> addr \<Rightarrow> MQTT_CLIENT_T \<times> tls_part \<Rightarrow> mqtt_call list \<Rightarrow> heap \<Rightarrow> (init_result \<times> tls_part) option ub" where
  "tls_init_fail null_ok ret self client cs h =
    bindE (tls_clean null_ok self client h) (\<lambda>(ts, cs', tp, h').
      Inr (Some (\<lparr> i_ret = ret, i_client = None, i_static = None, i_sessions = ts, i_calls = cs @ cs', i_heap = h' \<rparr>, tp)))"

text \<open>\<open>ok\<close>: \<open>altcp_tls_create_config_client_2wayauth\<close> accepts the certificates.\<close>

definition tls_init ::
  "bool \<Rightarrow> bool \<Rightarrow> certificates \<Rightarrow> init_env \<Rightarrow> ptr \<Rightarrow> tls_mqtt_settings \<Rightarrow> addr option \<Rightarrow> TopicState list \<Rightarrow> heap \<Rightarrow> tls_part \<Rightarrow>
     (init_result \<times> tls_part) option ub" where
  "tls_init null_ok ok certs env sp s static ts h tp0 =
    (let (r, h1) = malloc (ok_client env) Client_Block h in
     case r of
       None \<Rightarrow> Inr (Some (\<lparr> i_ret = TLS_MQTT_ERR_ALLOC, i_client = None, i_static = static,
                          i_sessions = ts, i_calls = [], i_heap = h1 \<rparr>, tp0))
     | Some self \<Rightarrow>
        (let client = \<lparr> ci = None, remote_addr = 0, mqtt_client = new_client env, topics_states = ts,
                        err_state = TLS_MQTT_OK, is_connected = False,
                        topic_incom_data = int TLS_MQTT_NUMBER_OF_TOPICS,
                        settings_ptr = sp, settings = s \<rparr>;
             tp = tp0\<lparr>tls_config := None, info_tls_config := None, info_server_name := None\<rparr>
         in if mqtt_client client = None
            then tls_init_fail null_ok TLS_MQTT_ERR_ALLOC self (client, tp) [] h1
            else (let (w, cs) = run_dns_lookup (gethost env) (dns_events env) client (tls_mqtt_broker_hostname s) in
              case w of
                None \<Rightarrow> Inr None
              | Some client1 \<Rightarrow>
                 if err_state client1 \<noteq> TLS_MQTT_OK
                 then tls_init_fail null_ok (err_state client1) self (client1, tp) cs h1
                 else bindE (tls_mqtt_reconfigure_tls_config null_ok ok certs (client1, tp)) (\<lambda>(ret, client2, tp2, cs2).
                   if ret \<noteq> TLS_MQTT_OK then tls_init_fail null_ok ret self (client2, tp2) (cs @ cs2) h1
                   else bindE (tls_reconfigure_client (ok_ci env) (client2, tp2) h1) (\<lambda>(ret, client3, tp3, h2).
                     if ret \<noteq> TLS_MQTT_OK
                     then tls_init_fail null_ok ret self (client3\<lparr>err_state := ret\<rparr>, tp3) (cs @ cs2) h2
                     else Inr (Some (\<lparr> i_ret = TLS_MQTT_OK, i_client = Some (self, client3), i_static = Some self,
                                     i_sessions = topics_states client3, i_calls = cs @ cs2, i_heap = h2 \<rparr>, tp3)))))))"

section \<open>Ownership\<close>

text \<open>The configurations that exist are exactly the one the client holds.\<close>

definition tls_owned :: "tls_part \<Rightarrow> bool" where
  "tls_owned tp \<longleftrightarrow> configs tp = (case tls_config tp of None \<Rightarrow> [] | Some c \<Rightarrow> [c]) \<and> (\<forall>c \<in> set (configs tp). c < next_config tp)"

definition terminated :: "certificates \<Rightarrow> bool" where
  "terminated = (\<lambda>(a, b, c). 0 \<in> set a \<and> 0 \<in> set b \<and> 0 \<in> set c)"

lemma strlen_terminated: "0 \<in> set b \<Longrightarrow> \<exists>n. strlen b = Inr n"
  by (simp add: strlen_def c_str_def)

lemma reconfigure_ok:
  assumes "tls_owned tp" "terminated certs"
  shows "\<exists>tp' n1 n2 n4. tls_mqtt_reconfigure_tls_config null_ok ok certs (cl, tp) =
      Inr (if ok then TLS_MQTT_OK else TLS_MQTT_ERR_CERTS, cl\<lparr>err_state := if ok then TLS_MQTT_OK else TLS_MQTT_ERR_CERTS\<rparr>, tp',
        (if tls_config tp = None then [] else [Arch_Begin, Tls_Free_Config (tls_config tp), Arch_End]) @
        [Arch_Begin, Tls_Create_Config n1 n2 0 n4, Arch_End]) \<and>
    tls_owned tp' \<and> tls_config tp' = (if ok then Some (next_config tp) else None) \<and>
    info_tls_config tp' = info_tls_config tp \<and> info_server_name tp' = info_server_name tp"
proof -
  obtain ca key cert where certs: "certs = (ca, key, cert)" by (cases certs)
  obtain n1 n2 n3 where "strlen ca = Inr n1" "strlen key = Inr n2" "strlen cert = Inr n3"
    using assms(2) certs strlen_terminated [of ca] strlen_terminated [of key] strlen_terminated [of cert]
    by (auto simp: terminated_def)
  then show ?thesis using assms(1) certs
    by (cases "tls_config tp") (auto simp: tls_mqtt_reconfigure_tls_config_def altcp_tls_free_config_def altcp_tls_create_config_def tls_owned_def Let_def)
qed

text \<open>The clean-up is that of the plain build with one more call, and leaves no configuration.\<close>

lemma tls_clean_erase:
  assumes "tls_owned tp" "null_ok \<or> tls_config tp \<noteq> None"
  shows "\<exists>tp'. configs tp' = [] \<and> tls_config tp' = None \<and>
    tls_clean null_ok self (cl, tp) h = bindE (tls_mqtt_clean self cl h) (\<lambda>(ts, cs, h').
      Inr (ts, cs @ [Arch_Begin, Tls_Free_Config (tls_config tp), Arch_End], tp', h'))"
proof -
  have "\<exists>tp1. altcp_tls_free_config null_ok (tls_config tp) (tp\<lparr>info_tls_config := None, info_server_name := None\<rparr>) = Inr tp1 \<and> configs tp1 = []"
    using assms by (auto simp: altcp_tls_free_config_def tls_owned_def split: option.splits)
  then obtain tp1 where "altcp_tls_free_config null_ok (tls_config tp) (tp\<lparr>info_tls_config := None, info_server_name := None\<rparr>) = Inr tp1"
    "configs tp1 = []" by blast
  then show ?thesis
    by (intro exI [of _ "tp1\<lparr>tls_config := None\<rparr>"]) (simp add: tls_clean_def tls_mqtt_clean_def bindE_assoc)
qed

lemma tls_init_fail_erase:
  assumes "tls_owned tp" "null_ok \<or> tls_config tp \<noteq> None"
  shows "\<exists>tp'. configs tp' = [] \<and>
    tls_init_fail null_ok ret self (cl, tp) cs' h = bindE (init_fail ret self cl cs h) (\<lambda>x.
      Inr (Some (x\<lparr>i_calls := cs' @ [Arch_Begin, Mqtt_Client_Free, Arch_End, Arch_Begin, Tls_Free_Config (tls_config tp), Arch_End]\<rparr>, tp'))) \<and>
    (\<forall>x. init_fail ret self cl cs h = Inr x \<longrightarrow> i_calls x = cs @ [Arch_Begin, Mqtt_Client_Free, Arch_End])"
proof -
  from tls_clean_erase [OF assms] obtain tp' where "configs tp' = []"
    "tls_clean null_ok self (cl, tp) h = bindE (tls_mqtt_clean self cl h) (\<lambda>(ts, cs, h').
      Inr (ts, cs @ [Arch_Begin, Tls_Free_Config (tls_config tp), Arch_End], tp', h'))" by blast
  moreover have "tls_mqtt_clean self cl h = Inr (ts, cs, h') \<Longrightarrow> cs = [Arch_Begin, Mqtt_Client_Free, Arch_End]" for ts cs h'
    by (auto simp: tls_mqtt_clean_def)
  ultimately show ?thesis
    by (intro exI [of _ tp']) (cases "tls_mqtt_clean self cl h"; auto simp: tls_init_fail_def init_fail_def split: prod.splits)
qed

text \<open>The calls apart from those to \<open>altcp_tls\<close>, which go together with the network lock around each.\<close>

fun tls_call :: "mqtt_call \<Rightarrow> bool" where
  "tls_call (Tls_Free_Config p) = True"
| "tls_call (Tls_Create_Config n1 n2 n3 n4) = True"
| "tls_call _ = False"

fun plain_calls :: "mqtt_call list \<Rightarrow> mqtt_call list" where
  "plain_calls (a # b # c # cs) =
    (if a = Arch_Begin \<and> tls_call b \<and> c = Arch_End then plain_calls cs else a # plain_calls (b # c # cs))"
| "plain_calls cs = cs"

text \<open>What a finished initialisation owes: the one configuration of the client, named in the
  connect information together with the broker's name, when it succeeds, and none otherwise.\<close>

definition tls_settled :: "tls_mqtt_settings \<Rightarrow> init_result \<Rightarrow> tls_part \<Rightarrow> bool" where
  "tls_settled s res tp \<longleftrightarrow>
    (if i_ret res = TLS_MQTT_OK
     then tls_owned tp \<and> tls_config tp \<noteq> None \<and> info_tls_config tp = tls_config tp \<and> info_server_name tp = Some (tls_mqtt_broker_CN s)
     else configs tp = [])"

lemma run_dns_settings:
  "run_dns_lookup g es cl host = (Some cl1, cs) \<Longrightarrow> settings cl1 = settings cl"
proof -
  have "dns_wait es cl = Some cl1 \<Longrightarrow> settings cl1 = settings cl" for es cl
    by (induction es arbitrary: cl) (auto simp: dns_found_cb_def split: if_splits option.splits)
  then show "run_dns_lookup g es cl host = (Some cl1, cs) \<Longrightarrow> settings cl1 = settings cl"
    by (fastforce simp: run_dns_lookup_def Let_def split: prod.splits if_splits)
qed

lemma reconfigure_client_ret:
  "tls_mqtt_reconfigure_client ok cl h = Inr (ret, cl', h') \<Longrightarrow> ret = (if ok then TLS_MQTT_OK else TLS_MQTT_ERR_ALLOC)"
  by (auto simp: tls_mqtt_reconfigure_client_def malloc_def Let_def split: if_splits)

lemma init_fail_ret: "init_fail ret self cl cs h = Inr res \<Longrightarrow> i_ret res = ret"
  by (auto simp: init_fail_def split: prod.splits)

text \<open>The relation of the two builds: the same fault, or the same wait for a name, or the same result up to calls to \<open>altcp_tls\<close>, every
  call made inside the network lock.\<close>

definition tls_refines ::
  "tls_mqtt_settings \<Rightarrow> (init_result \<times> tls_part) option ub \<Rightarrow> init_result option ub \<Rightarrow> bool" where
  "tls_refines s t p \<longleftrightarrow>
    (case p of
       Inl f \<Rightarrow> t = Inl f
     | Inr None \<Rightarrow> t = Inr None
     | Inr (Some res) \<Rightarrow>
        (\<exists>cs tp. t = Inr (Some (res\<lparr>i_calls := cs\<rparr>, tp)) \<and> plain_calls cs = i_calls res \<and> bracketed False cs \<and> tls_settled s res tp))"

text \<open>What the calls before a failure, or before the end, may be: looking up the name, and creating a configuration.\<close>

definition before_client :: "mqtt_call list \<Rightarrow> mqtt_call list \<Rightarrow> bool" where
  "before_client cs' cs \<longleftrightarrow> (cs = [] \<or> (\<exists>host. cs = [Arch_Begin, Dns_Gethostbyname host, Arch_End])) \<and>
     (cs' = cs \<or> (\<exists>n1 n2 n4. cs' = cs @ [Arch_Begin, Tls_Create_Config n1 n2 0 n4, Arch_End]))"

lemma before_client_calls:
  assumes "before_client cs' cs"
  shows "plain_calls cs' = cs" "bracketed False cs'"
    "plain_calls (cs' @ [Arch_Begin, Mqtt_Client_Free, Arch_End, Arch_Begin, Tls_Free_Config p, Arch_End]) = cs @ [Arch_Begin, Mqtt_Client_Free, Arch_End]"
    "bracketed False (cs' @ [Arch_Begin, Mqtt_Client_Free, Arch_End, Arch_Begin, Tls_Free_Config p, Arch_End])"
  using assms by (auto simp: before_client_def)

lemma tls_refines_fail:
  assumes "tls_owned tp" "null_ok \<or> tls_config tp \<noteq> None" "ret \<noteq> TLS_MQTT_OK" "before_client cs' cs"
  shows "tls_refines s (tls_init_fail null_ok ret self (cl, tp) cs' h) (bindE (init_fail ret self cl cs h) (\<lambda>x. Inr (Some x)))"
proof -
  obtain tp' where t: "configs tp' = []"
    "tls_init_fail null_ok ret self (cl, tp) cs' h = bindE (init_fail ret self cl cs h) (\<lambda>x.
      Inr (Some (x\<lparr>i_calls := cs' @ [Arch_Begin, Mqtt_Client_Free, Arch_End, Arch_Begin, Tls_Free_Config (tls_config tp), Arch_End]\<rparr>, tp')))"
    "\<forall>x. init_fail ret self cl cs h = Inr x \<longrightarrow> i_calls x = cs @ [Arch_Begin, Mqtt_Client_Free, Arch_End]"
    using tls_init_fail_erase [OF assms(1,2)] by blast
  show ?thesis
  proof (cases "init_fail ret self cl cs h")
    case (Inr x)
    have "tls_settled s x tp'" using init_fail_ret [OF Inr] assms(3) t(1) by (simp add: tls_settled_def)
    then show ?thesis using Inr t before_client_calls [OF assms(4)] unfolding tls_refines_def by auto
  qed (simp add: t(2) tls_refines_def)
qed

lemma tls_refines_configured:
  assumes "tls_owned tp" "tls_config tp \<noteq> None" "settings cl = s" "before_client cs' cs"
  shows "tls_refines s
    (bindE (tls_reconfigure_client ok (cl, tp) h) (\<lambda>(ret, cl3, tp3, h2).
       if ret \<noteq> TLS_MQTT_OK then tls_init_fail null_ok ret self (cl3\<lparr>err_state := ret\<rparr>, tp3) cs' h2
       else Inr (Some (\<lparr> i_ret = TLS_MQTT_OK, i_client = Some (self, cl3), i_static = Some self,
                       i_sessions = topics_states cl3, i_calls = cs', i_heap = h2 \<rparr>, tp3))))
    (bindE (tls_mqtt_reconfigure_client ok cl h) (\<lambda>(ret, cl3, h2).
       if ret \<noteq> TLS_MQTT_OK then bindE (init_fail ret self (cl3\<lparr>err_state := ret\<rparr>) cs h2) (\<lambda>x. Inr (Some x))
       else Inr (Some \<lparr> i_ret = TLS_MQTT_OK, i_client = Some (self, cl3), i_static = Some self,
                       i_sessions = topics_states cl3, i_calls = cs, i_heap = h2 \<rparr>)))"
proof (cases "tls_mqtt_reconfigure_client ok cl h")
  case (Inl f)
  then show ?thesis by (simp add: tls_refines_def tls_reconfigure_client_def)
next
  case (Inr x)
  then obtain ret cl3 h2 where r: "tls_mqtt_reconfigure_client ok cl h = Inr (ret, cl3, h2)" by (cases x) auto
  show ?thesis
  proof (cases "ret = TLS_MQTT_OK")
    case True
    then show ?thesis using r assms before_client_calls [OF assms(4)]
      by (auto simp: tls_refines_def tls_reconfigure_client_def tls_settled_def tls_owned_def)
  next
    case False
    then show ?thesis using r tls_refines_fail [OF assms(1) _ False assms(4)] assms(2)
      by (simp add: tls_reconfigure_client_def)
  qed
qed

text \<open>The object, the heap and the TLS members after the first assignments of the initialisation.\<close>

definition fresh_client :: "init_env \<Rightarrow> ptr \<Rightarrow> tls_mqtt_settings \<Rightarrow> TopicState list \<Rightarrow> MQTT_CLIENT_T" where
  "fresh_client env sp s ts = \<lparr> ci = None, remote_addr = 0, mqtt_client = new_client env, topics_states = ts,
      err_state = TLS_MQTT_OK, is_connected = False, topic_incom_data = int TLS_MQTT_NUMBER_OF_TOPICS,
      settings_ptr = sp, settings = s \<rparr>"

definition client_heap :: "heap \<Rightarrow> heap" where
  "client_heap h = h\<lparr>cells := (cells h)(brk h \<mapsto> Client_Block), brk := brk h + 1\<rparr>"

definition unconfigured :: "tls_part \<Rightarrow> tls_part" where
  "unconfigured tp = tp\<lparr>tls_config := None, info_tls_config := None, info_server_name := None\<rparr>"

lemma plain_init:
  assumes "ok_client env"
    and "run_dns_lookup (gethost env) (dns_events env) (fresh_client env sp s ts) (tls_mqtt_broker_hostname s) = (w, cs)"
  shows "tls_mqtt_init env sp s static ts h =
      (if new_client env = None then bindE (init_fail TLS_MQTT_ERR_ALLOC (brk h) (fresh_client env sp s ts) [] (client_heap h)) (\<lambda>x. Inr (Some x))
       else case w of None \<Rightarrow> Inr None
         | Some cl1 \<Rightarrow>
            if err_state cl1 \<noteq> TLS_MQTT_OK then bindE (init_fail (err_state cl1) (brk h) cl1 cs (client_heap h)) (\<lambda>x. Inr (Some x))
            else bindE (tls_mqtt_reconfigure_client (ok_ci env) cl1 (client_heap h)) (\<lambda>(ret, cl3, h2).
              if ret \<noteq> TLS_MQTT_OK then bindE (init_fail ret (brk h) (cl3\<lparr>err_state := ret\<rparr>) cs h2) (\<lambda>x. Inr (Some x))
              else Inr (Some \<lparr> i_ret = TLS_MQTT_OK, i_client = Some (brk h, cl3), i_static = Some (brk h),
                       i_sessions = topics_states cl3, i_calls = cs, i_heap = h2 \<rparr>)))"
  using assms unfolding tls_mqtt_init_def malloc_def fresh_client_def client_heap_def by (simp add: Let_def split: option.split)

lemma tls_init_stages:
  assumes "ok_client env"
    and "run_dns_lookup (gethost env) (dns_events env) (fresh_client env sp s ts) (tls_mqtt_broker_hostname s) = (w, cs)"
  shows "tls_init null_ok ok certs env sp s static ts h tp0 =
      (if new_client env = None then tls_init_fail null_ok TLS_MQTT_ERR_ALLOC (brk h) (fresh_client env sp s ts, unconfigured tp0) [] (client_heap h)
       else case w of None \<Rightarrow> Inr None
         | Some cl1 \<Rightarrow>
            if err_state cl1 \<noteq> TLS_MQTT_OK then tls_init_fail null_ok (err_state cl1) (brk h) (cl1, unconfigured tp0) cs (client_heap h)
            else bindE (tls_mqtt_reconfigure_tls_config null_ok ok certs (cl1, unconfigured tp0)) (\<lambda>(ret, cl2, tp2, cs2).
              if ret \<noteq> TLS_MQTT_OK then tls_init_fail null_ok ret (brk h) (cl2, tp2) (cs @ cs2) (client_heap h)
              else bindE (tls_reconfigure_client (ok_ci env) (cl2, tp2) (client_heap h)) (\<lambda>(ret, cl3, tp3, h2).
                if ret \<noteq> TLS_MQTT_OK then tls_init_fail null_ok ret (brk h) (cl3\<lparr>err_state := ret\<rparr>, tp3) (cs @ cs2) h2
                else Inr (Some (\<lparr> i_ret = TLS_MQTT_OK, i_client = Some (brk h, cl3), i_static = Some (brk h),
                       i_sessions = topics_states cl3, i_calls = cs @ cs2, i_heap = h2 \<rparr>, tp3)))))"
  using assms unfolding tls_init_def malloc_def fresh_client_def client_heap_def unconfigured_def by (simp add: Let_def cong: if_cong split: option.split)

text \<open>C35: With accepted certificates, the TLS build initialises exactly as the plain one, with the configuration accounted for. The
  client object, its connect information, the heap and the status are those of the plain build, faults and unanswered lookups
  included; the calls are those of the plain build in the same order, with only calls to \<open>altcp_tls\<close>
  in between, each inside the network lock of its own. A successful
  initialisation leaves exactly one configuration, which the client and its connect information name, together with the broker's name
  for the server indication; a failed one leaves none. A failure before the configuration exists releases a null
  pointer: the equality therefore needs a library that accepts one, or a client object and an answered
  lookup, so that no such failure occurs (\<open>tls_bad_certificates\<close> shows what happens otherwise).\<close>

theorem tls_init_refines:
  assumes "configs tp0 = []" "terminated certs"
    and "null_ok \<or> new_client env \<noteq> None \<and> (\<exists>a. lookup_gives env a)"
  shows "tls_refines s (tls_init null_ok True certs env sp s static ts h tp0) (tls_mqtt_init env sp s static ts h)"
proof (cases "ok_client env")
  case False
  then show ?thesis using assms(1)
    by (auto simp: tls_refines_def tls_init_def tls_mqtt_init_def malloc_def tls_settled_def intro: exI [of _ "[]"])
next
  case True
  define h1 where "h1 = client_heap h"
  define cl where "cl = fresh_client env sp s ts"
  define tp where "tp = unconfigured tp0"
  have own: "tls_owned tp" using assms(1) by (simp add: tp_def unconfigured_def tls_owned_def)
  have cl: "mqtt_client cl = new_client env" "settings cl = s" "remote_addr cl = 0" "err_state cl = TLS_MQTT_OK" by (simp_all add: cl_def fresh_client_def)
  obtain w cs where w: "run_dns_lookup (gethost env) (dns_events env) cl (tls_mqtt_broker_hostname s) = (w, cs)"
    by (cases "run_dns_lookup (gethost env) (dns_events env) cl (tls_mqtt_broker_hostname s)")
  have before: "before_client [] []" "before_client cs cs" "before_client (cs @ [Arch_Begin, Tls_Create_Config n1 n2 0 n4, Arch_End]) cs" for n1 n2 n4
    using w by (auto simp: before_client_def run_dns_lookup_def Let_def split: prod.splits)
  note plain = plain_init [where h = h, OF True w [unfolded cl_def], folded cl_def h1_def]
  note tls = tls_init_stages [where h = h and ?tp0.0 = tp0, OF True w [unfolded cl_def], folded cl_def h1_def tp_def]
  consider "new_client env = None" | c where "new_client env = Some c" "w = None"
    | c cl1 where "new_client env = Some c" "w = Some cl1" "err_state cl1 \<noteq> TLS_MQTT_OK"
    | c cl1 where "new_client env = Some c" "w = Some cl1" "err_state cl1 = TLS_MQTT_OK" by blast
  then show ?thesis
  proof cases
    case 1
    then show ?thesis using tls_refines_fail [OF own _ _ before(1)] assms(3) by (simp add: plain tls)
  next
    case 2
    then show ?thesis using w by (simp add: plain tls tls_refines_def)
  next
    case (3 c cl1)
    have null_ok
    proof (rule ccontr)
      assume "\<not> null_ok"
      then obtain a where "lookup_gives env a" using assms(3) by blast
      from lookup_gives_run [OF this cl(3,4), of "tls_mqtt_broker_hostname s"] 3 w cl(4) show False by auto
    qed
    then show ?thesis using 3 w tls_refines_fail [OF own _ _ before(2)] by (simp add: plain tls)
  next
    case (4 c cl1)
    have "tls_config tp = None" by (simp add: tp_def unconfigured_def)
    then obtain tp' n1 n2 n4 where r: "tls_mqtt_reconfigure_tls_config null_ok True certs (cl1, tp) =
        Inr (TLS_MQTT_OK, cl1\<lparr>err_state := TLS_MQTT_OK\<rparr>, tp', [Arch_Begin, Tls_Create_Config n1 n2 0 n4, Arch_End])"
      "tls_owned tp'" "tls_config tp' \<noteq> None"
      using reconfigure_ok [OF own assms(2), of null_ok True cl1] by auto
    have cl1: "cl1\<lparr>err_state := TLS_MQTT_OK\<rparr> = cl1" using 4 by (cases cl1) simp
    have "settings cl1 = s" using 4 w run_dns_settings cl(2) by simp
    then show ?thesis using 4 w r(1) [unfolded cl1] tls_refines_configured [OF r(2,3) _ before(3), of cl1 s] by (simp add: plain tls)
  qed
qed

text \<open>Certificates that the library rejects stop the initialisation after the name is resolved. With the settings in a heap
  block and a library that accepts a null pointer the status says so and every block is given back; with a
  library that does not, the clean-up dereferences null; with the static settings the firmware
  passes, it frees an object that was never allocated.\<close>

theorem tls_bad_certificates:
  assumes "configs tp0 = []" "terminated certs" "ok_client env" "new_client env = Some c" "lookup_gives env a"
    and "heap_wf h" "cells h b \<noteq> None" "\<forall>t \<in> set ts. topic_buffer t \<noteq> []"
  shows "tls_init null_ok False certs env Static s static ts h tp0 = Inl Invalid_Free \<and>
    tls_init False False certs env (Heap b) s static ts h tp0 = Inl Null_Deref \<and>
    (\<exists>res tp. tls_init True False certs env (Heap b) s static ts h tp0 = Inr (Some (res, tp)) \<and>
      i_ret res = TLS_MQTT_ERR_CERTS \<and> i_client res = None \<and> cells (i_heap res) = (cells h)(b := None) \<and> configs tp = [])"
proof (intro conjI)
  have own: "tls_owned (unconfigured tp0)" using assms(1) by (simp add: unconfigured_def tls_owned_def)
  have fr: "cells h (brk h) = None" "b \<noteq> brk h" using assms(6,7) by (auto simp: heap_wf_def)
  have *: "\<exists>cl cs tp. topics_states cl = ts \<and> settings_ptr cl = sp \<and> ci cl = None \<and> tls_owned tp \<and> tls_config tp = None \<and>
      tls_init null_ok False certs env sp s static ts h tp0 = tls_init_fail null_ok TLS_MQTT_ERR_CERTS (brk h) (cl, tp) cs (client_heap h)"
    for sp null_ok
  proof -
    let ?cl = "fresh_client env sp s ts"
    have cl: "remote_addr ?cl = 0" "err_state ?cl = TLS_MQTT_OK" "topics_states ?cl = ts" "settings_ptr ?cl = sp" "ci ?cl = None"
      by (simp_all add: fresh_client_def)
    obtain cs where w: "run_dns_lookup (gethost env) (dns_events env) ?cl (tls_mqtt_broker_hostname s) = (Some (?cl\<lparr>remote_addr := a\<rparr>), cs)"
      using lookup_gives_run [OF assms(5) cl(1,2)] by blast
    obtain tp' cs2 where "tls_mqtt_reconfigure_tls_config null_ok False certs (?cl\<lparr>remote_addr := a\<rparr>, unconfigured tp0) =
        Inr (TLS_MQTT_ERR_CERTS, ?cl\<lparr>remote_addr := a, err_state := TLS_MQTT_ERR_CERTS\<rparr>, tp', cs2)" "tls_owned tp'" "tls_config tp' = None"
      using reconfigure_ok [OF own assms(2), of null_ok False "?cl\<lparr>remote_addr := a\<rparr>"] by auto
    then show ?thesis using cl assms(4) tls_init_stages [OF assms(3) w, of null_ok False certs static h tp0]
      by (intro exI [of _ "?cl\<lparr>remote_addr := a, err_state := TLS_MQTT_ERR_CERTS\<rparr>"] exI [of _ "cs @ cs2"] exI [of _ tp']) simp
  qed
  show "tls_init null_ok False certs env Static s static ts h tp0 = Inl Invalid_Free"
    using * [of Static null_ok] clean_sessions_total [OF assms(8)] by (auto simp: tls_init_fail_def tls_clean_def)
  show "tls_init False False certs env (Heap b) s static ts h tp0 = Inl Null_Deref"
    using * [of "Heap b" False] clean_sessions_total [OF assms(8)] assms(7) fr
    by (auto simp: tls_init_fail_def tls_clean_def altcp_tls_free_config_def client_heap_def)
  from * [of "Heap b" True] obtain cl cs tp where f: "topics_states cl = ts" "settings_ptr cl = Heap b" "ci cl = None" "tls_owned tp"
    "tls_init True False certs env (Heap b) s static ts h tp0 = tls_init_fail True TLS_MQTT_ERR_CERTS (brk h) (cl, tp) cs (client_heap h)" by blast
  obtain ts' where "tls_mqtt_clean (brk h) cl (client_heap h) = Inr (ts', [Arch_Begin, Mqtt_Client_Free, Arch_End],
      (client_heap h)\<lparr>cells := (cells (client_heap h))(b := None, brk h := None)\<rparr>)"
    using clean_heap [of cl b "client_heap h" "brk h"] f assms(7,8) fr by (auto simp: client_heap_def)
  then show "\<exists>res tp. tls_init True False certs env (Heap b) s static ts h tp0 = Inr (Some (res, tp)) \<and>
      i_ret res = TLS_MQTT_ERR_CERTS \<and> i_client res = None \<and> cells (i_heap res) = (cells h)(b := None) \<and> configs tp = []"
    using tls_init_fail_erase [OF f(4), of True TLS_MQTT_ERR_CERTS "brk h" cl cs "client_heap h" "[]"] f(5) fr
    by (auto simp: init_fail_def client_heap_def fun_eq_iff)
qed

text \<open>Exchanging the certificates of a running client leaves its connect information behind: the old configuration is
  released while the connect information still names it, and nothing updates it before the next connection.\<close>

theorem tls_reconfigure_dangles:
  assumes "tls_settled s res tp" "i_ret res = TLS_MQTT_OK" "terminated certs"
  shows "\<exists>c cl' tp' cs. tls_mqtt_reconfigure_tls_config null_ok ok certs (cl, tp) =
      Inr (if ok then TLS_MQTT_OK else TLS_MQTT_ERR_CERTS, cl', tp', cs) \<and> info_tls_config tp' = Some c \<and> c \<notin> set (configs tp')"
proof -
  obtain c where "tls_config tp = Some c" "info_tls_config tp = Some c" "c < next_config tp" "tls_owned tp"
    using assms(1,2) by (auto simp: tls_settled_def tls_owned_def)
  then show ?thesis using reconfigure_ok [of tp certs null_ok ok cl] assms(3) by (auto simp: tls_owned_def)
qed

section \<open>Sample runs\<close>

definition demo_tls :: tls_part where
  "demo_tls = \<lparr> tls_config = None, info_tls_config = None, info_server_name = None, configs = [], next_config = 4 \<rparr>"

definition demo_certs :: certificates where
  "demo_certs = ([1, 0], [2, 0], [3, 0])"

lemma demo_tls_ok: "configs demo_tls = []" "terminated demo_certs"
  by (simp_all add: demo_tls_def demo_certs_def terminated_def)

theorem tls_init_refines_witness:
  "tls_refines default_settings (tls_init False True demo_certs (demo_init_env True) Static default_settings None topics_sessions demo_heap demo_tls)
     (tls_mqtt_init (demo_init_env True) Static default_settings None topics_sessions demo_heap)"
proof -
  have "new_client (demo_init_env True) \<noteq> None \<and> (\<exists>a. lookup_gives (demo_init_env True) a)"
    using demo_init(2) by (auto simp: demo_init_env_def)
  with tls_init_refines [OF demo_tls_ok] show ?thesis by blast
qed

theorem tls_bad_certificates_witness:
  "tls_init True False demo_certs (demo_init_env True) Static default_settings None topics_sessions demo_heap demo_tls = Inl Invalid_Free"
proof -
  have e: "ok_client (demo_init_env True)" "new_client (demo_init_env True) = Some 1" by (simp_all add: demo_init_env_def)
  have "cells demo_heap 1 \<noteq> None" by (simp add: demo_heap_def)
  from tls_bad_certificates [OF demo_tls_ok e demo_init(2) demo_heap_wf this, of topics_sessions] demo_sessions show ?thesis by blast
qed

end
