(* ===== verification/Pio.thy ===== *)
theory Pio
  imports Pico_Prelude
begin

text \<open>
  The programmable I/O state machines of the RP2040, for the instructions that \<open>src/dht_pio/dht.pio\<close> and
  \<open>src/ds18b20_pio/onewire_library/onewire_library.pio\<close> use. A state machine executes one cycle at
  a time on the levels of the pins in that cycle (bit 0 is the pin the configuration starts at). Both programs
  drive their pin by its direction only: the output value is low, so an output pin pulls the line low and an input
  pin releases it.
\<close>

section \<open>Instructions and state\<close>

datatype pio_cond = Always | If_Not_X | If_X_Dec | If_Y_Dec | If_Pin

datatype pio_reg = Reg_X | Reg_Y | Reg_Isr | Reg_Osr | Reg_Pins | Reg_Null | Reg_Pindirs

datatype pio_instr =
    I_Jmp pio_cond nat
  | I_Set pio_reg u32
  | I_Mov pio_reg pio_reg
  | I_In pio_reg nat
  | I_Out pio_reg nat
  | I_Push

text \<open>An instruction with its side-set of the pin direction and its delay.\<close>

type_synonym pio_program = "(pio_instr \<times> bool option \<times> nat) list"

record pio_config =
  c_wrap_target :: nat
  c_wrap :: nat
  c_in_right :: bool
  c_push_threshold :: nat
  c_pull_threshold :: nat

record pio_sm =
  p_pc :: nat
  p_x :: u32
  p_y :: u32
  p_isr :: u32
  p_icount :: nat
  p_osr :: u32
  p_ocount :: nat
  p_delay :: nat
  p_low :: bool           \<comment> \<open>the pin is an output\<close>
  p_tx :: "u32 list"
  p_rx :: "u32 list"

definition PIO_FIFO_DEPTH :: nat where "PIO_FIFO_DEPTH = 4"

section \<open>Execution\<close>

definition pio_next :: "pio_config \<Rightarrow> pio_sm \<Rightarrow> nat" where
  "pio_next c s = (if p_pc s = c_wrap c then c_wrap_target c else p_pc s + 1)"

fun pio_read :: "pio_reg \<Rightarrow> u32 \<Rightarrow> pio_sm \<Rightarrow> u32" where
  "pio_read Reg_X pins s = p_x s"
| "pio_read Reg_Y pins s = p_y s"
| "pio_read Reg_Isr pins s = p_isr s"
| "pio_read Reg_Osr pins s = p_osr s"
| "pio_read Reg_Pins pins s = pins"
| "pio_read _ pins s = 0"

text \<open>Writing the input shift register empties its bit counter, writing the output shift register makes it full.\<close>

fun pio_write :: "pio_reg \<Rightarrow> u32 \<Rightarrow> pio_sm \<Rightarrow> pio_sm" where
  "pio_write Reg_X v s = s\<lparr>p_x := v\<rparr>"
| "pio_write Reg_Y v s = s\<lparr>p_y := v\<rparr>"
| "pio_write Reg_Isr v s = s\<lparr>p_isr := v, p_icount := 0\<rparr>"
| "pio_write Reg_Osr v s = s\<lparr>p_osr := v, p_ocount := 0\<rparr>"
| "pio_write Reg_Pindirs v s = s\<lparr>p_low := bit v 0\<rparr>"
| "pio_write _ v s = s"

definition pio_shift_in :: "bool \<Rightarrow> nat \<Rightarrow> u32 \<Rightarrow> u32 \<Rightarrow> u32" where
  "pio_shift_in right n v isr =
    (if right then drop_bit n isr OR push_bit (32 - n) (take_bit n v) else push_bit n isr OR take_bit n v)"

text \<open>The condition of a jump, and the counters it decrements whether it jumps or not.\<close>

fun pio_jump :: "pio_cond \<Rightarrow> u32 \<Rightarrow> pio_sm \<Rightarrow> bool \<times> pio_sm" where
  "pio_jump Always pins s = (True, s)"
| "pio_jump If_Not_X pins s = (p_x s = 0, s)"
| "pio_jump If_X_Dec pins s = (p_x s \<noteq> 0, s\<lparr>p_x := p_x s - 1\<rparr>)"
| "pio_jump If_Y_Dec pins s = (p_y s \<noteq> 0, s\<lparr>p_y := p_y s - 1\<rparr>)"
| "pio_jump If_Pin pins s = (bit pins 0, s)"

text \<open>One instruction; \<open>None\<close> when it stalls on a queue. Pushing and pulling happen automatically at
  the thresholds.\<close>

fun pio_exec :: "pio_config \<Rightarrow> u32 \<Rightarrow> pio_instr \<Rightarrow> pio_sm \<Rightarrow> pio_sm option" where
  "pio_exec c pins (I_Jmp cond a) s =
    (let (jump, s1) = pio_jump cond pins s in Some (s1\<lparr>p_pc := if jump then a else pio_next c s\<rparr>))"
| "pio_exec c pins (I_Set r v) s = Some (pio_write r v s\<lparr>p_pc := pio_next c s\<rparr>)"
| "pio_exec c pins (I_Mov d r) s = Some (pio_write d (pio_read r pins s) s\<lparr>p_pc := pio_next c s\<rparr>)"
| "pio_exec c pins (I_In r n) s =
    (let v = pio_shift_in (c_in_right c) n (pio_read r pins s) (p_isr s); k = min 32 (p_icount s + n) in
     if c_push_threshold c \<le> k
     then if length (p_rx s) < PIO_FIFO_DEPTH
          then Some (s\<lparr>p_isr := 0, p_icount := 0, p_rx := p_rx s @ [v], p_pc := pio_next c s\<rparr>) else None
     else Some (s\<lparr>p_isr := v, p_icount := k, p_pc := pio_next c s\<rparr>))"
| "pio_exec c pins (I_Out r n) s =
    (let out = (\<lambda>s1. pio_write r (take_bit n (p_osr s1)) (s1\<lparr>p_osr := drop_bit n (p_osr s1), p_ocount := p_ocount s1 + n,
                 p_pc := pio_next c s\<rparr>)) in
     if c_pull_threshold c \<le> p_ocount s
     then (case p_tx s of [] \<Rightarrow> None | w # ws \<Rightarrow> Some (out (s\<lparr>p_osr := w, p_ocount := 0, p_tx := ws\<rparr>)))
     else Some (out s))"
| "pio_exec c pins I_Push s =
    (if length (p_rx s) < PIO_FIFO_DEPTH
     then Some (s\<lparr>p_isr := 0, p_icount := 0, p_rx := p_rx s @ [p_isr s], p_pc := pio_next c s\<rparr>) else None)"

definition pio_cycle :: "pio_config \<Rightarrow> pio_program \<Rightarrow> u32 \<Rightarrow> pio_sm \<Rightarrow> pio_sm" where
  "pio_cycle c prog pins s =
    (if 0 < p_delay s then s\<lparr>p_delay := p_delay s - 1\<rparr>
     else (let (ins, side, d) = prog ! p_pc s;
               s1 = (case side of None \<Rightarrow> s | Some b \<Rightarrow> s\<lparr>p_low := b\<rparr>)
           in case pio_exec c pins ins s1 of None \<Rightarrow> s1 | Some s2 \<Rightarrow> s2\<lparr>p_delay := d\<rparr>))"

fun pio_run :: "pio_config \<Rightarrow> pio_program \<Rightarrow> u32 list \<Rightarrow> pio_sm \<Rightarrow> pio_sm" where
  "pio_run c prog [] s = s"
| "pio_run c prog (p # ps) s = pio_run c prog ps (pio_cycle c prog p s)"

text \<open>Whether the machine pulls the line low, cycle by cycle.\<close>

fun pio_drive :: "pio_config \<Rightarrow> pio_program \<Rightarrow> u32 list \<Rightarrow> pio_sm \<Rightarrow> bool list" where
  "pio_drive c prog [] s = []"
| "pio_drive c prog (p # ps) s = p_low (pio_cycle c prog p s) # pio_drive c prog ps (pio_cycle c prog p s)"

section \<open>Lemmas\<close>

lemma pio_run_append: "pio_run c prog (ps @ qs) s = pio_run c prog qs (pio_run c prog ps s)"
  by (induction ps arbitrary: s) auto

lemma pio_drive_append:
  "pio_drive c prog (ps @ qs) s = pio_drive c prog ps s @ pio_drive c prog qs (pio_run c prog ps s)"
  by (induction ps arbitrary: s) auto

lemma length_pio_drive: "length (pio_drive c prog ps s) = length ps"
  by (induction ps arbitrary: s) auto

lemma of_nat_u32: "0 < n \<Longrightarrow> n < 2 ^ 32 \<Longrightarrow> (of_nat n :: u32) \<noteq> 0" "(of_nat (Suc n) :: u32) - 1 = of_nat n"
  by (auto simp: word_of_nat_eq_0_iff dvd_def)

text \<open>A delay passes without effect.\<close>

lemma pio_run_delay:
  "length ps = p_delay s \<Longrightarrow> pio_run c prog ps s = s\<lparr>p_delay := 0\<rparr> \<and> pio_drive c prog ps s = replicate (length ps) (p_low s)"
proof (induction ps arbitrary: s)
  case (Cons p ps)
  then have "length ps = p_delay (s\<lparr>p_delay := p_delay s - 1\<rparr>)" by simp
  from Cons.IH [OF this] Cons.prems [symmetric] show ?case by (simp add: pio_cycle_def)
qed simp

end
