(* ===== verification/Dht_Pio.thy ===== *)
theory Dht_Pio
  imports Pio Dht
begin

text \<open>
  \<open>src/dht_pio/dht.pio\<close>: the state machine program that receives a measurement, the DMA channel that takes
  the bytes from it, and the two together with the driver of \<open>Dht\<close>.
\<close>

section \<open>Model\<close>

definition dht_start_signal_clocks_per_loop :: nat where "dht_start_signal_clocks_per_loop = 1"
definition dht_pulse_measurement_clocks_per_loop :: nat where "dht_pulse_measurement_clocks_per_loop = 2"

text \<open>The labels: 0 \<open>loop_until_start_signal_done\<close>, 2 \<open>loop_until_ready_lo\<close>, 3 \<open>loop_until_ready_hi\<close>,
  5 \<open>loop_until_lo\<close>, 6 \<open>loop_until_hi\<close>, 8 \<open>pulse_loop_init\<close>, 9 \<open>pulse_loop\<close>, 11 \<open>pulse_tick\<close>,
  15 \<open>short_pulse_detected\<close>.\<close>

definition dht_program :: pio_program where
  "dht_program = map (\<lambda>i. (i, None, 0))
    [I_Jmp If_Y_Dec 0,
     I_Set Reg_Pindirs 0,
     I_Jmp If_Pin 2,
     I_Jmp If_Pin 5,
     I_Jmp Always 3,
     I_Jmp If_Pin 5,
     I_Jmp If_Pin 8,
     I_Jmp Always 6,
     I_Mov Reg_Y Reg_Osr,
     I_Jmp If_Pin 11,
     I_Jmp Always 15,
     I_Jmp If_Y_Dec 9,
     I_Set Reg_X 1,
     I_In Reg_X 1,
     I_Jmp Always 5,
     I_In Reg_Null 1,
     I_Jmp Always 6]"

text \<open>What \<open>dht_program_init\<close> configures: shifting to the left, pushing every eight bits.\<close>

definition dht_config :: pio_config where
  "dht_config = \<lparr> c_wrap_target = 0, c_wrap = 16, c_in_right = False, c_push_threshold = 8, c_pull_threshold = 32 \<rparr>"

text \<open>The effect of the driver's operations on the state machine.\<close>

definition dht_sm_reset :: pio_sm where
  "dht_sm_reset = \<lparr> p_pc = 0, p_x = 0, p_y = 0, p_isr = 0, p_icount = 0, p_osr = 0, p_ocount = 32, p_delay = 0,
     p_low = False, p_tx = [], p_rx = [] \<rparr>"

fun dht_sm_op :: "dht_hw \<Rightarrow> pio_sm \<Rightarrow> pio_sm" where
  "dht_sm_op (Sm_Init _) s = dht_sm_reset"
| "dht_sm_op (Sm_Put n) s = s\<lparr>p_tx := p_tx s @ [of_nat n]\<rparr>"
| "dht_sm_op (Sm_Pindirs b) s = s\<lparr>p_low := b\<rparr>"
| "dht_sm_op Sm_Pull s = (case p_tx s of [] \<Rightarrow> s | w # ws \<Rightarrow> s\<lparr>p_osr := w, p_ocount := 0, p_tx := ws\<rparr>)"
| "dht_sm_op Sm_Mov_Y s = s\<lparr>p_y := p_osr s\<rparr>"
| "dht_sm_op _ s = s"

text \<open>The channel moves the low byte of each word to the next of the five bytes in memory as soon as it is there.\<close>

definition dht_dma :: "pio_sm \<times> bytes \<Rightarrow> pio_sm \<times> bytes" where
  "dht_dma = (\<lambda>(s, mem).
    case p_rx s of [] \<Rightarrow> (s, mem) | w # ws \<Rightarrow> if length mem < 5 then (s\<lparr>p_rx := ws\<rparr>, mem @ [ucast w]) else (s, mem))"

definition dht_cycle :: "bool \<Rightarrow> pio_sm \<times> bytes \<Rightarrow> pio_sm \<times> bytes" where
  "dht_cycle level = (\<lambda>(s, mem). dht_dma (pio_cycle dht_config dht_program (of_bool level) s, mem))"

definition dht_run :: "bool list \<Rightarrow> pio_sm \<times> bytes \<Rightarrow> pio_sm \<times> bytes" where
  "dht_run = fold dht_cycle"

section \<open>The program step by step\<close>

lemma dht_run_Cons: "dht_run (l # ls) st = dht_run ls (dht_cycle l st)" by (simp add: dht_run_def)
lemma dht_run_Nil: "dht_run [] st = st" by (simp add: dht_run_def)
lemma dht_run_append: "dht_run (ls @ ks) st = dht_run ks (dht_run ls st)" by (simp add: dht_run_def)

lemmas dht_exec = dht_cycle_def dht_dma_def pio_cycle_def dht_program_def dht_config_def pio_next_def

text \<open>What has been received: the shift register, its bit count and the bytes in memory. A bit is shifted in from the
  right, and the eighth completes a byte.\<close>

type_synonym dht_got = "u32 \<times> nat \<times> bytes"

definition dht_bit :: "bool \<Rightarrow> dht_got \<Rightarrow> dht_got" where
  "dht_bit b = (\<lambda>(i, k, m).
    (let v = push_bit 1 i OR of_bool b in if k = 7 then (0, 0, m @ [ucast v]) else (v, k + 1, m)))"

definition receiving :: "dht_got \<Rightarrow> bool" where
  "receiving = (\<lambda>(i, k, m). k < 8 \<and> length m < 5)"

text \<open>The machine and the memory between two instructions, with the line released.\<close>

definition conf :: "nat \<Rightarrow> u32 \<Rightarrow> u32 \<Rightarrow> nat \<Rightarrow> dht_got \<Rightarrow> pio_sm \<times> bytes" where
  "conf n x y t = (\<lambda>(i, k, m).
    (\<lparr> p_pc = n, p_x = x, p_y = y, p_isr = i, p_icount = k, p_osr = of_nat t, p_ocount = 0, p_delay = 0,
       p_low = False, p_tx = [], p_rx = [] \<rparr>, m))"

lemma conf_steps:
  "dht_cycle l (conf 2 x y t g) = conf (if l then 2 else 3) x y t g"
  "dht_cycle l (conf 3 x y t g) = conf (if l then 5 else 4) x y t g"
  "dht_cycle l (conf 4 x y t g) = conf 3 x y t g"
  "dht_cycle l (conf 5 x y t g) = conf (if l then 5 else 6) x y t g"
  "dht_cycle l (conf 6 x y t g) = conf (if l then 8 else 7) x y t g"
  "dht_cycle l (conf 7 x y t g) = conf 6 x y t g"
  "dht_cycle l (conf 8 x y t g) = conf 9 x (of_nat t) t g"
  "dht_cycle l (conf 9 x y t g) = conf (if l then 11 else 10) x y t g"
  "dht_cycle l (conf 10 x y t g) = conf 15 x y t g"
  "dht_cycle l (conf 11 x y t g) = conf (if y \<noteq> 0 then 9 else 12) x (y - 1) t g"
  "dht_cycle l (conf 12 x y t g) = conf 13 1 y t g"
  "dht_cycle l (conf 14 x y t g) = conf 5 x y t g"
  "dht_cycle l (conf 16 x y t g) = conf 6 x y t g"
  by (cases g; simp add: conf_def dht_exec)+

lemma conf_shift:
  assumes "receiving g"
  shows "dht_cycle l (conf 13 1 y t g) = conf 14 1 y t (dht_bit True g)"
    and "dht_cycle l (conf 15 x y t g) = conf 16 x y t (dht_bit False g)"
  using assms
  by (cases g; auto simp: conf_def dht_exec receiving_def dht_bit_def pio_shift_in_def PIO_FIFO_DEPTH_def Let_def)+

lemmas run_simps = dht_run_append dht_run_Cons dht_run_Nil conf_steps conf_shift

lemma few: "replicate 1 b = [b]" "replicate 2 b = [b, b]" "replicate 3 b = [b, b, b]" "replicate 4 b = [b, b, b, b]" "replicate 5 b = [b, b, b, b, b]"
  by (simp_all add: numeral_eq_Suc)

lemma run_waiting_low: "dht_run (replicate (2 * n) False) (conf 6 x y t g) = conf 6 x y t g"
  by (induction n) (simp_all add: run_simps)

lemma run_waiting_high: "dht_run (replicate n True) (conf 5 x y t g) = conf 5 x y t g"
  by (induction n) (simp_all add: run_simps)

lemma run_counting: "j \<le> n \<Longrightarrow> n < 2 ^ 32 \<Longrightarrow>
    dht_run (replicate (2 * j) True) (conf 9 x (of_nat n) t g) = conf 9 x (of_nat (n - j)) t g"
proof (induction j arbitrary: n)
  case (Suc j)
  then obtain m where "n = Suc m" by (cases n) auto
  then show ?case using Suc by (simp add: run_simps of_nat_u32 del: of_nat_Suc)
qed (simp add: run_simps)

text \<open>The end of a pulse as the counter sees it, \<open>r\<close> cycles before the line falls. The rest of the
  bit takes at most five cycles of the next low phase.\<close>

lemma run_short:
  assumes "receiving g" "r \<le> 2 * n" "n < 2 ^ 32"
  shows "\<exists>k y'. k \<le> 5 \<and> (even r \<longrightarrow> k = 4) \<and> dht_run (replicate r True @ replicate k False) (conf 9 x (of_nat n) t g) = conf 6 x y' t (dht_bit False g)"
proof (cases "even r")
  case True
  then obtain j where r: "r = 2 * j" "j \<le> n" using assms(2) by auto
  then have "dht_run (replicate r True @ replicate 4 False) (conf 9 x (of_nat n) t g) = conf 6 x (of_nat (n - j)) t (dht_bit False g)"
    using assms(1) run_counting [OF r(2) assms(3)] by (simp add: run_simps few)
  moreover have "(4 :: nat) \<le> 5" by simp
  ultimately show ?thesis by blast
next
  case False
  then obtain j where r: "r = 2 * j + 1" "j \<le> n" "0 < n - j" using assms(2) by (auto elim!: oddE)
  have "(of_nat (n - j) :: u32) \<noteq> 0" using of_nat_u32(1) [of "n - j"] r(3) assms(3) by simp
  moreover have "replicate r True = replicate (2 * j) True @ [True]" by (simp add: r(1) replicate_append_same)
  ultimately have "dht_run (replicate r True @ replicate 5 False) (conf 9 x (of_nat n) t g) = conf 6 x (of_nat (n - j) - 1) t (dht_bit False g)"
    using assms(1) run_counting [OF r(2) assms(3)] by (simp add: run_simps few)
  then show ?thesis using False by blast
qed

lemma run_long:
  assumes "receiving g" "2 * n + 1 \<le> r" "n < 2 ^ 32"
  shows "\<exists>k x' y'. k \<le> 5 \<and> dht_run (replicate r True @ replicate k False) (conf 9 x (of_nat n) t g) = conf 6 x' y' t (dht_bit True g)"
proof -
  define q where "q = r - 2 * n - 1"
  have r: "replicate r True = replicate (2 * n) True @ True # replicate q True"
    using assms(2) unfolding q_def replicate_Suc [symmetric] replicate_add [symmetric] by simp
  have c: "dht_run (replicate (2 * n) True) (conf 9 x (of_nat n) t g) = conf 9 x 0 t g" using run_counting [of n n] assms(3) by simp
  have "\<exists>k\<le>5. dht_run (replicate q True @ replicate k False) (conf 11 x 0 t g) = conf 6 1 (- 1) t (dht_bit True g)"
  proof (cases "q \<le> 3")
    case True
    then have "q = 0 \<or> q = 1 \<or> q = 2 \<or> q = 3" by linarith
    then have "dht_run (replicate q True @ replicate (5 - q) False) (conf 11 x 0 t g) = conf 6 1 (- 1) t (dht_bit True g)"
      using assms(1) by (elim disjE) (simp_all add: run_simps few)
    then show ?thesis by (meson diff_le_self)
  next
    case False
    then obtain i where "q = 4 + i" using le_iff_add [of 4 q] by auto
    then have "replicate q True = True # True # True # True # replicate i True" by (simp add: numeral_eq_Suc)
    then have "dht_run (replicate q True @ replicate 1 False) (conf 11 x 0 t g) = conf 6 1 (- 1) t (dht_bit True g)"
      using assms(1) by (simp add: run_simps run_waiting_high few)
    then show ?thesis by (meson one_le_numeral)
  qed
  then show ?thesis using c r by (auto simp: run_simps)
qed

text \<open>One bit: a low phase and a pulse, whose length tells the value. The counter looks at the line every other cycle,
  so there is a gap of one cycle between what is certainly short and what is certainly long.\<close>

definition dht_pulse :: "nat \<Rightarrow> bool \<Rightarrow> nat \<times> nat \<Rightarrow> bool" where
  "dht_pulse t b = (\<lambda>(low, high). 6 \<le> low \<and> (if b then 2 * t + 4 \<le> high else 2 \<le> high \<and> high \<le> 2 * t + 2))"

lemma run_pulse:
  assumes "receiving g" "t < 2 ^ 32" "if b then 2 * t + 4 \<le> high else 2 \<le> high \<and> high \<le> 2 * t + 2"
  shows "\<exists>k x' y'. k \<le> 5 \<and> dht_run (replicate j False @ replicate high True @ replicate k False) (conf 6 x y t g) = conf 6 x' y' t (dht_bit b g)"
proof -
  have two: "replicate high True = True # True # replicate (high - 2) True"
    using assms(3) by (cases b) (simp_all add: replicate_Suc [symmetric] del: replicate_Suc, linarith+)
  have rest: "\<exists>k x' y'. k \<le> 5 \<and> dht_run (replicate r True @ replicate k False) (conf 9 x (of_nat t) t g) = conf 6 x' y' t (dht_bit b g)"
    if "if b then 2 * t + 1 \<le> r else r \<le> 2 * t" for r
  proof (cases b)
    case True
    then show ?thesis using run_long [OF assms(1) _ assms(2)] that by simp
  next
    case False
    then have "r \<le> 2 * t" using that by simp
    from run_short [OF assms(1) this assms(2), of x t] False show ?thesis by auto
  qed
  show ?thesis
  proof (cases "even j")
    case True
    then have "dht_run (replicate j False) (conf 6 x y t g) = conf 6 x y t g" using run_waiting_low [of "j div 2"] by simp
    then show ?thesis using rest [of "high - 2"] assms(3) by (auto simp: two run_simps split: if_splits)
  next
    case False
    then have "dht_run (replicate j False) (conf 6 x y t g) = conf 7 x y t g"
      using run_waiting_low [of _ x y t g] by (auto elim!: oddE simp: replicate_append_same [symmetric] run_simps simp del: replicate_append_same)
    then have j: "dht_run (replicate j False @ replicate high True @ replicate k False) (conf 6 x y t g) =
        dht_run (replicate (high - 2) True @ replicate k False) (conf 8 x y t g)" for k by (simp add: two run_simps)
    show ?thesis
    proof (cases "high = 2")
      case True
      then have "\<not> b" using assms(3) by auto
      moreover obtain y' where "dht_run (replicate 4 False) (conf 9 x (of_nat t) t g) = conf 6 x y' t (dht_bit False g)"
        using run_short [OF assms(1) _ assms(2), of 0 x t] by auto
      ultimately have "dht_run (replicate (high - 2) True @ replicate 5 False) (conf 8 x y t g) = conf 6 x y' t (dht_bit b g)"
        using True by (simp add: few run_simps)
      then show ?thesis unfolding j by blast
    next
      case False
      then have "replicate (high - 2) True = True # replicate (high - 3) True"
        using assms(3) by (cases b) (simp_all add: replicate_Suc [symmetric] del: replicate_Suc, linarith+)
      then show ?thesis using rest [of "high - 3"] assms(3) False unfolding j by (auto simp: run_simps split: if_splits)
    qed
  qed
qed

section \<open>A whole measurement\<close>

definition dht_wave :: "(nat \<times> nat) list \<Rightarrow> bool list" where
  "dht_wave ps = concat (map (\<lambda>(low, high). replicate low False @ replicate high True) ps)"

definition spare :: "dht_got \<Rightarrow> nat \<Rightarrow> bool" where
  "spare = (\<lambda>(i, k, m) n. k < 8 \<and> 8 * length m + k + n \<le> 40)"

lemma spare_bit: "spare g (Suc n) \<Longrightarrow> receiving g \<and> spare (dht_bit b g) n"
  by (cases g) (auto simp: spare_def receiving_def dht_bit_def Let_def)

lemma run_idle: "\<exists>n. dht_run (replicate q False) (conf 6 x y t g) = conf n x y t g"
proof (cases "even q")
  case True
  then show ?thesis using run_waiting_low [of "q div 2" x y t g] by auto
next
  case False
  then obtain j where "q = 2 * j + 1" by (auto elim: oddE)
  then have "replicate q False = replicate (2 * j) False @ [False]" by (simp add: replicate_append_same)
  then show ?thesis using run_waiting_low [of j x y t g] by (auto simp: run_simps)
qed

lemma wave_front:
  assumes "list_all2 (dht_pulse t) bits ps" "6 \<le> fin" "k \<le> 5"
  shows "dht_wave ps @ replicate fin False = replicate k False @ drop k (dht_wave ps @ replicate fin False)"
proof -
  have "take k (dht_wave ps @ replicate fin False) = replicate k False"
  proof (cases ps)
    case Nil
    then show ?thesis using assms(2,3) by (simp add: dht_wave_def min_def)
  next
    case (Cons p qs)
    then have "6 \<le> fst p" using assms(1) by (auto simp: list_all2_Cons2 dht_pulse_def)
    then show ?thesis using Cons assms(3) by (cases p) (simp add: dht_wave_def min_def)
  qed
  then show ?thesis by (metis append_take_drop_id)
qed

lemma run_wave:
  assumes "list_all2 (dht_pulse t) bits ps" "spare g (length bits)" "t < 2 ^ 32" "6 \<le> fin" "k0 \<le> 5"
  shows "\<exists>n x' y'. dht_run (drop k0 (dht_wave ps @ replicate fin False)) (conf 6 x y t g) = conf n x' y' t (fold dht_bit bits g)"
  using assms
proof (induction bits ps arbitrary: k0 x y g rule: list_all2_induct)
  case Nil
  then show ?case using run_idle [of "fin - k0" x y t g] by (auto simp: dht_wave_def)
next
  case (Cons b bits p ps)
  obtain low high where p: "p = (low, high)" by (cases p)
  have h: "6 \<le> low" "if b then 2 * t + 4 \<le> high else 2 \<le> high \<and> high \<le> 2 * t + 2"
    using Cons.hyps(1) p by (auto simp: dht_pulse_def)
  have g: "receiving g" "spare (dht_bit b g) (length bits)" using spare_bit Cons.prems(1) by auto
  from run_pulse [OF g(1) Cons.prems(2) h(2), of "low - k0" x y] obtain k x' y' where
    k: "k \<le> 5" "dht_run (replicate (low - k0) False @ replicate high True @ replicate k False) (conf 6 x y t g) = conf 6 x' y' t (dht_bit b g)" by blast
  have "drop k0 (dht_wave (p # ps) @ replicate fin False) =
      (replicate (low - k0) False @ replicate high True @ replicate k False) @ drop k (dht_wave ps @ replicate fin False)"
    using wave_front [OF Cons.hyps(2) Cons.prems(3) k(1)] h(1) Cons.prems(4) by (simp add: p dht_wave_def)
  then show ?case using Cons.IH [OF g(2) Cons.prems(2,3) k(1), of x' y'] k(2) by (simp add: dht_run_append)
qed

text \<open>The bits of a byte in the order they arrive, most significant first.\<close>

definition byte_bits :: "u8 \<Rightarrow> bool list" where
  "byte_bits b = map (bit b) (rev [0..<8])"

lemma shift_step: "push_bit 1 (drop_bit (Suc n) w) OR of_bool (bit w n) = drop_bit n (w :: u32)"
proof (rule bit_word_eqI)
  fix i assume "i < LENGTH(32)"
  then show "bit (push_bit 1 (drop_bit (Suc n) w) OR of_bool (bit w n)) i = bit (drop_bit n w) i"
    by (cases i) (simp_all only: bit_simps, auto)
qed

lemma fold_byte: "fold dht_bit (byte_bits b) (0, 0, m) = (0, 0, m @ [b])"
proof -
  let ?w = "ucast b :: u32"
  have w: "drop_bit 8 ?w = 0"
  proof (rule bit_word_eqI)
    fix i have "\<not> bit b (8 + i)" using bit_imp_le_length [of b "8 + i"] by auto
    then show "bit (drop_bit 8 ?w) i = bit (0 :: u32) i" by (simp add: bit_simps)
  qed
  have rt: "ucast ?w = b" by (rule bit_word_eqI) (simp add: bit_simps)
  have bits: "bit b n = bit ?w n" for n using bit_imp_le_length [of b n] by (auto simp: bit_simps)
  have step: "dht_bit (bit b n) (drop_bit (Suc n) ?w, k, m) = (drop_bit n ?w, k + 1, m)" if "k < 7" for n k
    using that shift_step [of n ?w] by (simp add: dht_bit_def bits)
  have last: "dht_bit (bit b 0) (drop_bit (Suc 0) ?w, 7, m) = (0, 0, m @ [b])"
    using shift_step [of 0 ?w] rt by (simp add: dht_bit_def bits)
  have "rev [0..<8] = [7, 6, 5, 4, 3, 2, 1, 0 :: nat]" by (simp add: upt_conv_Cons)
  then show ?thesis
    using step [of 0 7] step [of 1 6] step [of 2 5] step [of 3 4] step [of 4 3] step [of 5 2] step [of 6 1] last w
    by (simp add: byte_bits_def numeral_eq_Suc)
qed

lemma fold_bytes: "fold dht_bit (concat (map byte_bits bs)) (0, 0, m) = (0, 0, m @ bs)"
  by (induction bs arbitrary: m) (simp_all add: fold_byte)

text \<open>The start signal, the sensor's reply, and the machine listening for the first bit.\<close>

definition starting :: "nat \<Rightarrow> nat \<Rightarrow> u32 \<Rightarrow> nat \<Rightarrow> pio_sm" where
  "starting n c y t = \<lparr> p_pc = n, p_x = 0, p_y = y, p_isr = 0, p_icount = 0, p_osr = of_nat t, p_ocount = c, p_delay = 0,
       p_low = True, p_tx = [], p_rx = [] \<rparr>"

lemma run_start:
  "length start = n + 2 \<Longrightarrow> n < 2 ^ 32 \<Longrightarrow> dht_run start (starting 0 0 (of_nat n) t, []) = conf 2 0 (- 1) t (0, 0, [])"
proof (induction n arbitrary: start)
  case 0
  then obtain a b where "start = [a, b]" by (auto simp: numeral_2_eq_2 length_Suc_conv)
  then show ?case by (simp add: run_simps starting_def conf_def dht_exec)
next
  case (Suc n)
  then obtain a rest where "start = a # rest" "length rest = n + 2" by (cases start) auto
  moreover have "(of_nat (Suc n) :: u32) \<noteq> 0" using Suc.prems of_nat_u32(1) [of "Suc n"] by simp
  then have "dht_cycle a (starting 0 0 (of_nat (Suc n)) t, []) = (starting 0 0 (of_nat n) t, [])"
    by (simp add: starting_def dht_exec del: of_nat_Suc) (simp add: of_nat_u32)
  ultimately show ?case using Suc by (simp add: run_simps)
qed

lemma run_reply:
  assumes "2 \<le> low" "2 \<le> high"
  shows "dht_run (replicate wait True @ replicate low False @ replicate high True @ [False]) (conf 2 x y t g) = conf 6 x y t g"
proof -
  have w: "dht_run (replicate n True) (conf 2 x y t g) = conf 2 x y t g" for n by (induction n) (simp_all add: run_simps)
  have l: "dht_run (replicate (2 * n) False) (conf 3 x y t g) = conf 3 x y t g" for n by (induction n) (simp_all add: run_simps)
  obtain h where h: "replicate high True = True # True # replicate h True" using assms(2) by (auto simp: le_iff_add numeral_2_eq_2)
  obtain n where n: "replicate low False = False # replicate n False" using assms(1) by (cases low) auto
  show ?thesis
  proof (cases "even n")
    case True
    then show ?thesis using w l [of "n div 2"] by (simp add: n h run_simps run_waiting_high)
  next
    case False
    then obtain j where "n = 2 * j + 1" by (auto elim: oddE)
    then have "replicate n False = replicate (2 * j) False @ [False]" by (simp add: replicate_append_same)
    then show ?thesis using w l by (simp add: n h run_simps run_waiting_high)
  qed
qed

lemma started:
  "fold dht_sm_op (dht_program_init dht_start_signal_clocks_per_loop dht_pulse_measurement_clocks_per_loop i m)
     (fold dht_sm_op (configure_dma_channel c) s) =
   starting 0 0 (get_start_pulse_duration_us m) 25"
proof -
  have "get_pio_sm_clocks (unat (get_start_pulse_duration_us m)) = unat (get_start_pulse_duration_us m)"
    by (rule get_pio_sm_clocks_eq) (simp add: get_start_pulse_duration_us_def)
  moreover have "get_pio_sm_clocks 25 = 25" by (rule get_pio_sm_clocks_eq) simp
  ultimately show ?thesis
    by (simp add: configure_dma_channel_def dht_program_init_def dht_start_signal_clocks_per_loop_def DHT_LONG_PULSE_THRESHOLD_US_def
        dht_pulse_measurement_clocks_per_loop_def dht_sm_reset_def starting_def)
qed

text \<open>The levels of the line over a measurement, and what the channel has written at its end.\<close>

definition dht_signal :: "bool list \<Rightarrow> nat \<times> nat \<times> nat \<Rightarrow> (nat \<times> nat) list \<Rightarrow> nat \<Rightarrow> bool list" where
  "dht_signal start = (\<lambda>(wait, low, high) ps fin.
    start @ replicate wait True @ replicate low False @ replicate high True @ dht_wave ps @ replicate fin False)"

definition dht_sends :: "dht_model_t \<Rightarrow> bytes \<Rightarrow> bool list \<Rightarrow> bool" where
  "dht_sends m bs levels \<longleftrightarrow> length bs = 5 \<and>
    (\<exists>start wait low high ps fin. levels = dht_signal start (wait, low, high) ps fin \<and>
       length start = unat (get_start_pulse_duration_us m) + 2 \<and> 2 \<le> low \<and> 2 \<le> high \<and>
       list_all2 (dht_pulse 25) (concat (map byte_bits bs)) ps \<and> 6 \<le> fin)"

lemma dht_bytes_received:
  assumes "dht_sends m bs levels"
  shows "\<exists>n x y. dht_run levels (starting 0 0 (get_start_pulse_duration_us m) 25, []) = conf n x y 25 (0, 0, bs)"
proof -
  obtain start wait low high ps fin where l: "levels = dht_signal start (wait, low, high) ps fin" "length bs = 5"
    "length start = unat (get_start_pulse_duration_us m) + 2" "2 \<le> low" "2 \<le> high"
    "list_all2 (dht_pulse 25) (concat (map byte_bits bs)) ps" "6 \<le> fin" using assms by (auto simp: dht_sends_def)
  let ?w = "dht_wave ps @ replicate fin False"
  have "dht_run start (starting 0 0 (get_start_pulse_duration_us m) 25, []) = conf 2 0 (- 1) 25 (0, 0, [])"
    using run_start [OF l(3), of 25] by (simp add: get_start_pulse_duration_us_def)
  moreover have "?w = [False] @ drop 1 ?w" using wave_front [OF l(6,7), of 1] by simp
  moreover have "length (byte_bits b) = 8" for b by (simp add: byte_bits_def)
  then have "length (concat (map byte_bits bs)) = 40" using l(2) by (simp add: length_concat o_def sum_list_triv)
  then have "spare (0, 0, []) (length (concat (map byte_bits bs)))" by (simp add: spare_def)
  from run_wave [OF l(6) this _ l(7), of 1 0 "- 1"] obtain n x y where
    "dht_run (drop 1 ?w) (conf 6 0 (- 1) 25 (0, 0, [])) = conf n x y 25 (0, 0, bs)" by (auto simp: fold_bytes)
  ultimately have "dht_run levels (starting 0 0 (get_start_pulse_duration_us m) 25, []) = conf n x y 25 (0, 0, bs)"
    using run_reply [OF l(4,5), of wait 0 "- 1" 25 "(0, 0, [])"] unfolding l(1) dht_signal_def case_prod_conv
    by (metis append.assoc dht_run_append)
  then show ?thesis by blast
qed

text \<open>C9: The sensor's signal becomes the reading. The driver starts a measurement; the state machine pulls the line low for the
  time of the model and releases it; the sensor replies with a low and a high phase and sends forty
  bits, each a low phase and a pulse of at most 52 microseconds for a zero and at least 54 for a one,
  whatever the levels before its reply. The channel then holds exactly the five bytes, and
  the driver returns the values they encode, or reports the checksum.\<close>

theorem dht_signal_received:
  assumes "pio d \<noteq> None" "\<not> sm_on d" "dht_sends (model d) bs levels"
  shows "\<exists>d1 hw sm d2 hw2. dht_start_measurement dht_start_signal_clocks_per_loop dht_pulse_measurement_clocks_per_loop now d = Inr (d1, hw) \<and>
    dht_run levels (fold dht_sm_op hw sm0, []) = (sm, bs) \<and> \<not> p_low sm \<and>
    dht_finish_measurement_blocking \<lparr> polls = [(length bs < 5, later)], busy_after = length bs < 5, received = bs \<rparr> d1 =
      Inr (Some (if bs ! 4 = dht_checksum bs
                 then (DHT_RESULT_OK, Some (decode_humidity (model d) (bs ! 0) (bs ! 1), decode_temperature (model d) (bs ! 2) (bs ! 3)))
                 else (DHT_RESULT_BAD_CHECKSUM, None), d2, hw2))"
proof -
  obtain n x y where "dht_run levels (starting 0 0 (get_start_pulse_duration_us (model d)) 25, []) = conf n x y 25 (0, 0, bs)"
    using dht_bytes_received [OF assms(3)] by blast
  moreover have "length bs = 5" using assms(3) by (simp add: dht_sends_def)
  ultimately show ?thesis using assms(1,2)
    by (simp add: dht_start_measurement_def assertE_def started conf_def dht_finish_measurement_blocking_def Let_def)
qed

text \<open>A sensor within the times of its data sheet.\<close>

definition demo_levels :: "bytes \<Rightarrow> bool list" where
  "demo_levels bs = dht_signal (replicate 18002 False) (30, 80, 80) (map (\<lambda>b. (50, if b then 70 else 27)) (concat (map byte_bits bs))) 50"

lemma demo_sends: "length bs = 5 \<Longrightarrow> dht_sends DHT11 bs (demo_levels bs)"
proof -
  have "list_all2 (dht_pulse 25) bits (map (\<lambda>b. (50, if b then 70 else 27)) bits)" for bits
    by (simp add: list_all2_conv_all_nth dht_pulse_def)
  moreover have "length (replicate 18002 False) = unat (get_start_pulse_duration_us DHT11) + 2" by (simp add: get_start_pulse_duration_us_def)
  moreover have "(2 :: nat) \<le> 80" "(6 :: nat) \<le> 50" by simp_all
  moreover assume "length bs = 5"
  ultimately show ?thesis unfolding dht_sends_def demo_levels_def by blast
qed

theorem dht_signal_received_witness:
  "\<exists>d1 hw sm. dht_start_measurement dht_start_signal_clocks_per_loop dht_pulse_measurement_clocks_per_loop 7 (demo_dht\<lparr>sm_on := False\<rparr>) = Inr (d1, hw) \<and>
    dht_run (demo_levels [45, 0, 23, 5, 73]) (fold dht_sm_op hw dht_sm_reset, []) = (sm, [45, 0, 23, 5, 73])"
proof -
  have d: "pio (demo_dht\<lparr>sm_on := False\<rparr>) \<noteq> None" "\<not> sm_on (demo_dht\<lparr>sm_on := False\<rparr>)"
    "dht_sends (model (demo_dht\<lparr>sm_on := False\<rparr>)) [45, 0, 23, 5, 73] (demo_levels [45, 0, 23, 5, 73])"
    using demo_sends [of "[45, 0, 23, 5, 73]"] by (simp_all add: demo_dht_def)
  from dht_signal_received [OF d, of 7] show ?thesis by blast
qed

end
