(* ===== verification/Onewire_Pio.thy ===== *)
theory Onewire_Pio
  imports Pio Onewire_Search
begin

text \<open>
  \<open>src/ds18b20_pio/onewire_library/onewire_library.pio\<close>: the state machine program behind the 1-Wire driver, its
  time slots, and the driver of \<open>Onewire\<close> running on it.
\<close>

section \<open>Model\<close>

definition onewire_program :: pio_program where
  "onewire_program =
    [(I_Set Reg_X 28, Some True, 15),
     (I_Jmp If_X_Dec 1, Some True, 15),
     (I_Set Reg_X 8, Some False, 6),
     (I_Jmp If_X_Dec 3, Some False, 6),
     (I_Mov Reg_Isr Reg_Pins, Some False, 0),
     (I_Push, Some False, 0),
     (I_Set Reg_X 24, Some False, 7),
     (I_Jmp If_X_Dec 7, Some False, 15),
     (I_Out Reg_X 1, Some False, 0),
     (I_Jmp If_Not_X 14, Some True, 5),
     (I_Set Reg_X 2, Some False, 8),
     (I_In Reg_Pins 1, Some False, 4),
     (I_Jmp If_X_Dec 12, Some False, 15),
     (I_Jmp Always 8, Some False, 0),
     (I_Set Reg_X 2, Some True, 5),
     (I_Jmp If_X_Dec 15, Some True, 15),
     (I_In Reg_Null 1, Some False, 8)]"

definition onewire_offset_reset_bus :: nat where "onewire_offset_reset_bus = 0"
definition onewire_offset_fetch_bit :: nat where "onewire_offset_fetch_bit = 8"

definition onewire_config :: "nat \<Rightarrow> pio_config" where
  "onewire_config bits_per_word =
    \<lparr> c_wrap_target = onewire_offset_fetch_bit, c_wrap = 16, c_in_right = True, c_push_threshold = bits_per_word,
      c_pull_threshold = bits_per_word \<rparr>"

text \<open>\<open>pio_sm_init\<close> clears the queues and the shift counters and keeps the registers.\<close>

definition onewire_sm_init :: "pio_sm \<Rightarrow> pio_sm" where
  "onewire_sm_init s = s\<lparr>p_pc := onewire_offset_fetch_bit, p_isr := 0, p_icount := 0, p_ocount := 32, p_delay := 0, p_tx := [], p_rx := []\<rparr>"

text \<open>\<open>pio_sm_exec\<close> of \<open>onewire_reset_instr\<close>: a jump with a side-set of 0.\<close>

definition onewire_reset_instr :: "pio_sm \<Rightarrow> pio_sm" where
  "onewire_reset_instr s = s\<lparr>p_pc := onewire_offset_reset_bus, p_delay := 0, p_low := False\<rparr>"

section \<open>Straight-line execution\<close>

text \<open>On the levels \<open>ps\<close> the machine goes from \<open>s\<close> to \<open>s'\<close> and drives the line as \<open>tr\<close> says.\<close>

definition does :: "nat \<Rightarrow> pio_sm \<Rightarrow> u32 list \<Rightarrow> bool list \<Rightarrow> pio_sm \<Rightarrow> bool" where
  "does n s ps tr s' \<longleftrightarrow>
    pio_drive (onewire_config n) onewire_program ps s = tr \<and> pio_run (onewire_config n) onewire_program ps s = s'"

lemma does_seq: "does n s ps tr s1 \<Longrightarrow> does n s1 qs tr' s2 \<Longrightarrow> does n s (ps @ qs) (tr @ tr') s2"
  by (auto simp: does_def pio_run_append pio_drive_append)

text \<open>An instruction that does not stall takes one cycle and its delay, with the direction of its side-set throughout.\<close>

lemma does_instr:
  assumes "onewire_program ! p_pc s = (ins, Some b, d)" "p_delay s = 0"
    and "pio_exec (onewire_config n) p ins (s\<lparr>p_low := b\<rparr>) = Some s'" "p_low s' = b" "length ps = d"
  shows "does n s (p # ps) (replicate (Suc d) b) (s'\<lparr>p_delay := 0\<rparr>)"
proof -
  have "pio_cycle (onewire_config n) onewire_program p s = s'\<lparr>p_delay := d\<rparr>"
    using assms(1-3) by (simp add: pio_cycle_def)
  then show ?thesis using pio_run_delay [of ps "s'\<lparr>p_delay := d\<rparr>"] assms(4,5) by (simp add: does_def)
qed

text \<open>The machine between two instructions.\<close>

definition machine :: "nat \<Rightarrow> bool \<Rightarrow> u32 \<Rightarrow> u32 \<Rightarrow> u32 \<times> nat \<Rightarrow> u32 \<times> nat \<Rightarrow> u32 list \<Rightarrow> u32 list \<Rightarrow> pio_sm" where
  "machine pc low x y = (\<lambda>(i, ic) (o', oc) tx rx.
    \<lparr> p_pc = pc, p_x = x, p_y = y, p_isr = i, p_icount = ic, p_osr = o', p_ocount = oc, p_delay = 0, p_low = low, p_tx = tx, p_rx = rx \<rparr>)"

lemmas ow_exec = machine_def onewire_program_def onewire_config_def onewire_offset_fetch_bit_def pio_next_def

lemma does_one:
  assumes "onewire_program ! pc = (ins, Some b, d)" "length ps = Suc d"
    and "pio_exec (onewire_config n) (hd ps) ins (machine pc b x y I Q tx rx) = Some (machine pc' b x' y I' Q' tx' rx')"
  shows "does n (machine pc low x y I Q tx rx) ps (replicate (Suc d) b) (machine pc' b x' y I' Q' tx' rx')"
proof -
  obtain p qs where ps: "ps = p # qs" "length qs = d" using assms(2) by (cases ps) auto
  have s: "p_pc (machine pc low x y I Q tx rx) = pc" "p_delay (machine pc low x y I Q tx rx) = 0"
    "(machine pc low x y I Q tx rx)\<lparr>p_low := b\<rparr> = machine pc b x y I Q tx rx" for pc low x I Q tx rx
    by (cases I; cases Q; simp add: machine_def)+
  have t: "p_low (machine pc' b x' y I' Q' tx' rx') = b" "(machine pc' b x' y I' Q' tx' rx')\<lparr>p_delay := 0\<rparr> = machine pc' b x' y I' Q' tx' rx'"
    by (cases I'; cases Q'; simp add: machine_def)+
  have "does n (machine pc low x y I Q tx rx) (p # qs) (replicate (Suc d) b) ((machine pc' b x' y I' Q' tx' rx')\<lparr>p_delay := 0\<rparr>)"
    using does_instr [of "machine pc low x y I Q tx rx" ins b d n p _ qs] assms(1,3) ps s t(1) by simp
  then show ?thesis unfolding t(2) ps(1) .
qed

text \<open>The instructions one by one: the number of cycles, the direction, the next state.\<close>

lemma does_set:
  "length ps = 16 \<Longrightarrow> does n (machine 0 low x y I Q tx rx) ps (replicate 16 True) (machine 1 True 28 y I Q tx rx)"
  "length ps = 7 \<Longrightarrow> does n (machine 2 low x y I Q tx rx) ps (replicate 7 False) (machine 3 False 8 y I Q tx rx)"
  "length ps = 8 \<Longrightarrow> does n (machine 6 low x y I Q tx rx) ps (replicate 8 False) (machine 7 False 24 y I Q tx rx)"
  "length ps = 9 \<Longrightarrow> does n (machine 10 low x y I Q tx rx) ps (replicate 9 False) (machine 11 False 2 y I Q tx rx)"
  "length ps = 6 \<Longrightarrow> does n (machine 14 low x y I Q tx rx) ps (replicate 6 True) (machine 15 True 2 y I Q tx rx)"
  using does_one [of 0 "I_Set Reg_X 28" True 15 ps n x y I Q tx rx 1 28 I Q tx rx low]
    does_one [of 2 "I_Set Reg_X 8" False 6 ps n x y I Q tx rx 3 8 I Q tx rx low]
    does_one [of 6 "I_Set Reg_X 24" False 7 ps n x y I Q tx rx 7 24 I Q tx rx low]
    does_one [of 10 "I_Set Reg_X 2" False 8 ps n x y I Q tx rx 11 2 I Q tx rx low]
    does_one [of 14 "I_Set Reg_X 2" True 5 ps n x y I Q tx rx 15 2 I Q tx rx low]
  by (cases I; cases Q; simp add: ow_exec)+

lemma does_jump:
  "length ps = 6 \<Longrightarrow> does n (machine 9 low x y I Q tx rx) ps (replicate 6 True) (machine (if x = 0 then 14 else 10) True x y I Q tx rx)"
  "length ps = 1 \<Longrightarrow> does n (machine 13 low x y I Q tx rx) ps (replicate 1 False) (machine 8 False x y I Q tx rx)"
  using does_one [of 9 "I_Jmp If_Not_X 14" True 5 ps n x y I Q tx rx "if x = 0 then 14 else 10" x I Q tx rx low]
    does_one [of 13 "I_Jmp Always 8" False 0 ps n x y I Q tx rx 8 x I Q tx rx low]
  by (cases I; cases Q; simp add: ow_exec)+

text \<open>A loop that counts down in place.\<close>

lemma does_loop:
  assumes "onewire_program ! pc = (I_Jmp If_X_Dec pc, Some b, d)" "pc < 16" "length ps = Suc k * Suc d" "k < 2 ^ 32"
  shows "does n (machine pc low (of_nat k) y I Q tx rx) ps (replicate (Suc k * Suc d) b) (machine (pc + 1) b (- 1) y I Q tx rx)"
  using assms(3,4)
proof (induction k arbitrary: ps low)
  case 0
  have "pio_exec (onewire_config n) (hd ps) (I_Jmp If_X_Dec pc) (machine pc b 0 y I Q tx rx) = Some (machine (pc + 1) b (- 1) y I Q tx rx)"
    using assms(2) by (cases I; cases Q; simp add: machine_def onewire_config_def pio_next_def)
  from does_one [OF assms(1) _ this, of low] 0 show ?case by simp
next
  case (Suc k)
  have "(of_nat (Suc k) :: u32) \<noteq> 0" using Suc.prems(2) of_nat_u32(1) [of "Suc k"] by simp
  then have "pio_exec (onewire_config n) (hd (take (Suc d) ps)) (I_Jmp If_X_Dec pc) (machine pc b (of_nat (Suc k)) y I Q tx rx) = Some (machine pc b (of_nat k) y I Q tx rx)"
    by (cases I; cases Q; simp add: machine_def onewire_config_def pio_next_def)
  from does_one [OF assms(1) _ this, of low] Suc.prems(1)
  have "does n (machine pc low (of_nat (Suc k)) y I Q tx rx) (take (Suc d) ps) (replicate (Suc d) b) (machine pc b (of_nat k) y I Q tx rx)" by simp
  moreover have "length (drop (Suc d) ps) = Suc k * Suc d" using Suc.prems(1) by simp
  from Suc.IH [OF this] Suc.prems(2)
  have "does n (machine pc b (of_nat k) y I Q tx rx) (drop (Suc d) ps) (replicate (Suc k * Suc d) b) (machine (pc + 1) b (- 1) y I Q tx rx)" by simp
  ultimately have "does n (machine pc low (of_nat (Suc k)) y I Q tx rx) (take (Suc d) ps @ drop (Suc d) ps)
      (replicate (Suc d) b @ replicate (Suc k * Suc d) b) (machine (pc + 1) b (- 1) y I Q tx rx)" by (rule does_seq)
  then show ?case by (simp add: replicate_add [symmetric] ac_simps del: replicate_Suc)
qed

lemma does_loops:
  "length ps = 464 \<Longrightarrow> does n (machine 1 low 28 y I Q tx rx) ps (replicate 464 True) (machine 2 True (- 1) y I Q tx rx)"
  "length ps = 63 \<Longrightarrow> does n (machine 3 low 8 y I Q tx rx) ps (replicate 63 False) (machine 4 False (- 1) y I Q tx rx)"
  "length ps = 400 \<Longrightarrow> does n (machine 7 low 24 y I Q tx rx) ps (replicate 400 False) (machine 8 False (- 1) y I Q tx rx)"
  "length ps = 48 \<Longrightarrow> does n (machine 12 low 2 y I Q tx rx) ps (replicate 48 False) (machine 13 False (- 1) y I Q tx rx)"
  "length ps = 48 \<Longrightarrow> does n (machine 15 low 2 y I Q tx rx) ps (replicate 48 True) (machine 16 True (- 1) y I Q tx rx)"
  using does_loop [of 1 True 15 ps 28 n low y I Q tx rx] does_loop [of 3 False 6 ps 8 n low y I Q tx rx]
    does_loop [of 7 False 15 ps 24 n low y I Q tx rx] does_loop [of 12 False 15 ps 2 n low y I Q tx rx]
    does_loop [of 15 True 15 ps 2 n low y I Q tx rx]
  by (simp_all add: onewire_program_def del: One_nat_def)

text \<open>Shifting a bit out, with the automatic pull, and in, with the automatic push.\<close>

definition pushed :: "nat \<Rightarrow> bool \<Rightarrow> u32 \<times> nat \<Rightarrow> u32 list \<Rightarrow> (u32 \<times> nat) \<times> u32 list" where
  "pushed n b = (\<lambda>(i, ic) rx.
    (let v = pio_shift_in True 1 (of_bool b) i in if n \<le> ic + 1 then ((0, 0), rx @ [v]) else ((v, ic + 1), rx)))"

lemma pio_shift_in_bit: "pio_shift_in True (Suc 0) v i = pio_shift_in True (Suc 0) (of_bool (bit v 0)) i"
  by (simp add: pio_shift_in_def take_bit_Suc bit_0 mod2_eq_if)

lemma does_out:
  "length ps = 1 \<Longrightarrow> oc < n \<Longrightarrow> does n (machine 8 low x y I (v, oc) tx rx) ps (replicate 1 False) (machine 9 False (of_bool (bit v 0)) y I (drop_bit 1 v, oc + 1) tx rx)"
  "length ps = 1 \<Longrightarrow> 0 < n \<Longrightarrow> n \<le> oc \<Longrightarrow>
    does n (machine 8 low x y I (v, oc) (w # tx) rx) ps (replicate 1 False) (machine 9 False (of_bool (bit w 0)) y I (drop_bit 1 w, 1) tx rx)"
  using does_one [of 8 "I_Out Reg_X 1" False 0 ps n x y I "(v, oc)" tx rx 9 "of_bool (bit v 0)" I "(drop_bit 1 v, oc + 1)" tx rx low]
    does_one [of 8 "I_Out Reg_X 1" False 0 ps n x y I "(v, oc)" "w # tx" rx 9 "of_bool (bit w 0)" I "(drop_bit 1 w, 1)" tx rx low]
  by (cases I; simp add: ow_exec Let_def take_bit_Suc bit_0 mod2_eq_if)+

lemma does_in:
  assumes "snd I < n" "n \<le> 32" "length rx < 4"
  shows "length ps = 5 \<Longrightarrow> does n (machine 11 low x y I Q tx rx) ps (replicate 5 False)
      (machine 12 False x y (fst (pushed n (bit (hd ps) 0) I rx)) Q tx (snd (pushed n (bit (hd ps) 0) I rx)))"
    and "length ps = 9 \<Longrightarrow> does n (machine 16 low x y I Q tx rx) ps (replicate 9 False)
      (machine 8 False x y (fst (pushed n False I rx)) Q tx (snd (pushed n False I rx)))"
  using assms pio_shift_in_bit [of "hd ps"]
    does_one [of 11 "I_In Reg_Pins 1" False 4 ps n x y I Q tx rx 12 x "fst (pushed n (bit (hd ps) 0) I rx)" Q tx "snd (pushed n (bit (hd ps) 0) I rx)" low]
    does_one [of 16 "I_In Reg_Null 1" False 8 ps n x y I Q tx rx 8 x "fst (pushed n False I rx)" Q tx "snd (pushed n False I rx)" low]
  by (cases I; cases Q; simp add: ow_exec Let_def pushed_def PIO_FIFO_DEPTH_def)+

section \<open>Time slots\<close>

text \<open>The line in a slot of 70 microseconds: low for 6 to send a one or to read, low for 60 to send a zero.\<close>

definition slot_drive :: "bool \<Rightarrow> bool list" where
  "slot_drive b = (if b then [False] @ replicate 6 True @ replicate 63 False else [False] @ replicate 60 True @ replicate 9 False)"

lemma does_split: "does n s (take k ps) tr s1 \<Longrightarrow> does n s1 (drop k ps) tr' s2 \<Longrightarrow> does n s ps (tr @ tr') s2"
  using does_seq by fastforce

lemma does_rest_of_slot:
  assumes "snd I < n" "n \<le> 32" "length rx < 4" "length ps = 69"
  shows "does n (machine 9 False (of_bool b) y I Q tx rx) ps (tl (slot_drive b))
    (machine 8 False (- 1) y (fst (pushed n (b \<and> bit (ps ! 15) 0) I rx)) Q tx (snd (pushed n (b \<and> bit (ps ! 15) 0) I rx)))"
proof (cases b)
  case True
  let ?P = "pushed n (bit (ps ! 15) 0) I rx"
  have hd: "hd (take 5 (drop 15 ps)) = ps ! 15" using assms(4) by (simp add: hd_drop_conv_nth)
  have "does n (machine 9 False 1 y I Q tx rx) ps (replicate 6 True @ replicate 9 False @ replicate 5 False @ replicate 48 False @ replicate 1 False)
      (machine 8 False (- 1) y (fst ?P) Q tx (snd ?P))"
    apply (rule does_split [where k = 6, OF does_jump(1)], simp add: assms(4))
    apply (simp, rule does_split [where k = 9, OF does_set(4)], simp add: assms(4))
    apply (simp, rule does_split [where k = 5], rule does_in(1) [OF assms(1-3)], simp add: assms(4))
    apply (simp add: hd, rule does_split [where k = 48, OF does_loops(4)], simp add: assms(4))
    apply (rule does_jump(2) [simplified], simp add: assms(4))
    done
  moreover have "replicate 6 True @ replicate 9 False @ replicate 5 False @ replicate 48 False @ replicate 1 False = tl (slot_drive True)"
    by (simp add: slot_drive_def replicate_add [symmetric] del: replicate.simps)
  ultimately show ?thesis using True by simp
next
  case False
  let ?P = "pushed n False I rx"
  have "does n (machine 9 False 0 y I Q tx rx) ps (replicate 6 True @ replicate 6 True @ replicate 48 True @ replicate 9 False)
      (machine 8 False (- 1) y (fst ?P) Q tx (snd ?P))"
    apply (rule does_split [where k = 6, OF does_jump(1)], simp add: assms(4))
    apply (simp, rule does_split [where k = 6, OF does_set(5)], simp add: assms(4))
    apply (simp, rule does_split [where k = 48, OF does_loops(5)], simp add: assms(4))
    apply (rule does_in(2) [OF assms(1-3)], simp add: assms(4))
    done
  moreover have "replicate 6 True @ replicate 6 True @ replicate 48 True @ replicate 9 False = tl (slot_drive False)"
    by (simp add: slot_drive_def flip: replicate_add append_assoc del: replicate.simps)
  ultimately show ?thesis using False by simp
qed

lemma slot_drive_hd: "slot_drive b = replicate 1 False @ tl (slot_drive b)"
  by (simp add: slot_drive_def)

lemma does_slot:
  assumes "snd I < n" "n \<le> 32" "length rx < 4" "length ps = 70" "oc < n"
  shows "does n (machine 8 low x y I (v, oc) tx rx) ps (slot_drive (bit v 0))
    (machine 8 False (- 1) y (fst (pushed n (bit v 0 \<and> bit (ps ! 16) 0) I rx)) (drop_bit 1 v, oc + 1) tx (snd (pushed n (bit v 0 \<and> bit (ps ! 16) 0) I rx)))"
proof -
  have 1: "does n (machine 8 low x y I (v, oc) tx rx) (take 1 ps) (replicate 1 False) (machine 9 False (of_bool (bit v 0)) y I (drop_bit 1 v, oc + 1) tx rx)"
    using assms(4,5) by (intro does_out(1)) simp_all
  have "drop 1 ps ! 15 = ps ! 16" "length (drop 1 ps) = 69" using assms(4) by simp_all
  from does_rest_of_slot [OF assms(1-3) this(2), of "bit v 0" y "(drop_bit 1 v, oc + 1)" tx, unfolded this(1)] does_split [OF 1]
  show ?thesis using slot_drive_hd [of "bit v 0"] by metis
qed

text \<open>At the threshold the slot starts with the next word of the queue.\<close>

lemma does_slot_pull:
  assumes "0 < n" "n \<le> oc" "ps \<noteq> []" "does n (machine 8 low x y I (w, 0) tx rx) ps tr s'"
  shows "does n (machine 8 low x y I (v, oc) (w # tx) rx) ps tr s'"
proof -
  obtain p qs where ps: "ps = p # qs" using assms(3) by (cases ps) auto
  have "pio_cycle (onewire_config n) onewire_program p (machine 8 low x y I (v, oc) (w # tx) rx) =
      pio_cycle (onewire_config n) onewire_program p (machine 8 low x y I (w, 0) tx rx)"
    using assms(1,2) by (cases I) (simp add: pio_cycle_def ow_exec Let_def)
  then show ?thesis using assms(4) by (simp add: does_def ps)
qed

text \<open>The bits of a word that are still to be shifted, and what has come in.\<close>

fun shifted :: "bool list \<Rightarrow> u32 \<Rightarrow> u32" where
  "shifted [] v = v"
| "shifted (b # bs) v = shifted bs (pio_shift_in True 1 (of_bool b) v)"

definition slot_bits :: "nat \<Rightarrow> u32 \<Rightarrow> u32 list \<Rightarrow> bool list" where
  "slot_bits k w ps = map (\<lambda>i. bit w i \<and> bit (ps ! (70 * i + 16)) 0) [0..<k]"

lemma slot_bits_Suc:
  "70 \<le> length ps \<Longrightarrow> slot_bits (Suc k) w ps = (bit w 0 \<and> bit (ps ! 16) 0) # slot_bits k (drop_bit 1 w) (drop 70 ps)"
  by (simp add: slot_bits_def upt_conv_Cons map_Suc_upt [symmetric] bit_drop_bit_eq add.commute del: upt_Suc)

lemma slot_drives_Suc:
  "concat (map (\<lambda>i. slot_drive (bit w i)) [0..<Suc k]) = slot_drive (bit w 0) @ concat (map (\<lambda>i. slot_drive (bit (drop_bit 1 w) i)) [0..<k])"
  by (simp add: upt_conv_Cons map_Suc_upt [symmetric] bit_drop_bit_eq o_def del: upt_Suc)

lemma does_slots:
  assumes "length ps = 70 * Suc k" "j + Suc k = n" "n \<le> 32" "length rx < 4"
  shows "\<exists>u. does n (machine 8 low x y (i, j) (w, j) tx rx) ps (concat (map (\<lambda>i. slot_drive (bit w i)) [0..<Suc k]))
    (machine 8 False (- 1) y (0, 0) (u, n) tx (rx @ [shifted (slot_bits (Suc k) w ps) i]))"
  using assms
proof (induction k arbitrary: ps j low x i w)
  case 0
  then have "snd (i, j) < n" "length ps = 70" "j < n" "n \<le> j + 1" by simp_all
  from does_slot [OF this(1) 0(3,4) this(2,3), of low x y w tx] this 0(2) show ?case
    by (intro exI [of _ "drop_bit 1 w"]) (cases "bit w 0"; cases "bit (ps ! 16) 0"; simp add: slot_bits_def pushed_def)
next
  case (Suc k)
  let ?b = "bit w 0 \<and> bit (ps ! 16) 0" and ?v = "drop_bit 1 w"
  have 1: "does n (machine 8 low x y (i, j) (w, j) tx rx) (take 70 ps) (slot_drive (bit w 0))
      (machine 8 False (- 1) y (pio_shift_in True 1 (of_bool ?b) i, j + 1) (?v, j + 1) tx rx)"
    using does_slot [of "(i, j)" n rx "take 70 ps" j low x y w tx] Suc.prems by (simp add: pushed_def)
  have "length (drop 70 ps) = 70 * Suc k" "(j + 1) + Suc k = n" using Suc.prems by simp_all
  from Suc.IH [OF this Suc.prems(3,4), of False "- 1" "pio_shift_in True 1 (of_bool ?b) i" ?v] obtain u where
    "does n (machine 8 False (- 1) y (pio_shift_in True 1 (of_bool ?b) i, j + 1) (?v, j + 1) tx rx) (drop 70 ps)
      (concat (map (\<lambda>i. slot_drive (bit ?v i)) [0..<Suc k]))
      (machine 8 False (- 1) y (0, 0) (u, n) tx (rx @ [shifted (slot_bits (Suc k) ?v (drop 70 ps)) (pio_shift_in True 1 (of_bool ?b) i)]))" by blast
  note 2 = does_split [OF 1 this]
  have long: "70 \<le> length ps" using Suc.prems(1) by simp
  from 2 show ?case unfolding slot_bits_Suc [OF long, of "Suc k"] slot_drives_Suc [of w "Suc k"] shifted.simps by blast
qed

lemma bit_shifted:
  "length bs \<le> 32 \<Longrightarrow> m < 32 \<Longrightarrow>
   bit (shifted bs v) m \<longleftrightarrow> (if 32 - length bs \<le> m then bs ! (m - (32 - length bs)) else bit v (m + length bs))"
proof (induction bs arbitrary: v)
  case (Cons b bs)
  have v: "bit (pio_shift_in True 1 (of_bool b) v) m \<longleftrightarrow> (if m = 31 then b else bit v (m + 1))" if "m < 32" for m
    using that bit_imp_le_length [of v 32] by (auto simp: pio_shift_in_def bit_simps)
  have "bit (shifted (b # bs) v) m \<longleftrightarrow> (if 32 - length bs \<le> m then bs ! (m - (32 - length bs)) else bit (pio_shift_in True 1 (of_bool b) v) (m + length bs))"
    using Cons by simp
  also have "\<dots> \<longleftrightarrow> (if 32 - length (b # bs) \<le> m then (b # bs) ! (m - (32 - length (b # bs))) else bit v (m + length (b # bs)))"
  proof (cases "32 - length bs \<le> m")
    case True
    then have "m - (32 - length (b # bs)) = Suc (m - (32 - length bs))" using Cons.prems by simp
    moreover have "32 - length (b # bs) \<le> m" using True by simp
    ultimately show ?thesis using True by simp
  next
    case False
    then have "m + length bs < 32" by simp
    then show ?thesis using False v [of "m + length bs"] Cons.prems(1) by (cases "m + length bs = 31") (auto simp: nth_Cons')
  qed
  finally show ?case .
qed simp

text \<open>C21: What the state machine does with a word. From the fetch of a bit it puts the \<open>n\<close> bits of the word on the line, least significant
  first, in slots of exactly 70 microseconds: low for 6 for a one, which is also how it reads, and for 60 for a zero, released
  for the rest. The answer has in its top \<open>n\<close> bits, least significant first, the level of the line 15 microseconds after the start
  of each reading slot, and zeros where a zero was sent. It stops at the next fetch, with the
  line released.\<close>

theorem onewire_word_transfer:
  assumes "1 \<le> n" "n \<le> 32" "length ps = 70 * n" "n \<le> oc"
  shows "\<exists>r u. pio_drive (onewire_config n) onewire_program ps (machine 8 low x y (0, 0) (v, oc) [w] []) = concat (map (\<lambda>i. slot_drive (bit w i)) [0..<n]) \<and>
    pio_run (onewire_config n) onewire_program ps (machine 8 low x y (0, 0) (v, oc) [w] []) = machine 8 False (- 1) y (0, 0) (u, n) [] [r] \<and>
    (\<forall>i < 32. bit r i \<longleftrightarrow> 32 - n \<le> i \<and> bit w (i - (32 - n)) \<and> bit (ps ! (70 * (i - (32 - n)) + 16)) 0)"
proof -
  obtain k where k: "n = Suc k" using assms(1) by (cases n) auto
  from does_slots [of ps k 0 n "[]" low x y 0 w "[]"] assms k obtain u where
    "does n (machine 8 low x y (0, 0) (w, 0) [] []) ps (concat (map (\<lambda>i. slot_drive (bit w i)) [0..<n])) (machine 8 False (- 1) y (0, 0) (u, n) [] [shifted (slot_bits n w ps) 0])"
    by auto
  moreover have "0 < n" "ps \<noteq> []" using assms(1,3) by auto
  ultimately have "does n (machine 8 low x y (0, 0) (v, oc) [w] []) ps (concat (map (\<lambda>i. slot_drive (bit w i)) [0..<n]))
      (machine 8 False (- 1) y (0, 0) (u, n) [] [shifted (slot_bits n w ps) 0])" using does_slot_pull assms(4) by blast
  moreover have "bit (shifted (slot_bits n w ps) 0) i \<longleftrightarrow> 32 - n \<le> i \<and> bit w (i - (32 - n)) \<and> bit (ps ! (70 * (i - (32 - n)) + 16)) 0" if "i < 32" for i
    using bit_shifted [of "slot_bits n w ps" i 0] that assms(1,2) by (auto simp: slot_bits_def)
  ultimately show ?thesis unfolding does_def by blast
qed

text \<open>The reset: low for 480 microseconds, released for 480, the line read 70 microseconds after the release.\<close>

lemma does_sample:
  "length rx < 4 \<Longrightarrow> length ps = 2 \<Longrightarrow> does n (machine 4 low x y I Q tx rx) ps (replicate 2 False) (machine 6 False x y (0, 0) Q tx (rx @ [hd ps]))"
proof -
  assume a: "length rx < 4" "length ps = 2"
  have "does n (machine 4 low x y I Q tx rx) (take 1 ps) (replicate 1 False) (machine 5 False x y (hd ps, 0) Q tx rx)"
    using does_one [of 4 "I_Mov Reg_Isr Reg_Pins" False 0 "take 1 ps" n x y I Q tx rx 5 x "(hd ps, 0)" Q tx rx low] a
    by (cases I; cases Q; simp add: ow_exec)
  moreover have "does n (machine 5 False x y (hd ps, 0) Q tx rx) (drop 1 ps) (replicate 1 False) (machine 6 False x y (0, 0) Q tx (rx @ [hd ps]))"
    using does_one [of 5 I_Push False 0 "drop 1 ps" n x y "(hd ps, 0)" Q tx rx 6 x "(0, 0)" Q tx "rx @ [hd ps]" False] a
    by (cases Q; simp add: ow_exec PIO_FIFO_DEPTH_def)
  ultimately have "does n (machine 4 low x y I Q tx rx) ps (replicate 1 False @ replicate 1 False) (machine 6 False x y (0, 0) Q tx (rx @ [hd ps]))"
    by (rule does_split)
  then show ?thesis by (simp add: numeral_2_eq_2)
qed

lemma does_reset:
  assumes "length ps = 960" "length rx < 4"
  shows "does n (onewire_reset_instr (machine pc low x y I Q tx rx)) ps (replicate 480 True @ replicate 480 False)
    (machine 8 False (- 1) y (0, 0) Q tx (rx @ [ps ! 550]))"
proof -
  have hd: "hd (take 2 (drop 550 ps)) = ps ! 550" using assms(1) by (simp add: hd_drop_conv_nth)
  have "does n (machine 0 False x y I Q tx rx) ps
      (replicate 16 True @ replicate 464 True @ replicate 7 False @ replicate 63 False @ replicate 2 False @ replicate 8 False @ replicate 400 False)
      (machine 8 False (- 1) y (0, 0) Q tx (rx @ [ps ! 550]))"
    apply (rule does_split [where k = 16, OF does_set(1)], simp add: assms(1))
    apply (rule does_split [where k = 464, OF does_loops(1)], simp add: assms(1))
    apply (rule does_split [where k = 7, OF does_set(2)], simp add: assms(1))
    apply (rule does_split [where k = 63, OF does_loops(2)], simp add: assms(1))
    apply (simp only: drop_drop, simp, rule does_split [where k = 2, OF does_sample [OF assms(2)]], simp add: assms(1))
    apply (simp only: hd, rule does_split [where k = 8, OF does_set(3)], simp add: assms(1))
    apply (rule does_loops(3), simp add: assms(1))
    done
  moreover have "replicate 16 True @ replicate 464 True @ replicate 7 False @ replicate 63 False @ replicate 2 False @ replicate 8 False @ replicate 400 False =
      replicate 480 True @ replicate 480 False"
    by (simp add: replicate_add [symmetric] append_assoc [symmetric] del: append_assoc replicate.simps)
  moreover have "onewire_reset_instr (machine pc low x y I Q tx rx) = machine 0 False x y I Q tx rx"
    by (cases I; cases Q; simp add: machine_def onewire_reset_instr_def onewire_offset_reset_bus_def)
  ultimately show ?thesis by simp
qed

section \<open>The driver on the state machine\<close>

text \<open>What is on the other side of the line. In a slot the devices see whether the master sends a one, which is also how it
  reads, or a zero; they answer by holding the line low, or not. To a reset they answer with a presence pulse, or not.\<close>

record 'd wire_side =
  ws_slot :: "bool \<Rightarrow> 'd \<Rightarrow> bool \<times> 'd"
  ws_reset :: "'d \<Rightarrow> bool \<times> 'd"

text \<open>Their electrical behaviour: they tell a one from a zero by the time the master holds the line low, and an answer holds
  the line low for the first \<open>hold\<close> cycles of the slot.\<close>

record line_timing =
  hold :: nat
  presence_wait :: nat
  presence_length :: nat

definition timing_ok :: "line_timing \<Rightarrow> bool" where
  "timing_ok tm \<longleftrightarrow> 17 \<le> hold tm \<and> presence_wait tm \<le> 70 \<and> 70 < presence_wait tm + presence_length tm"

definition line_slot :: "line_timing \<Rightarrow> 'd wire_side \<Rightarrow> bool list \<Rightarrow> 'd \<Rightarrow> u32 list \<times> 'd" where
  "line_slot tm ws drive d =
    (let (pull, d') = ws_slot ws (length (filter (\<lambda>b. b) drive) < 15) d
     in (map (\<lambda>i. of_bool (\<not> drive ! i \<and> \<not> (pull \<and> i < hold tm))) [0..<length drive], d'))"

definition line_reset :: "line_timing \<Rightarrow> 'd wire_side \<Rightarrow> bool list \<Rightarrow> 'd \<Rightarrow> u32 list \<times> 'd" where
  "line_reset tm ws drive d =
    (let (present, d') = ws_reset ws d
     in (map (\<lambda>i. of_bool (\<not> drive ! i \<and> \<not> (present \<and> 480 + presence_wait tm \<le> i \<and> i < 480 + presence_wait tm + presence_length tm)))
           [0..<length drive], d'))"

text \<open>A word takes its number of slots; the directions of the line do not depend on its levels.\<close>

fun run_slots :: "line_timing \<Rightarrow> 'd wire_side \<Rightarrow> nat \<Rightarrow> nat \<Rightarrow> pio_sm \<times> 'd \<Rightarrow> pio_sm \<times> 'd" where
  "run_slots tm ws n 0 st = st"
| "run_slots tm ws n (Suc k) (s, d) =
    (let (ps, d') = line_slot tm ws (pio_drive (onewire_config n) onewire_program (replicate 70 0) s) d
     in run_slots tm ws n k (pio_run (onewire_config n) onewire_program ps s, d'))"

text \<open>The four operations of the driver on the state machine with the devices; the first component is the word length the
  machine is configured for. A word is sent and answered within \<open>pio_sm_put_blocking\<close> and the \<open>pio_sm_get_blocking\<close>
  after it.\<close>

definition pio_line_bus :: "line_timing \<Rightarrow> 'd wire_side \<Rightarrow> (nat \<times> pio_sm \<times> 'd) pio_bus" where
  "pio_line_bus tm ws = \<lparr>
     sm_init = (\<lambda>n (_, s, d). (n, onewire_sm_init s, d)),
     sm_put = (\<lambda>w (n, s, d). (n, run_slots tm ws n n (s\<lparr>p_tx := p_tx s @ [w]\<rparr>, d))),
     sm_get = (\<lambda>(n, s, d). (hd (p_rx s), (n, s\<lparr>p_rx := tl (p_rx s)\<rparr>, d))),
     sm_exec_reset = (\<lambda>(n, s, d).
       (let s1 = onewire_reset_instr s;
            (ps, d') = line_reset tm ws (pio_drive (onewire_config n) onewire_program (replicate 960 0) s1) d
        in (n, pio_run (onewire_config n) onewire_program ps s1, d'))) \<rparr>"

text \<open>The machine between two words of \<open>n\<close> bits.\<close>

definition idle :: "nat \<Rightarrow> pio_sm \<Rightarrow> bool" where
  "idle n s \<longleftrightarrow> (\<exists>x y v oc. s = machine 8 False x y (0, 0) (v, oc) [] [] \<and> n \<le> oc)"

lemma idle_init: "\<not> p_low s \<Longrightarrow> n \<le> 32 \<Longrightarrow> idle n (onewire_sm_init s)"
proof -
  assume "\<not> p_low s" "n \<le> 32"
  then have "onewire_sm_init s = machine 8 False (p_x s) (p_y s) (0, 0) (p_osr s, 32) [] [] \<and> n \<le> 32"
    by (cases s) (simp add: onewire_sm_init_def machine_def onewire_offset_fetch_bit_def)
  then show ?thesis unfolding idle_def by blast
qed

lemma idle_low: "idle n s \<Longrightarrow> \<not> p_low s" "idle n s \<Longrightarrow> s\<lparr>p_rx := []\<rparr> = s"
  by (auto simp: idle_def machine_def)

lemma length_slot_drive [simp]: "length (slot_drive b) = 70"
  by (simp add: slot_drive_def)

lemma slot_drive_lows: "length (filter (\<lambda>b. b) (slot_drive b)) < 15 \<longleftrightarrow> b"
  by (simp add: slot_drive_def)

lemma slot_drive_released: "b \<Longrightarrow> \<not> slot_drive b ! 16"
  by (simp add: slot_drive_def nth_append)

text \<open>What the devices make of the slots of a word, and the bits the master gets.\<close>

fun wire_word :: "'d wire_side \<Rightarrow> nat \<Rightarrow> u32 \<Rightarrow> 'd \<Rightarrow> bool list \<times> 'd" where
  "wire_word ws 0 w d = ([], d)"
| "wire_word ws (Suc k) w d =
    (let (pull, d1) = ws_slot ws (bit w 0) d; (bs, d2) = wire_word ws k (drop_bit 1 w) d1 in ((bit w 0 \<and> \<not> pull) # bs, d2))"

lemma length_wire_word: "length (fst (wire_word ws k w d)) = k"
  by (induction k arbitrary: w d) (simp_all add: case_prod_beta Let_def)

text \<open>One slot on the line.\<close>

lemma line_slot_levels:
  assumes "timing_ok tm" "ws_slot ws b d = (pull, d')"
  shows "\<exists>ps. line_slot tm ws (slot_drive b) d = (ps, d') \<and> length ps = 70 \<and> (b \<and> bit (ps ! 16) 0 \<longleftrightarrow> b \<and> \<not> pull)"
proof -
  let ?ps = "map (\<lambda>i. of_bool (\<not> slot_drive b ! i \<and> \<not> (pull \<and> i < hold tm)) :: u32) [0..<70]"
  have "line_slot tm ws (slot_drive b) d = (?ps, d')" using assms(2) by (simp add: line_slot_def slot_drive_lows)
  moreover have "bit (?ps ! 16) 0 \<longleftrightarrow> \<not> pull" if b using assms(1) slot_drive_released [OF that] by (simp add: timing_ok_def)
  moreover have "length ?ps = 70" by simp
  ultimately show ?thesis by blast
qed

lemma run_slots_step:
  assumes "timing_ok tm" "ws_slot ws b d = (pull, d')"
    and does: "\<And>ps. length ps = 70 \<Longrightarrow> does n s ps (slot_drive b) (f (b \<and> bit (ps ! 16) 0))"
  shows "run_slots tm ws n (Suc k) (s, d) = run_slots tm ws n k (f (b \<and> \<not> pull), d')"
proof -
  obtain ps where ps: "line_slot tm ws (slot_drive b) d = (ps, d')" "length ps = 70" "b \<and> bit (ps ! 16) 0 \<longleftrightarrow> b \<and> \<not> pull"
    using line_slot_levels [OF assms(1,2)] by blast
  have "pio_drive (onewire_config n) onewire_program (replicate 70 0) s = slot_drive b" using does [of "replicate 70 0"] by (simp add: does_def)
  moreover have "pio_run (onewire_config n) onewire_program ps s = f (b \<and> \<not> pull)" using does [OF ps(2)] unfolding does_def ps(3) by blast
  ultimately show ?thesis by (simp add: ps(1))
qed

lemma run_slots_rest:
  assumes "timing_ok tm" "j + Suc k = n" "n \<le> 32" "wire_word ws (Suc k) w d = (bs, d')"
  shows "\<exists>u. run_slots tm ws n (Suc k) (machine 8 low x y (i, j) (w, j) [] [], d) =
    (machine 8 False (- 1) y (0, 0) (u, n) [] [shifted bs i], d')"
  using assms(2,4)
proof (induction k arbitrary: j low x i w d bs)
  case 0
  obtain pull where p: "ws_slot ws (bit w 0) d = (pull, d')" "bs = [bit w 0 \<and> \<not> pull]" using 0(2) by (auto split: prod.splits)
  have "does n (machine 8 low x y (i, j) (w, j) [] []) ps (slot_drive (bit w 0))
      (machine 8 False (- 1) y (0, 0) (drop_bit 1 w, n) [] [pio_shift_in True 1 (of_bool (bit w 0 \<and> bit (ps ! 16) 0)) i])" if "length ps = 70" for ps
    using does_slot [of "(i, j)" n "[]" ps j low x y w "[]"] that 0(1) assms(3) by (simp add: pushed_def Let_def)
  from run_slots_step [OF assms(1) p(1) this, of 0] p(2) show ?case by auto
next
  case (Suc k)
  obtain pull d1 bs' where p: "ws_slot ws (bit w 0) d = (pull, d1)" "wire_word ws (Suc k) (drop_bit 1 w) d1 = (bs', d')" "bs = (bit w 0 \<and> \<not> pull) # bs'"
    using Suc.prems(2) by (auto simp only: wire_word.simps(2) [of ws "Suc k"] Let_def split: prod.splits)
  let ?s = "\<lambda>b. machine 8 False (- 1) y (pio_shift_in True 1 (of_bool b) i, j + 1) (drop_bit 1 w, j + 1) [] []"
  have "does n (machine 8 low x y (i, j) (w, j) [] []) ps (slot_drive (bit w 0)) (?s (bit w 0 \<and> bit (ps ! 16) 0))" if "length ps = 70" for ps
    using does_slot [of "(i, j)" n "[]" ps j low x y w "[]"] that Suc.prems(1) assms(3) by (simp add: pushed_def Let_def)
  from run_slots_step [OF assms(1) p(1) this, of "Suc k"] Suc.IH [OF _ p(2), of "j + 1"] Suc.prems(1)
  show ?case unfolding p(3) shifted.simps by auto
qed

text \<open>A word on the line: the devices take part in its slots as they answer them, and the answer of the machine is theirs.\<close>

lemma word_on_wire:
  assumes "timing_ok tm" "idle n s" "1 \<le> n" "n \<le> 32" "wire_word ws n w d = (bs, d')"
  shows "\<exists>s'. idle n s' \<and> run_slots tm ws n n (s\<lparr>p_tx := p_tx s @ [w]\<rparr>, d) = (s'\<lparr>p_rx := [shifted bs 0]\<rparr>, d')"
proof -
  obtain k where k: "n = Suc k" using assms(3) by (cases n) auto
  obtain x y v oc where s: "s = machine 8 False x y (0, 0) (v, oc) [] []" "n \<le> oc" using assms(2) by (auto simp: idle_def)
  let ?m = "machine 8 False x y (0, 0)"
  have start: "s\<lparr>p_tx := p_tx s @ [w]\<rparr> = ?m (v, oc) [w] []" by (simp add: s(1) machine_def)
  have "0 < n" using k by simp
  then have same: "pio_drive (onewire_config n) onewire_program ps (?m (v, oc) [w] []) = pio_drive (onewire_config n) onewire_program ps (?m (w, 0) [] [])"
      "pio_run (onewire_config n) onewire_program ps (?m (v, oc) [w] []) = pio_run (onewire_config n) onewire_program ps (?m (w, 0) [] [])" if "ps \<noteq> []" for ps
    using does_slot_pull [OF _ s(2) that, where w = w and v = v] by (simp_all add: does_def)
  have nonempty: "fst (line_slot tm ws (pio_drive (onewire_config n) onewire_program (replicate 70 0) t) d) \<noteq> []" for t
  proof -
    have "length (fst (line_slot tm ws tr d)) = length tr" for tr by (simp add: line_slot_def split: prod.splits)
    then show ?thesis using length_pio_drive [of _ _ "replicate 70 0" t] by (metis length_0_conv length_replicate zero_neq_numeral)
  qed
  have "run_slots tm ws n (Suc k) (?m (v, oc) [w] [], d) = run_slots tm ws n (Suc k) (?m (w, 0) [] [], d)"
    by (simp only: run_slots.simps case_prod_beta Let_def same(2) [OF nonempty] same(1) [of "replicate 70 0"] replicate_empty)
  then have "run_slots tm ws n n (?m (v, oc) [w] [], d) = run_slots tm ws n n (?m (w, 0) [] [], d)" by (simp only: k)
  moreover obtain u where "run_slots tm ws n n (?m (w, 0) [] [], d) = (machine 8 False (- 1) y (0, 0) (u, n) [] [shifted bs 0], d')"
    using run_slots_rest [OF assms(1) _ assms(4), of 0 k ws w d bs d' False x y 0] k assms(5) by auto
  ultimately show ?thesis unfolding start
    by (intro exI [of _ "machine 8 False (- 1) y (0, 0) (u, n) [] []"]) (auto simp: idle_def machine_def)
qed

lemma wire_send:
  assumes "timing_ok tm" "idle n s" "1 \<le> n" "n \<le> 32"
  shows "\<exists>s'. idle n s' \<and> ow_send (pio_line_bus tm ws) w (n, s, d) = (n, s', snd (wire_word ws n w d))"
proof -
  obtain s' where "idle n s'" "run_slots tm ws n n (s\<lparr>p_tx := p_tx s @ [w]\<rparr>, d) = (s'\<lparr>p_rx := [shifted (fst (wire_word ws n w d)) 0]\<rparr>, snd (wire_word ws n w d))"
    using word_on_wire [OF assms, of ws w d] by (metis prod.collapse)
  then show ?thesis using idle_low(2) by (intro exI [of _ s']) (simp add: ow_send_def pio_line_bus_def)
qed

lemma wire_read:
  assumes "timing_ok tm" "idle n s" "1 \<le> n" "n \<le> 32"
  shows "\<exists>s'. idle n s' \<and> ow_read (pio_line_bus tm ws) (n, s, d) =
    (ucast (drop_bit 24 (shifted (fst (wire_word ws n 0xff d)) 0)), (n, s', snd (wire_word ws n 0xff d)))"
proof -
  obtain s' where "idle n s'" "run_slots tm ws n n (s\<lparr>p_tx := p_tx s @ [0xff]\<rparr>, d) = (s'\<lparr>p_rx := [shifted (fst (wire_word ws n 0xff d)) 0]\<rparr>, snd (wire_word ws n 0xff d))"
    using word_on_wire [OF assms, of ws "0xff" d] by (metis prod.collapse)
  then show ?thesis using idle_low(2) by (intro exI [of _ s']) (simp add: ow_read_def pio_line_bus_def)
qed

lemma wire_reset:
  assumes "timing_ok tm" "idle n s" "ws_reset ws d = (present, d')"
  shows "\<exists>s'. idle n s' \<and> ow_reset (pio_line_bus tm ws) (n, s, d) = (present, (n, s', d'))"
proof -
  obtain x y v oc where s: "s = machine 8 False x y (0, 0) (v, oc) [] []" "n \<le> oc" using assms(2) by (auto simp: idle_def)
  let ?s' = "machine 8 False (- 1) y (0, 0) (v, oc) [] []"
  let ?t = "replicate 480 True @ replicate 480 False"
  obtain ps where ps: "line_reset tm ws ?t d = (ps, d')" "length ps = 960" "ps ! 550 = of_bool (\<not> present)"
    using assms(1,3) by (auto simp: line_reset_def timing_ok_def nth_append)
  have r: "does n (onewire_reset_instr s) qs ?t (machine 8 False (- 1) y (0, 0) (v, oc) [] [qs ! 550])" if "length qs = 960" for qs
    using does_reset [of qs "[]"] that s(1) by simp
  have "pio_drive (onewire_config n) onewire_program (replicate 960 0) (onewire_reset_instr s) = ?t" using r [of "replicate 960 0"] by (simp add: does_def)
  moreover have "pio_run (onewire_config n) onewire_program ps (onewire_reset_instr s) = machine 8 False (- 1) y (0, 0) (v, oc) [] [of_bool (\<not> present)]"
    using r [OF ps(2)] ps(3) by (simp add: does_def)
  moreover have "idle n ?s'" using s(2) by (auto simp: idle_def)
  ultimately show ?thesis using ps(1)
    by (intro exI [of _ ?s']) (auto simp: ow_reset_def pio_line_bus_def machine_def)
qed

text \<open>The words the driver reads: one bit, and a byte.\<close>

lemma read_bit: "length bs = 1 \<Longrightarrow> (ucast (drop_bit 24 (shifted bs 0)) :: u8) = (if hd bs then 0x80 else 0)"
  by (auto simp: length_Suc_conv pio_shift_in_def)

lemma read_byte: "length bs = 8 \<Longrightarrow> (ucast (drop_bit 24 (shifted bs 0)) :: u8) = horner_sum of_bool 2 bs"
  by (rule bit_word_eqI) (simp add: bit_ucast_iff bit_drop_bit_eq bit_shifted bit_horner_sum_bit_iff)

section \<open>The search on the state machine\<close>

text \<open>The devices of \<open>Onewire\<close> on the line. In the slots of a command and in the slot after two answers they listen.\<close>

definition reading :: "devices \<Rightarrow> bool" where
  "reading d \<longleftrightarrow> 8 \<le> slot d \<and> (slot d - 8) mod 3 \<noteq> 2"

definition device_wire :: "devices wire_side" where
  "device_wire = \<lparr>
     ws_slot = (\<lambda>b d. let d' = device_slot (of_bool b) d in (reading d \<and> answer d' = 0, d')),
     ws_reset = (\<lambda>d. (roms d \<noteq> [], d\<lparr>active := roms d, slot := 0, answer := (if roms d = [] then 1 else 0)\<rparr>)) \<rparr>"

lemma device_slot_bit: "device_slot (of_bool (bit w 0)) d = device_slot w d"
  by (cases "bit w 0") (simp_all add: device_slot_def Let_def bit_0)

lemma device_word: "wire_word device_wire 1 w d = ([bit w 0 \<and> \<not> (reading d \<and> answer (device_slot w d) = 0)], device_slot w d)"
  by (simp add: device_wire_def device_slot_bit Let_def)

lemma device_bus_ops:
  "ow_send device_bus w d = device_slot w d"
  "ow_read device_bus d = (ucast (drop_bit 24 (answer (device_slot 0xff d))), device_slot 0xff d)"
  "ow_reset device_bus d = (roms d \<noteq> [], d\<lparr>active := roms d, slot := 0, answer := (if roms d = [] then 1 else 0)\<rparr>)"
  by (simp_all add: ow_send_def ow_read_def ow_reset_def device_bus_def)

lemma pio_send:
  assumes "timing_ok tm" "idle 1 s"
  shows "\<exists>s'. idle 1 s' \<and> ow_send (pio_line_bus tm device_wire) w (1, s, d) = (1, s', ow_send device_bus w d)"
  using wire_send [OF assms, of device_wire w d] unfolding device_word device_bus_ops by simp

lemma pio_read:
  assumes "timing_ok tm" "idle 1 s" "reading d"
  shows "\<exists>s'. idle 1 s' \<and> ow_read (pio_line_bus tm device_wire) (1, s, d) = (fst (ow_read device_bus d), (1, s', snd (ow_read device_bus d)))"
proof -
  have "answer (device_slot 0xff d) \<in> {0, push_bit 31 1}"
    using assms(3) by (auto simp: device_slot_def reading_def Let_def bus_level_def)
  then have "ucast (drop_bit 24 (shifted [bit (0xff :: u32) 0 \<and> \<not> (reading d \<and> answer (device_slot 0xff d) = 0)] 0)) = fst (ow_read device_bus d)"
    using assms(3) by (subst read_bit) (auto simp: device_bus_ops)
  then show ?thesis using wire_read [OF assms(1,2), of device_wire d] unfolding device_word by (simp add: device_bus_ops)
qed

lemma pio_reset:
  assumes "timing_ok tm" "idle 1 s"
  shows "\<exists>s'. idle 1 s' \<and> ow_reset (pio_line_bus tm device_wire) (1, s, d) = (fst (ow_reset device_bus d), (1, s', snd (ow_reset device_bus d)))"
  using wire_reset [OF assms, of device_wire d] by (simp add: device_wire_def device_bus_ops)

lemma pio_send_bits:
  assumes "timing_ok tm" "idle 1 s"
  shows "\<exists>s'. idle 1 s' \<and> send_bits (pio_line_bus tm device_wire) command k (1, s, d) = (1, s', send_bits device_bus command k d)"
  using assms(2)
proof (induction k arbitrary: s d)
  case (Suc k)
  obtain s1 where "idle 1 s1" "ow_send (pio_line_bus tm device_wire) (drop_bit (7 - k) command) (1, s, d) = (1, s1, ow_send device_bus (drop_bit (7 - k) command) d)"
    using pio_send [OF assms(1) Suc.prems] by blast
  with Suc.IH [of s1] show ?case by simp
qed auto

definition line_has :: "u64 list \<Rightarrow> nat \<times> pio_sm \<times> devices \<Rightarrow> bool" where
  "line_has R = (\<lambda>(n, s, d). devices_on R d \<and> \<not> p_low s)"

definition line_on :: "u64 list \<Rightarrow> nat \<times> pio_sm \<times> devices \<Rightarrow> bool" where
  "line_on R = (\<lambda>(n, s, d). n = 1 \<and> idle 1 s \<and> devices_on R d)"

definition line_at :: "u64 list \<Rightarrow> nat \<Rightarrow> u64 list \<Rightarrow> nat \<times> pio_sm \<times> devices \<Rightarrow> bool" where
  "line_at R i A = (\<lambda>(n, s, d). n = 1 \<and> idle 1 s \<and> devices_at R i A d)"

lemma devices_reading: "devices_at R i A d \<Longrightarrow> reading d" "devices_at R i A d \<Longrightarrow> reading (snd (ow_read device_bus d))"
proof -
  have m: "(3 * i) mod 3 = (0 :: nat)" "Suc (3 * i) mod 3 = 1" by presburger+
  show "devices_at R i A d \<Longrightarrow> reading d" "devices_at R i A d \<Longrightarrow> reading (snd (ow_read device_bus d))"
    using m by (auto simp: devices_at_def reading_def ow_read_def device_bus_def device_slot_def)
qed

lemma line_bit_slots:
  assumes "timing_ok tm" "line_at R i A b" "i < 64"
  shows "\<exists>x b1 y b2. ow_read (pio_line_bus tm device_wire) b = (x, b1) \<and> (x = 0 \<longleftrightarrow> (\<exists>r\<in>set A. \<not> bit r i)) \<and>
    ow_read (pio_line_bus tm device_wire) b1 = (y, b2) \<and> (y = 0 \<longleftrightarrow> (\<exists>r\<in>set A. bit r i)) \<and>
    (\<forall>w. line_at R (Suc i) (filter (\<lambda>r. bit r i = bit w 0) A) (ow_send (pio_line_bus tm device_wire) w b2))"
proof -
  obtain s d where b: "b = (1, s, d)" "idle 1 s" "devices_at R i A d" using assms(2) by (cases b) (auto simp: line_at_def)
  obtain x d1 y d2 where d: "ow_read device_bus d = (x, d1)" "x = 0 \<longleftrightarrow> (\<exists>r\<in>set A. \<not> bit r i)"
    "ow_read device_bus d1 = (y, d2)" "y = 0 \<longleftrightarrow> (\<exists>r\<in>set A. bit r i)"
    "\<forall>w. devices_at R (Suc i) (filter (\<lambda>r. bit r i = bit w 0) A) (ow_send device_bus w d2)"
    using dev.bit_slots [OF b(3) assms(3)] by blast
  obtain s1 where s1: "idle 1 s1" "ow_read (pio_line_bus tm device_wire) b = (x, (1, s1, d1))"
    using pio_read [OF assms(1) b(2) devices_reading(1) [OF b(3)]] b(1) d(1) by auto
  obtain s2 where s2: "idle 1 s2" "ow_read (pio_line_bus tm device_wire) (1, s1, d1) = (y, (1, s2, d2))"
    using pio_read [OF assms(1) s1(1), of d1] devices_reading(2) [OF b(3)] d(1,3) by auto
  have "line_at R (Suc i) (filter (\<lambda>r. bit r i = bit w 0) A) (ow_send (pio_line_bus tm device_wire) w (1, s2, d2))" for w
    using pio_send [OF assms(1) s2(1), of w d2] d(5) by (auto simp: line_at_def)
  then show ?thesis using s1(2) s2(2) d(2,4) by blast
qed

lemma line_search_bus: "timing_ok tm \<Longrightarrow> search_bus (pio_line_bus tm device_wire) line_has line_on line_at (\<lambda>_. True)"
proof unfold_locales
  assume tm: "timing_ok tm"
  show "line_on R (sm_init (pio_line_bus tm device_wire) 1 b)" if "line_has R b" for R b
    using that by (auto simp: line_has_def line_on_def pio_line_bus_def idle_init)
  show "line_has R (sm_init (pio_line_bus tm device_wire) 8 b)" if "line_on R b" for R b
    using that idle_low(1) by (auto simp: line_has_def line_on_def pio_line_bus_def onewire_sm_init_def)
  show "line_on R b" if "line_at R i A b" for R i A b
    using that dev.at_bit_on by (auto simp: line_at_def line_on_def)
  show "fst (ow_reset (pio_line_bus tm device_wire) b) = (R \<noteq> []) \<and> line_on R (snd (ow_reset (pio_line_bus tm device_wire) b))" if on: "line_on R b" for R b
  proof -
    obtain s d where b: "b = (1, s, d)" "idle 1 s" "devices_on R d" using on by (cases b) (auto simp: line_on_def)
    then show ?thesis using pio_reset [OF tm b(2), of d] dev.reset_on [OF b(3)] by (auto simp: line_on_def)
  qed
  show "line_at R 0 R (send_bits (pio_line_bus tm device_wire) command 8 (snd (ow_reset (pio_line_bus tm device_wire) b)))" if on: "line_on R b" for R b command
  proof -
    obtain s d where b: "b = (1, s, d)" "idle 1 s" "devices_on R d" using on by (cases b) (auto simp: line_on_def)
    obtain s1 where s1: "idle 1 s1" "snd (ow_reset (pio_line_bus tm device_wire) b) = (1, s1, snd (ow_reset device_bus d))"
      using pio_reset [OF tm b(2), of d] b(1) by auto
    from pio_send_bits [OF tm s1(1), of command 8 "snd (ow_reset device_bus d)"] s1(2) dev.command_at [OF b(3) TrueI, of command]
    show ?thesis by (auto simp: line_at_def)
  qed
qed (use line_bit_slots in blast)

text \<open>C8: The search works on the wire. The driver's search, run on the state machine program with any devices on the line whose
  timing keeps the bounds of the bus, finds every device, each once, and returns their number: each of
  its reads, writes and resets is carried out by the slots of the program.\<close>

theorem onewire_search_on_wire:
  assumes "timing_ok tm" "\<not> p_low s" "card (set (roms d)) \<le> length rs" "card (set (roms d)) < passes"
  shows "\<exists>xs b'. ow_romsearch (pio_line_bus tm device_wire) passes (Some rs) 0 command (n, s, d) =
      Inr (Some (int (card (set (roms d))), Some (xs @ drop (length xs) rs), b')) \<and>
    distinct xs \<and> set xs = set (roms d)"
proof -
  have h: "line_has (roms d) (n, s, d)" using assms(2) by (simp add: line_has_def devices_on_def)
  show ?thesis
  proof (cases "roms d = []")
    case True
    with search_bus.ow_romsearch_none [OF line_search_bus [OF assms(1)], of "(n, s, d)" 0 passes "Some rs" command] h assms(4)
    show ?thesis by auto
  next
    case False
    with search_bus.ow_romsearch_found [OF line_search_bus [OF assms(1)] TrueI h, of 0 passes "Some rs" command] assms(3,4)
    obtain xs b' where xs: "ow_romsearch (pio_line_bus tm device_wire) passes (Some rs) 0 command (n, s, d) =
        Inr (Some (int (length xs), put_roms 0 xs (Some rs), b'))" "distinct xs" "set xs \<subseteq> set (roms d)" "length xs = card (set (roms d))"
      by (auto simp: pass_limit_def)
    then have "set xs = set (roms d)" by (metis List.finite_set card_subset_eq distinct_card)
    with xs show ?thesis by (intro exI [of _ xs] exI [of _ b']) (simp add: put_roms_def)
  qed
qed

section \<open>Sample runs\<close>

definition demo_timing :: line_timing where
  "demo_timing = \<lparr> hold = 30, presence_wait = 30, presence_length = 120 \<rparr>"

interpretation wire: search_bus "pio_line_bus demo_timing device_wire" line_has line_on line_at "\<lambda>_. True"
  by (rule line_search_bus) (simp add: demo_timing_def timing_ok_def)

definition demo_sm :: pio_sm where
  "demo_sm = machine 8 False 0 0 (0, 0) (0, 32) [] []"

theorem onewire_search_on_wire_witness:
  "\<exists>xs b'. ow_romsearch (pio_line_bus demo_timing device_wire) 3 (Some [0, 0]) 0 0xF0 (8, demo_sm, two_sensors) =
      Inr (Some (2, Some (xs @ drop (length xs) [0, 0]), b')) \<and> distinct xs \<and> set xs = set (roms two_sensors)"
proof -
  have "card (set (roms two_sensors)) = 2" by (simp add: two_sensors_def card_insert_if)
  then show ?thesis using onewire_search_on_wire [of demo_timing demo_sm two_sensors "[0, 0]" 3 "0xF0" 8]
    by (simp add: demo_timing_def timing_ok_def demo_sm_def machine_def)
qed

theorem onewire_word_transfer_witness:
  "\<exists>r u. pio_run (onewire_config 8) onewire_program (replicate 560 1) (machine 8 False 0 0 (0, 0) (0, 32) [0xCC] []) = machine 8 False (- 1) 0 (0, 0) (u, 8) [] [r] \<and>
    (\<forall>i < 32. bit r i \<longleftrightarrow> 24 \<le> i \<and> bit (0xCC :: u32) (i - 24))"
proof -
  have "bit (replicate 560 (1 :: u32) ! (70 * (i - 24) + 16)) 0" if "i < 32" for i using that by simp
  then show ?thesis using onewire_word_transfer [of 8 "replicate 560 1" 32 False 0 0 0 "0xCC"] by auto
qed

end
