(* ===== verification/Ds18b20_Pio.thy ===== *)
theory Ds18b20_Pio
  imports Onewire_Pio Sensors
begin

text \<open>
  A DS18B20 on the line: the sensor of \<open>src/sensors.c\<close> and the driver \<open>src/ds18b20_pio/ds18b20.c\<close> running on the state
  machine program of \<open>Onewire_Pio\<close>, in words of one bit for the search and of eight for the commands and the data.
\<close>

section \<open>The device\<close>

text \<open>After a reset the device receives eight bits that address it, then eight that say what to do. \<open>conversion k\<close> is
  the scratchpad after its \<open>k\<close>-th conversion, which is over by the next reset: the firmware waits before it reads.\<close>

datatype ds_stage = Rom_Stage | Function_Stage

datatype ds_phase = Receiving ds_stage "bool list" | Searching nat | Sending nat | Silent

record ds18b20_device =
  dev_rom :: u64
  scratchpad :: bytes
  conversion :: "nat \<Rightarrow> bytes"
  conversions :: nat
  phase :: ds_phase

definition obey :: "ds_stage \<Rightarrow> u8 \<Rightarrow> ds18b20_device \<Rightarrow> ds18b20_device" where
  "obey st c t =
    (case st of
       Rom_Stage \<Rightarrow> t\<lparr>phase := if c = 0xCC then Receiving Function_Stage [] else if c = 0xF0 then Searching 0 else Silent\<rparr>
     | Function_Stage \<Rightarrow>
         if c = 0x44 then t\<lparr>scratchpad := conversion t (conversions t), conversions := conversions t + 1, phase := Silent\<rparr>
         else t\<lparr>phase := if c = 0xBE then Sending 0 else Silent\<rparr>)"

text \<open>One slot: whether the device holds the line low, and its next state. A search takes three slots for each of the 64 bits
  of the address: the bit, its complement, and the bit the master goes on with.\<close>

definition ds_slot :: "bool \<Rightarrow> ds18b20_device \<Rightarrow> bool \<times> ds18b20_device" where
  "ds_slot b t =
    (case phase t of
       Receiving st bs \<Rightarrow>
         (False, if length bs < 7 then t\<lparr>phase := Receiving st (bs @ [b])\<rparr> else obey st (horner_sum of_bool 2 (bs @ [b])) t)
     | Searching n \<Rightarrow>
         (let r = bit (dev_rom t) (n div 3); go = (if n < 191 then Searching (n + 1) else Silent) in
          if n mod 3 = 0 then (\<not> r, t\<lparr>phase := go\<rparr>)
          else if n mod 3 = 1 then (r, t\<lparr>phase := go\<rparr>)
          else (False, t\<lparr>phase := if b = r then go else Silent\<rparr>))
     | Sending n \<Rightarrow> (n < 72 \<and> \<not> bit (scratchpad t ! (n div 8)) (n mod 8), t\<lparr>phase := Sending (n + 1)\<rparr>)
     | Silent \<Rightarrow> (False, t))"

text \<open>The line with the device, or without it.\<close>

definition ds_wire :: "ds18b20_device option wire_side" where
  "ds_wire = \<lparr>
     ws_slot = (\<lambda>b d. case d of None \<Rightarrow> (False, None) | Some t \<Rightarrow> map_prod id Some (ds_slot b t)),
     ws_reset = (\<lambda>d. (d \<noteq> None, map_option (\<lambda>t. t\<lparr>phase := Receiving Rom_Stage []\<rparr>) d)) \<rparr>"

lemma ds_wire_slot [simp]:
  "ws_slot ds_wire b (Some t) = map_prod id Some (ds_slot b t)" "ws_slot ds_wire b None = (False, None)"
  by (simp_all add: ds_wire_def)

lemma ds_wire_reset [simp]: "ws_reset ds_wire d = (d \<noteq> None, map_option (\<lambda>t. t\<lparr>phase := Receiving Rom_Stage []\<rparr>) d)"
  by (simp add: ds_wire_def)

section \<open>Words\<close>

lemma obey_phase [simp]: "obey st c (t\<lparr>phase := p\<rparr>) = obey st c t"
  by (cases st) (simp_all add: obey_def)

text \<open>Eight bits received are a command, whatever the length of the words they come in.\<close>

lemma bits_drop: "map (bit (drop_bit 1 w)) [0..<k] = map (bit w) [1..<Suc k]"
  by (simp add: bit_drop_bit_eq map_Suc_upt [symmetric] del: upt_Suc)

lemma word_received:
  assumes "phase t = Receiving st bs" "length bs + Suc k = 8"
  shows "snd (wire_word ds_wire (Suc k) w (Some t)) = Some (obey st (horner_sum of_bool 2 (bs @ map (bit w) [0..<Suc k])) t)"
  using assms
proof (induction k arbitrary: t bs w)
  case 0
  then show ?case by (simp add: ds_slot_def)
next
  case (Suc k)
  let ?t = "t\<lparr>phase := Receiving st (bs @ [bit w 0])\<rparr>"
  have "ds_slot (bit w 0) t = (False, ?t)" using Suc.prems by (simp add: ds_slot_def)
  then have "snd (wire_word ds_wire (Suc (Suc k)) w (Some t)) = snd (wire_word ds_wire (Suc k) (drop_bit 1 w) (Some ?t))"
    by (simp add: case_prod_beta Let_def)
  also have "\<dots> = Some (obey st (horner_sum of_bool 2 ((bs @ [bit w 0]) @ map (bit (drop_bit 1 w)) [0..<Suc k])) ?t)"
    by (rule Suc.IH) (use Suc.prems in simp_all)
  also have "(bs @ [bit w 0]) @ map (bit (drop_bit 1 w)) [0..<Suc k] = bs @ map (bit w) [0..<Suc (Suc k)]"
    by (subst bits_drop) (simp add: upt_conv_Cons [of 0] del: upt_Suc)
  finally show ?case by simp
qed

lemma horner_byte: "horner_sum of_bool 2 (map (bit w) [0..<8]) = (ucast (w :: u32) :: u8)"
  by (rule bit_word_eqI) (simp add: bit_horner_sum_bit_iff bit_ucast_iff)

lemma command_received:
  "phase t = Receiving st [] \<Longrightarrow> snd (wire_word ds_wire 8 w (Some t)) = Some (obey st (ucast w) t)"
  using word_received [of t st "[]" 7 w] horner_byte [of w] by (simp add: eval_nat_numeral)

text \<open>The bits the device sends.\<close>

lemma word_sent:
  assumes "phase t = Sending m" "m + k \<le> 72" "\<forall>i<k. bit w i"
  shows "wire_word ds_wire k w (Some t) =
    (map (\<lambda>i. bit (scratchpad t ! ((m + i) div 8)) ((m + i) mod 8)) [0..<k], Some (t\<lparr>phase := Sending (m + k)\<rparr>))"
  using assms
proof (induction k arbitrary: t m w)
  case 0
  then show ?case by (cases t) simp
next
  case (Suc k)
  let ?t = "t\<lparr>phase := Sending (m + 1)\<rparr>"
  have b: "bit w 0" using Suc.prems(3) by simp
  have s: "ds_slot True t = (\<not> bit (scratchpad t ! (m div 8)) (m mod 8), ?t)" using Suc.prems(1,2) by (simp add: ds_slot_def)
  have "\<forall>i<k. bit (drop_bit 1 w) i" using Suc.prems(3) by (simp add: bit_drop_bit_eq)
  with Suc.IH [of ?t "m + 1" "drop_bit 1 w"] Suc.prems(2)
  have "wire_word ds_wire k (drop_bit 1 w) (Some ?t) =
      (map (\<lambda>i. bit (scratchpad t ! ((m + Suc i) div 8)) ((m + Suc i) mod 8)) [0..<k], Some (t\<lparr>phase := Sending (m + Suc k)\<rparr>))" by simp
  then show ?case using b s
    by (simp add: Let_def upt_conv_Cons [of 0] map_Suc_upt [symmetric] del: upt_Suc)
qed

lemma byte_sent:
  assumes "phase t = Sending (8 * j)" "j < 9"
  shows "wire_word ds_wire 8 0xff (Some t) = (map (bit (scratchpad t ! j)) [0..<8], Some (t\<lparr>phase := Sending (8 * (j + 1))\<rparr>))"
proof -
  have "\<forall>i<8. bit (0xff :: u32) i" by (auto simp: less_Suc_eq numeral_eq_Suc)
  moreover have "map (\<lambda>i. bit (scratchpad t ! ((8 * j + i) div 8)) ((8 * j + i) mod 8)) [0..<8] = map (bit (scratchpad t ! j)) [0..<8]"
    by (rule map_cong) auto
  ultimately show ?thesis using word_sent [OF assms(1), of 8 "0xff"] assms(2) by simp
qed

section \<open>The driver's commands on the line\<close>

abbreviation ds_bus :: "line_timing \<Rightarrow> (nat \<times> pio_sm \<times> ds18b20_device option) pio_bus" where
  "ds_bus tm \<equiv> pio_line_bus tm ds_wire"

lemma command_on_wire:
  assumes "timing_ok tm" "idle 8 s"
  shows "\<exists>s'. idle 8 s' \<and> ow_send (ds_bus tm) c (ow_send (ds_bus tm) OW_SKIP_ROM (snd (ow_reset (ds_bus tm) (8, s, Some t)))) =
    (8, s', Some (obey Function_Stage (ucast c) t))"
proof -
  let ?t0 = "t\<lparr>phase := Receiving Rom_Stage []\<rparr>" and ?t1 = "t\<lparr>phase := Receiving Function_Stage []\<rparr>"
  obtain s0 where s0: "idle 8 s0" "snd (ow_reset (ds_bus tm) (8, s, Some t)) = (8, s0, Some ?t0)"
    using wire_reset [OF assms ds_wire_reset, of "Some t"] by auto
  have "obey Rom_Stage (ucast OW_SKIP_ROM) ?t0 = ?t1" by (simp add: obey_def OW_SKIP_ROM_def)
  then obtain s1 where s1: "idle 8 s1" "ow_send (ds_bus tm) OW_SKIP_ROM (8, s0, Some ?t0) = (8, s1, Some ?t1)"
    using wire_send [OF assms(1) s0(1), of ds_wire OW_SKIP_ROM "Some ?t0"] command_received [of ?t0 Rom_Stage OW_SKIP_ROM] by auto
  obtain s2 where "idle 8 s2" "ow_send (ds_bus tm) c (8, s1, Some ?t1) = (8, s2, Some (obey Function_Stage (ucast c) t))"
    using wire_send [OF assms(1) s1(1), of ds_wire c "Some ?t1"] command_received [of ?t1 Function_Stage c] by auto
  then show ?thesis using s0(2) s1(2) by auto
qed

lemma read_on_wire:
  assumes "timing_ok tm" "idle 8 s" "phase t = Sending (8 * j)" "j < 9"
  shows "\<exists>s'. idle 8 s' \<and> ow_read (ds_bus tm) (8, s, Some t) = (scratchpad t ! j, (8, s', Some (t\<lparr>phase := Sending (8 * (j + 1))\<rparr>)))"
proof -
  have "(horner_sum of_bool 2 (map (bit (scratchpad t ! j)) [0..<8]) :: u8) = scratchpad t ! j"
    by (rule bit_word_eqI) (simp add: bit_horner_sum_bit_iff)
  then show ?thesis using wire_read [OF assms(1,2), of ds_wire "Some t"] read_byte [of "map (bit (scratchpad t ! j)) [0..<8]"]
    unfolding byte_sent [OF assms(3,4)] by simp
qed

lemma reads_on_wire:
  assumes "timing_ok tm" "idle 8 s" "phase t = Sending (8 * j)" "j + k \<le> 9" "length (scratchpad t) = 9"
  shows "\<exists>s'. idle 8 s' \<and> ow_reads (ds_bus tm) k (8, s, Some t) =
    (take k (drop j (scratchpad t)), (8, s', Some (t\<lparr>phase := Sending (8 * (j + k))\<rparr>)))"
  using assms(2-5)
proof (induction k arbitrary: s t j)
  case 0
  then show ?case by (cases t) auto
next
  case (Suc k)
  let ?t = "t\<lparr>phase := Sending (8 * (j + 1))\<rparr>"
  obtain s1 where s1: "idle 8 s1" "ow_read (ds_bus tm) (8, s, Some t) = (scratchpad t ! j, (8, s1, Some ?t))"
    using read_on_wire [OF assms(1) Suc.prems(1,2)] Suc.prems(3) by auto
  obtain s2 where "idle 8 s2" "ow_reads (ds_bus tm) k (8, s1, Some ?t) =
      (take k (drop (Suc j) (scratchpad t)), (8, s2, Some (t\<lparr>phase := Sending (8 * (j + Suc k))\<rparr>)))"
    using Suc.IH [OF s1(1), of ?t "j + 1"] Suc.prems(3,4) by auto
  moreover have "take (Suc k) (drop j (scratchpad t)) = scratchpad t ! j # take k (drop (Suc j) (scratchpad t))"
    using Suc.prems(3,4) by (simp add: Cons_nth_drop_Suc [symmetric])
  ultimately show ?case using s1(2) by auto
qed

text \<open>\<open>ds18b20_convert\<close> and \<open>ds18b20_read_temperature\<close> with the device on the line.\<close>

lemma convert_on_wire:
  assumes "timing_ok tm" "idle 8 s" "ow ds = Some i"
  shows "\<exists>s'. idle 8 s' \<and> ds18b20_convert (ds_bus tm) ds (8, s, Some t) =
    Inr (8, s', Some (t\<lparr>scratchpad := conversion t (conversions t), conversions := conversions t + 1, phase := Silent\<rparr>))"
  using command_on_wire [OF assms(1,2), of DS18B20_CONVERT_T t] assms(3)
  by (auto simp: ds18b20_convert_def obey_def DS18B20_CONVERT_T_def)

lemma temperature_on_wire:
  assumes "timing_ok tm" "idle 8 s" "ow ds = Some i" "length (ds_data ds) = 9"
    and "length (scratchpad t) = 9" "scratchpad t ! 8 = crc8 (take 8 (scratchpad t))"
  shows "\<exists>s'. idle 8 s' \<and> ds18b20_read_temperature (ds_bus tm) ds (8, s, Some t) =
    Inr (0, ds\<lparr>ds_data := scratchpad t, temperature := ds18b20_data_to_temperature (scratchpad t ! 0) (scratchpad t ! 1)\<rparr>,
      (8, s', Some (t\<lparr>phase := Sending 72\<rparr>)))"
proof -
  obtain s1 where s1: "idle 8 s1" "scratchpad_start (ds_bus tm) (8, s, Some t) = (8, s1, Some (t\<lparr>phase := Sending 0\<rparr>))"
    using command_on_wire [OF assms(1,2), of DS18B20_READ_SCRATCHPAD t]
    by (auto simp: scratchpad_start_def obey_def DS18B20_READ_SCRATCHPAD_def)
  obtain s2 where s2: "idle 8 s2" "ow_reads (ds_bus tm) 9 (scratchpad_start (ds_bus tm) (8, s, Some t)) =
      (scratchpad t, (8, s2, Some (t\<lparr>phase := Sending 72\<rparr>)))"
    using reads_on_wire [OF assms(1) s1(1), of "t\<lparr>phase := Sending 0\<rparr>" 0 9] s1(2) assms(5) by auto
  show ?thesis using read_temperature_eq [OF assms(3,4) s2(2)] s2(1) assms(6) by auto
qed

section \<open>The search on the line\<close>

lemma wire_send_bit:
  assumes "timing_ok tm" "idle 1 s" "ws_slot ws (bit w 0) d = (p, d')"
  shows "\<exists>s'. idle 1 s' \<and> ow_send (pio_line_bus tm ws) w (1, s, d) = (1, s', d')"
  using wire_send [OF assms(1,2), of ws w d] assms(3) by simp

lemma wire_read_bit:
  assumes "timing_ok tm" "idle 1 s" "ws_slot ws True d = (p, d')"
  shows "\<exists>s'. idle 1 s' \<and> ow_read (pio_line_bus tm ws) (1, s, d) = (if p then 0 else 0x80, (1, s', d'))"
  using wire_read [OF assms(1,2), of ws d] assms(3) read_bit [of "[\<not> p]"] by (cases p) simp_all

text \<open>The device apart from its phase, which the search leaves as it is.\<close>

definition settled :: "ds18b20_device \<Rightarrow> ds18b20_device" where
  "settled t = t\<lparr>phase := Silent\<rparr>"

lemma settled_phase [simp]: "settled (t\<lparr>phase := p\<rparr>) = settled t"
  by (simp add: settled_def)

definition ds_roms :: "ds18b20_device option \<Rightarrow> u64 list" where
  "ds_roms d = (case d of None \<Rightarrow> [] | Some t \<Rightarrow> [dev_rom t])"

definition probe_has :: "ds18b20_device option \<Rightarrow> u64 list \<Rightarrow> nat \<times> pio_sm \<times> ds18b20_device option \<Rightarrow> bool" where
  "probe_has c R = (\<lambda>(n, s, d). n = 8 \<and> idle 8 s \<and> map_option settled d = c \<and> ds_roms d = R)"

definition probe_on :: "ds18b20_device option \<Rightarrow> u64 list \<Rightarrow> nat \<times> pio_sm \<times> ds18b20_device option \<Rightarrow> bool" where
  "probe_on c R = (\<lambda>(n, s, d). n = 1 \<and> idle 1 s \<and> map_option settled d = c \<and> ds_roms d = R)"

definition taking_part :: "nat \<Rightarrow> u64 list \<Rightarrow> ds18b20_device \<Rightarrow> bool" where
  "taking_part i A t \<longleftrightarrow> A = [dev_rom t] \<and> phase t = (if i < 64 then Searching (3 * i) else Silent) \<or> A = [] \<and> phase t = Silent"

definition ds_part :: "ds18b20_device option \<Rightarrow> u64 list \<Rightarrow> nat \<Rightarrow> u64 list \<Rightarrow> ds18b20_device option \<Rightarrow> bool" where
  "ds_part c R i A d \<longleftrightarrow> map_option settled d = c \<and> ds_roms d = R \<and> (case d of None \<Rightarrow> A = [] | Some t \<Rightarrow> taking_part i A t)"

definition probe_at :: "ds18b20_device option \<Rightarrow> u64 list \<Rightarrow> nat \<Rightarrow> u64 list \<Rightarrow> nat \<times> pio_sm \<times> ds18b20_device option \<Rightarrow> bool" where
  "probe_at c R i A = (\<lambda>(n, s, d). n = 1 \<and> idle 1 s \<and> ds_part c R i A d)"

definition ds_searches :: "u32 \<Rightarrow> bool" where
  "ds_searches c \<longleftrightarrow> (ucast c :: u8) = 0xF0"

lemma search_slots:
  assumes "taking_part i A t" "i < 64"
  shows "\<exists>t1 t2. ds_slot True t = ((\<exists>r\<in>set A. \<not> bit r i), t1) \<and> ds_slot True t1 = ((\<exists>r\<in>set A. bit r i), t2) \<and>
    settled t1 = settled t \<and> settled t2 = settled t \<and> dev_rom t1 = dev_rom t \<and> dev_rom t2 = dev_rom t \<and>
    (\<forall>b. \<exists>t3. ds_slot b t2 = (False, t3) \<and> taking_part (Suc i) (filter (\<lambda>r. bit r i = b) A) t3 \<and> settled t3 = settled t \<and> dev_rom t3 = dev_rom t)"
proof (cases "A = []")
  case True
  with assms show ?thesis by (auto simp: taking_part_def ds_slot_def)
next
  case False
  then have t: "A = [dev_rom t]" "phase t = Searching (3 * i)" using assms by (auto simp: taking_part_def)
  have n: "3 * i < 191" "3 * i + 1 < 191" "(3 * i + 1) mod 3 = 1" "(3 * i + 1) div 3 = i" "(3 * i + 2) mod 3 = 2" "(3 * i + 2) div 3 = i"
    "3 * i + 2 < 191 \<longleftrightarrow> Suc i < 64" "3 * i + 2 + 1 = 3 * Suc i"
    using assms(2) by presburger+
  define t1 t2 where "t1 = t\<lparr>phase := Searching (3 * i + 1)\<rparr>" and "t2 = t\<lparr>phase := Searching (3 * i + 2)\<rparr>"
  have 1: "ds_slot True t = (\<not> bit (dev_rom t) i, t1)" using t n(1) by (simp add: ds_slot_def Let_def t1_def)
  have 2: "ds_slot True t1 = (bit (dev_rom t) i, t2)" using n(2-4) by (simp add: ds_slot_def Let_def t1_def t2_def)
  have 3: "ds_slot b t2 = (False, t\<lparr>phase := if b = bit (dev_rom t) i then if Suc i < 64 then Searching (3 * Suc i) else Silent else Silent\<rparr>)" for b
    using n(5-8) by (simp add: ds_slot_def Let_def t2_def)
  have "settled t1 = settled t" "settled t2 = settled t" "dev_rom t1 = dev_rom t" "dev_rom t2 = dev_rom t" by (simp_all add: t1_def t2_def)
  then show ?thesis
    by - (rule exI [of _ t1], rule exI [of _ t2], auto simp: 1 2 3 t(1) taking_part_def)
qed

lemma part_slots:
  assumes "ds_part c R i A d" "i < 64"
  shows "\<exists>d1 d2. ws_slot ds_wire True d = ((\<exists>r\<in>set A. \<not> bit r i), d1) \<and> ws_slot ds_wire True d1 = ((\<exists>r\<in>set A. bit r i), d2) \<and>
    (\<forall>v. \<exists>d3. ws_slot ds_wire v d2 = (False, d3) \<and> ds_part c R (Suc i) (filter (\<lambda>r. bit r i = v) A) d3)"
proof (cases d)
  case None
  with assms(1) show ?thesis by (auto simp: ds_part_def)
next
  case (Some t)
  with assms(1) have "taking_part i A t" by (simp add: ds_part_def)
  from search_slots [OF this assms(2)] obtain t1 t2 where
    t: "ds_slot True t = ((\<exists>r\<in>set A. \<not> bit r i), t1)" "ds_slot True t1 = ((\<exists>r\<in>set A. bit r i), t2)"
    "\<And>b. \<exists>t3. ds_slot b t2 = (False, t3) \<and> taking_part (Suc i) (filter (\<lambda>r. bit r i = b) A) t3 \<and> settled t3 = settled t \<and> dev_rom t3 = dev_rom t"
    by blast
  have "\<exists>d3. ws_slot ds_wire v (Some t2) = (False, d3) \<and> ds_part c R (Suc i) (filter (\<lambda>r. bit r i = v) A) d3" for v
    using t(3) [of v] assms(1) Some by (auto simp: ds_part_def ds_roms_def)
  then show ?thesis using t(1,2) Some by (intro exI [of _ "Some t1"] exI [of _ "Some t2"]) simp
qed

lemma ds_bit_slots:
  assumes tm: "timing_ok tm" and at: "probe_at c R i A b" and i: "i < 64"
  shows "\<exists>x b1 y b2. ow_read (ds_bus tm) b = (x, b1) \<and> (x = 0 \<longleftrightarrow> (\<exists>r\<in>set A. \<not> bit r i)) \<and>
    ow_read (ds_bus tm) b1 = (y, b2) \<and> (y = 0 \<longleftrightarrow> (\<exists>r\<in>set A. bit r i)) \<and>
    (\<forall>w. probe_at c R (Suc i) (filter (\<lambda>r. bit r i = bit w 0) A) (ow_send (ds_bus tm) w b2))"
proof -
  obtain s d where b: "b = (1, s, d)" "idle 1 s" "ds_part c R i A d" using at by (cases b) (auto simp: probe_at_def)
  obtain d1 d2 where d: "ws_slot ds_wire True d = ((\<exists>r\<in>set A. \<not> bit r i), d1)" "ws_slot ds_wire True d1 = ((\<exists>r\<in>set A. bit r i), d2)"
    and d3: "\<And>v. \<exists>d3. ws_slot ds_wire v d2 = (False, d3) \<and> ds_part c R (Suc i) (filter (\<lambda>r. bit r i = v) A) d3"
    using part_slots [OF b(3) i] by blast
  obtain s1 where s1: "idle 1 s1" "ow_read (ds_bus tm) b = (if \<exists>r\<in>set A. \<not> bit r i then 0 else 0x80, (1, s1, d1))"
    using wire_read_bit [OF tm b(2) d(1)] b(1) by blast
  obtain s2 where s2: "idle 1 s2" "ow_read (ds_bus tm) (1, s1, d1) = (if \<exists>r\<in>set A. bit r i then 0 else 0x80, (1, s2, d2))"
    using wire_read_bit [OF tm s1(1) d(2)] by blast
  have "probe_at c R (Suc i) (filter (\<lambda>r. bit r i = bit w 0) A) (ow_send (ds_bus tm) w (1, s2, d2))" for w
  proof -
    obtain d3 where "ws_slot ds_wire (bit w 0) d2 = (False, d3)" "ds_part c R (Suc i) (filter (\<lambda>r. bit r i = bit w 0) A) d3" using d3 by blast
    with wire_send_bit [OF tm s2(1) this(1)] show ?thesis by (auto simp: probe_at_def)
  qed
  then show ?thesis using s1(2) s2(2) by auto
qed

text \<open>The command in words of one bit.\<close>

lemma send_bits_on_wire:
  assumes "timing_ok tm" "idle 1 s" "k \<le> 8"
  shows "\<exists>s'. idle 1 s' \<and> send_bits (pio_line_bus tm ws) command k (1, s, d) = (1, s', snd (wire_word ws k (drop_bit (8 - k) command) d))"
  using assms(2,3)
proof (induction k arbitrary: s d)
  case 0
  then show ?case by auto
next
  case (Suc k)
  let ?w = "drop_bit (7 - k) command"
  obtain p d1 where d: "ws_slot ws (bit ?w 0) d = (p, d1)" by fastforce
  obtain s1 where s1: "idle 1 s1" "ow_send (pio_line_bus tm ws) ?w (1, s, d) = (1, s1, d1)" using wire_send_bit [OF assms(1) Suc.prems(1) d] by blast
  have "8 - k = Suc (7 - k)" "8 - Suc k = 7 - k" using Suc.prems(2) by simp_all
  then have "drop_bit 1 ?w = drop_bit (8 - k) command" "8 - Suc k = 7 - k" by (simp_all add: drop_bit_drop_bit)
  then have "snd (wire_word ws (Suc k) (drop_bit (8 - Suc k) command) d) = snd (wire_word ws k (drop_bit (8 - k) command) d1)"
    by (simp add: d case_prod_beta Let_def)
  then show ?case using Suc.IH [OF s1(1), of d1] s1(2) Suc.prems(2) by simp
qed

lemma ds_search_bus: "timing_ok tm \<Longrightarrow> search_bus (ds_bus tm) (probe_has c) (probe_on c) (probe_at c) ds_searches"
proof unfold_locales
  assume tm: "timing_ok tm"
  show "probe_on c R (sm_init (ds_bus tm) 1 b)" if "probe_has c R b" for R b
    using that idle_low(1) by (auto simp: probe_has_def probe_on_def pio_line_bus_def idle_init)
  show "probe_has c R (sm_init (ds_bus tm) 8 b)" if "probe_on c R b" for R b
    using that idle_low(1) by (auto simp: probe_has_def probe_on_def pio_line_bus_def idle_init)
  show "probe_on c R b" if "probe_at c R i A b" for R i A b
    using that by (auto simp: probe_at_def probe_on_def ds_part_def)
  have reset: "\<exists>s'. idle 1 s' \<and> ow_reset (ds_bus tm) (1, s, d) = (d \<noteq> None, (1, s', map_option (\<lambda>t. t\<lparr>phase := Receiving Rom_Stage []\<rparr>) d))" if "idle 1 s" for s d
    using wire_reset [OF tm that ds_wire_reset] .
  show "fst (ow_reset (ds_bus tm) b) = (R \<noteq> []) \<and> probe_on c R (snd (ow_reset (ds_bus tm) b))" if on: "probe_on c R b" for R b
  proof -
    obtain s d where b: "b = (1, s, d)" "idle 1 s" "map_option settled d = c" "ds_roms d = R" using on by (cases b) (auto simp: probe_on_def)
    then show ?thesis using reset [OF b(2), of d] by (cases d) (auto simp: probe_on_def ds_roms_def)
  qed
  show "probe_at c R 0 R (send_bits (ds_bus tm) command 8 (snd (ow_reset (ds_bus tm) b)))" if on: "probe_on c R b" and sc: "ds_searches command" for R b command
  proof -
    obtain s d where b: "b = (1, s, d)" "idle 1 s" "map_option settled d = c" "ds_roms d = R" using on by (cases b) (auto simp: probe_on_def)
    let ?d = "map_option (\<lambda>t. t\<lparr>phase := Receiving Rom_Stage []\<rparr>) d"
    obtain s1 where s1: "idle 1 s1" "snd (ow_reset (ds_bus tm) b) = (1, s1, ?d)" using reset [OF b(2), of d] b(1) by auto
    have "ds_part c R 0 R (snd (wire_word ds_wire 8 command ?d))"
    proof (cases d)
      case None
      moreover have "snd (wire_word ds_wire k w None) = None" for k w by (induction k arbitrary: w) (simp_all add: case_prod_beta Let_def)
      ultimately show ?thesis using b(3,4) by (simp add: ds_part_def ds_roms_def)
    next
      case (Some t)
      then show ?thesis using command_received [of "t\<lparr>phase := Receiving Rom_Stage []\<rparr>" Rom_Stage command] b(3,4) sc
        by (auto simp: ds_part_def ds_roms_def ds_searches_def obey_def taking_part_def)
    qed
    then show ?thesis using send_bits_on_wire [OF tm s1(1), of 8 ds_wire command ?d] s1(2) by (auto simp: probe_at_def)
  qed
qed (use ds_bit_slots in blast)

section \<open>The sensor\<close>

text \<open>The reading as the firmware reports it: the signed 16-bit number of the first two bytes counts sixteenths of a degree; the
  text has two decimals, rounded to the nearest, ties to even.\<close>

definition celsius_text :: "bytes \<Rightarrow> bytes" where
  "celsius_text pad =
    (let i = sint (ucast (pad ! 0) OR push_bit 8 (ucast (pad ! 1)) :: u16)
     in chars ''{\"w_temp\":'' @ (if i < 0 then chars ''-'' else []) @ hundredths (div_even (100 * nat \<bar>i\<bar>) 16) @ chars ''}'')"

lemma temperature_fl:
  fixes low high :: u8
  defines "i \<equiv> sint (ucast low OR push_bit 8 (ucast high) :: u16)"
  shows "ds18b20_data_to_temperature low high = Fl (i < 0) (nat \<bar>i\<bar>) 4"
proof -
  have "- (2 ^ 15) \<le> i" "i < 2 ^ 15"
    using sint_range_size [of "ucast low OR push_bit 8 (ucast high) :: u16"] by (simp_all add: word_size i_def)
  then have "\<bar>i\<bar> < 2 ^ 24" "nat \<bar>i\<bar> < 2 ^ 24" by simp_all
  then show ?thesis using fl_of_int_exact(1) [of i]
    by (simp add: ds18b20_data_to_temperature_def Let_def i_def [symmetric] fl_shift_def fl_round_small)
qed

lemma reported_text: "ds18b20_text (Some (ds18b20_data_to_temperature (pad ! 0) (pad ! 1))) = celsius_text pad"
  by (simp add: ds18b20_text_def celsius_text_def temperature_fl fmt2_def hundredths_def Let_def chars_def)

lemma init_on_wire:
  assumes "timing_ok tm" "\<not> p_low s" "ow_malloc_ok env" "can_add_program env" "claimed_sm env \<noteq> - 1"
  shows "\<exists>ds s' d'. ds18b20_init (ds_bus tm) 2 env p pin (n, s, d) =
      Inr (Some (if d = None then 4 else 0, ds, (8, s', d'), [Ow_Malloc, Program_Add, Sm_Claim])) \<and>
    ow ds \<noteq> None \<and> length (ds_data ds) = 9 \<and> idle 8 s' \<and> map_option settled d' = map_option settled d"
proof -
  let ?c = "map_option settled d" and ?b = "(8, onewire_sm_init s, d)"
  have b: "sm_init (ds_bus tm) 8 (n, s, d) = ?b" by (simp add: pio_line_bus_def)
  have h: "probe_has ?c (ds_roms d) ?b" using assms(2) by (simp add: probe_has_def idle_init)
  have sc: "ds_searches OW_SEARCH_ROM" by (simp add: ds_searches_def OW_SEARCH_ROM_def)
  note sb = ds_search_bus [OF assms(1), of ?c]
  obtain mem b' where "ow_romsearch (ds_bus tm) 2 (Some [romcode_stack env]) 1 OW_SEARCH_ROM ?b = Inr (Some (if d = None then 0 else 1, mem, b'))"
    "probe_has ?c (ds_roms d) b'"
    using search_bus.search_none [OF sb, of ?b "romcode_stack env" OW_SEARCH_ROM] search_bus.search_one [OF sb sc h, of "romcode_stack env"] h by (cases d) (auto simp: ds_roms_def)
  moreover obtain s' d' where "b' = (8, s', d')" "idle 8 s'" "map_option settled d' = ?c"
    using calculation(2) by (cases b') (auto simp: probe_has_def)
  ultimately show ?thesis using assms(3-5)
    by (simp add: ds18b20_init_def ow_init_def b Let_def DS18B20_DATA_LENGTH_def del: bindE_eq_Inr)
qed

text \<open>The sensor of the array between two rounds, with the device on its line.\<close>

definition wired :: "line_timing \<Rightarrow> (nat \<times> pio_sm \<times> ds18b20_device option) sensor_world sensor_wrap_t \<Rightarrow>
    (nat \<times> pio_sm \<times> ds18b20_device option) sensor_world \<Rightarrow> ds18b20_device \<Rightarrow> bool" where
  "wired tm x w t \<longleftrightarrow> \<not> disconnected x \<and> auxiliary_fn x = Some (auxiliary_fn_ds18b20 (ds_bus tm)) \<and>
    collect_fn x = collect_fn_ds18b20 (ds_bus tm) \<and> length (sw_topic_data x) = 128 \<and>
    (\<exists>ds. custom_data x = Some (Ds_Obj ds) \<and> ow ds \<noteq> None \<and> length (ds_data ds) = 9) \<and>
    (\<exists>s. idle 8 s \<and> w_bus w = (8, s, Some t))"

definition valid_pad :: "bytes \<Rightarrow> bool" where
  "valid_pad pad \<longleftrightarrow> length pad = 9 \<and> pad ! 8 = crc8 (take 8 pad)"

lemma collect_on_wire:
  assumes "timing_ok tm" "wired tm x w t" "valid_pad (scratchpad t)"
  shows "\<exists>x' w'. collect_sensor x w = Inr (Some (x', w')) \<and> wired tm x' w' (t\<lparr>phase := Sending 72\<rparr>) \<and>
    c_str (sw_topic_data x') = Inr (celsius_text (scratchpad t))"
proof -
  obtain ds i s where x: "custom_data x = Some (Ds_Obj ds)" "ow ds = Some i" "length (ds_data ds) = 9" "idle 8 s" "w_bus w = (8, s, Some t)"
    using assms(2) by (auto simp: wired_def)
  obtain s' where r: "idle 8 s'" "ds18b20_read_temperature (ds_bus tm) ds (w_bus w) =
      Inr (0, ds\<lparr>ds_data := scratchpad t, temperature := ds18b20_data_to_temperature (scratchpad t ! 0) (scratchpad t ! 1)\<rparr>, (8, s', Some (t\<lparr>phase := Sending 72\<rparr>)))"
    using temperature_on_wire [OF assms(1) x(4,2,3)] assms(3) x(5) by (auto simp: valid_pad_def)
  let ?text = "ds18b20_text (Some (ds18b20_data_to_temperature (scratchpad t ! 0) (scratchpad t ! 1)))"
  have "ds_says ?text" by (auto simp: ds_says_def)
  from snprintf_string [OF _ ds_says_text [OF this], of "sw_topic_data x"] assms(2) obtain u where
    "snprintf (sw_topic_data x) 128 ?text = Inr u" "length u = 128" "c_str u = Inr ?text" by (auto simp: wired_def)
  then show ?thesis using assms(2,3) x r
    by (simp add: collect_sensor_def wired_def collect_fn_ds18b20_def Sensors.ds_at_def reported_text [simplified] valid_pad_def)
qed

lemma prepare_on_wire:
  assumes "timing_ok tm" "wired tm x w t"
  shows "\<exists>w'. prepare_sensor x w = Inr (Some (x, w')) \<and>
    wired tm x w' (t\<lparr>scratchpad := conversion t (conversions t), conversions := conversions t + 1, phase := Silent\<rparr>)"
proof -
  obtain ds i s where x: "custom_data x = Some (Ds_Obj ds)" "ow ds = Some i" "idle 8 s" "w_bus w = (8, s, Some t)"
    using assms(2) by (auto simp: wired_def)
  show ?thesis using convert_on_wire [OF assms(1) x(3,2), of t] assms(2) x
    by (auto simp: prepare_sensor_def wired_def auxiliary_fn_ds18b20_def Sensors.ds_at_def)
qed

lemma round_on_wire:
  assumes "timing_ok tm" "wired tm x w t" "valid_pad (conversion t (conversions t))"
  shows "\<exists>x' w' t'. sensor_round [x] w = Inr (Some ([x'], w')) \<and> wired tm x' w' t' \<and>
    conversion t' = conversion t \<and> conversions t' = conversions t + 1 \<and>
    c_str (sw_topic_data x') = Inr (celsius_text (conversion t (conversions t)))"
proof -
  let ?t = "t\<lparr>scratchpad := conversion t (conversions t), conversions := conversions t + 1, phase := Silent\<rparr>"
  obtain w1 where w1: "prepare_sensor x w = Inr (Some (x, w1))" "wired tm x w1 ?t" using prepare_on_wire [OF assms(1,2)] by blast
  obtain x' w' where "collect_sensor x w1 = Inr (Some (x', w'))" "wired tm x' w' (?t\<lparr>phase := Sending 72\<rparr>)"
    "c_str (sw_topic_data x') = Inr (celsius_text (conversion t (conversions t)))"
    using collect_on_wire [OF assms(1) w1(2)] assms(3) by auto
  then show ?thesis using w1(1)
    by (intro exI [of _ x'] exI [of _ w'] exI [of _ "?t\<lparr>phase := Sending 72\<rparr>"])
      (simp add: sensor_round_def prepare_sensors_def collect_data_sensors_def)
qed

lemma rounds_on_wire:
  assumes "timing_ok tm" "wired tm x w t" "\<forall>k. valid_pad (conversion t k)"
  shows "\<exists>x' w' t'. sensor_rounds (Suc k) [x] w = Inr (Some ([x'], w')) \<and> wired tm x' w' t' \<and>
    c_str (sw_topic_data x') = Inr (celsius_text (conversion t (conversions t + k)))"
  using assms(2,3)
proof (induction k arbitrary: x w t)
  case 0
  then show ?case using round_on_wire [OF assms(1) 0(1)] by auto
next
  case (Suc k)
  obtain x1 w1 t1 where r: "sensor_round [x] w = Inr (Some ([x1], w1))" "wired tm x1 w1 t1"
    "conversion t1 = conversion t" "conversions t1 = conversions t + 1"
    using round_on_wire [OF assms(1) Suc.prems(1)] Suc.prems(2) by blast
  with Suc.IH [OF r(2)] Suc.prems(2) show ?case by simp
qed

lemma init_sensor_on_wire:
  assumes "timing_ok tm" "w_bus w = (n, s, d)" "\<not> p_low s" "w_malloc w (w_mallocs w)"
    and "ow_malloc_ok (w_ds w)" "can_add_program (w_ds w)" "claimed_sm (w_ds w) \<noteq> - 1"
  shows "\<exists>x w'. init_sensors [ds18b20_sensor (ds_bus tm) 2] w = Inr (Some ([x], w')) \<and>
    (case d of None \<Rightarrow> disconnected x
     | Some t \<Rightarrow> \<exists>t'. wired tm x w' t' \<and> conversion t' = conversion t \<and> conversions t' = conversions t)"
proof -
  obtain ds s' d' where i: "ds18b20_init (ds_bus tm) 2 (w_ds w) DS18B20_PIO DS18B20_PIN (n, s, d) =
      Inr (Some (if d = None then 4 else 0, ds, (8, s', d'), [Ow_Malloc, Program_Add, Sm_Claim]))"
    "ow ds \<noteq> None" "length (ds_data ds) = 9" "idle 8 s'" "map_option settled d' = map_option settled d"
    using init_on_wire [OF assms(1,3,5-7)] by blast
  let ?x = "(ds18b20_sensor (ds_bus tm) 2)\<lparr>custom_data := Some (Ds_Obj ds), disconnected := (d = None)\<rparr>"
  let ?w = "(snd (take_block w))\<lparr>w_bus := (8, s', d'), w_taken := w_taken w @ [Ow_Malloc, Program_Add, Sm_Claim]\<rparr>"
  have r: "init_sensors [ds18b20_sensor (ds_bus tm) 2] w = Inr (Some ([?x], ?w))"
    using i(1) assms(2,4) by (simp add: init_sensors_def init_sensor_def ds18b20_sensor_def init_fn_ds18b20_def take_block_def)
  show ?thesis
  proof (cases d)
    case None
    then show ?thesis using r by auto
  next
    case (Some t)
    then obtain t' where t': "d' = Some t'" "settled t' = settled t" using i(5) by auto
    have "conversion t' = conversion t \<and> conversions t' = conversions t"
      using t'(2) by (cases t; cases t') (simp add: settled_def)
    moreover have "wired tm ?x ?w t'" using i(2-4) t'(1) Some by (simp add: wired_def ds18b20_sensor_def)
    ultimately show ?thesis using r Some by auto
  qed
qed

lemma disconnected_rounds: "disconnected x \<Longrightarrow> sensor_rounds k [x] w = Inr (Some ([x], w))"
  by (induction k) (simp_all add: sensor_round_def prepare_sensors_def collect_data_sensors_def prepare_sensor_def collect_sensor_def)

text \<open>C7: From the probe to its report. With a DS18B20 on the line, whatever its address and with any timing within the bounds of the
  bus, initialisation finds it, and after any number of rounds the text of the sensor is the JSON object with the temperature of the
  last conversion, in degrees with two decimals: the search in words of one bit, the commands and the nine bytes in words of eight
  are all carried out by the slots of the state machine program. With nothing on the line the sensor ends up
  disconnected and the rounds pass it over.\<close>

theorem ds18b20_reports_on_wire:
  assumes "timing_ok tm" "w_bus w = (n, s, d)" "\<not> p_low s" "w_malloc w (w_mallocs w)"
    and "ow_malloc_ok (w_ds w)" "can_add_program (w_ds w)" "claimed_sm (w_ds w) \<noteq> - 1"
    and "\<forall>t k. d = Some t \<longrightarrow> valid_pad (conversion t k)"
  shows "\<exists>x w'. bindO (init_sensors [ds18b20_sensor (ds_bus tm) 2] w) (\<lambda>(arr, w1). sensor_rounds (Suc k) arr w1) = Inr (Some ([x], w')) \<and>
    (case d of None \<Rightarrow> disconnected x
     | Some t \<Rightarrow> \<not> disconnected x \<and> c_str (sw_topic_data x) = Inr (celsius_text (conversion t (conversions t + k))))"
proof -
  obtain x w1 where x: "init_sensors [ds18b20_sensor (ds_bus tm) 2] w = Inr (Some ([x], w1))"
    "case d of None \<Rightarrow> disconnected x
     | Some t \<Rightarrow> \<exists>t'. wired tm x w1 t' \<and> conversion t' = conversion t \<and> conversions t' = conversions t"
    using init_sensor_on_wire [OF assms(1-7)] by blast
  show ?thesis
  proof (cases d)
    case None
    then show ?thesis using x disconnected_rounds [of x "Suc k"] by (simp del: sensor_rounds.simps)
  next
    case (Some t)
    then obtain t' where t': "wired tm x w1 t'" "conversion t' = conversion t" "conversions t' = conversions t" using x(2) by auto
    have "\<forall>k. valid_pad (conversion t' k)" using assms(8) Some t'(2) by simp
    from rounds_on_wire [OF assms(1) t'(1) this, of k] t'(2,3) obtain x' w' t2 where
      "sensor_rounds (Suc k) [x] w1 = Inr (Some ([x'], w'))" "wired tm x' w' t2"
      "c_str (sw_topic_data x') = Inr (celsius_text (conversion t (conversions t + k)))" by metis
    then show ?thesis using x(1) Some by (auto simp: wired_def simp del: sensor_rounds.simps)
  qed
qed

text \<open>A probe at -10.125 degrees.\<close>

definition cold_probe :: ds18b20_device where
  "cold_probe = \<lparr> dev_rom = 0x28FF640000000017, scratchpad = replicate 9 0, conversion = (\<lambda>_. cold_scratchpad), conversions = 0, phase = Silent \<rparr>"

definition cold_world :: "(nat \<times> pio_sm \<times> ds18b20_device option) sensor_world" where
  "cold_world = \<lparr> w_malloc = (\<lambda>_. True), w_mallocs = 0, w_blocks = 0, w_claims = (0, 0, 0), w_loops = (0, 0), w_clock = (\<lambda>_. 0),
     w_dht = (\<lambda>_. \<lparr> polls = [], busy_after = False, received = [] \<rparr>), w_round = 0, w_hw = [], w_bus = (8, demo_sm, Some cold_probe),
     w_ds = \<lparr> ow_malloc_ok = True, can_add_program = True, program_offset = 5, claimed_sm = 3, reset_instr = 0, romcode_stack = 0 \<rparr>,
     w_taken = [] \<rparr>"

interpretation probe: search_bus "ds_bus demo_timing" "probe_has (Some cold_probe)" "probe_on (Some cold_probe)" "probe_at (Some cold_probe)" ds_searches
  by (rule ds_search_bus) (simp add: demo_timing_def timing_ok_def)

theorem ds18b20_reports_on_wire_witness:
  "\<exists>x w'. bindO (init_sensors [ds18b20_sensor (ds_bus demo_timing) 2] cold_world) (\<lambda>(arr, w1). sensor_rounds 3 arr w1) = Inr (Some ([x], w')) \<and>
    \<not> disconnected x \<and> c_str (sw_topic_data x) = Inr (chars ''{\"w_temp\":-10.12}'')"
proof -
  have "valid_pad cold_scratchpad" using cold_checksum by (simp add: valid_pad_def cold_scratchpad_def)
  moreover have "celsius_text cold_scratchpad = chars ''{\"w_temp\":-10.12}''"
  proof -
    have "sint (ucast (cold_scratchpad ! 0) OR push_bit 8 (ucast (cold_scratchpad ! 1)) :: u16) = - 162" by code_simp
    moreover have "hundredths (div_even 16200 16) = chars ''10.12''" by (simp add: div_even_def hundredths_def decimal.simps chars_def)
    ultimately show ?thesis by (simp add: celsius_text_def chars_def)
  qed
  ultimately show ?thesis
    using ds18b20_reports_on_wire [of demo_timing cold_world 8 demo_sm "Some cold_probe" 2]
    by (simp add: cold_world_def [THEN arg_cong, of w_bus] cold_world_def [THEN arg_cong, of w_malloc] cold_world_def [THEN arg_cong, of w_mallocs]
        cold_world_def [THEN arg_cong, of w_ds] cold_probe_def demo_timing_def timing_ok_def demo_sm_def machine_def eval_nat_numeral del: sensor_rounds.simps)
qed

end
