(* ===== verification/Library_Config.thy ===== *)
theory Library_Config
  imports Pico_Prelude
begin

text \<open>
  \<open>src/access_point_httpd/lwipopts.h\<close> and \<open>src/mbedtls_config.h\<close>: the headers that configure the network and the TLS library,
  as lists of directives with the part of the preprocessor they use, and that the options are consistent and switch on
  what the firmware calls.
\<close>

section \<open>Model\<close>

datatype pp_expr =
    Num nat | Text string | Name string
  | Plus pp_expr pp_expr | Minus pp_expr pp_expr | Times pp_expr pp_expr | Divide pp_expr pp_expr

datatype pp_line =
    Define string "pp_expr option"   \<comment> \<open>without a body: defined as nothing\<close>
  | If string | Ifndef string | Else | Endif
  | Include string

type_synonym macros = "(string \<times> pp_expr option) list"

text \<open>The value of an expression of whole numbers, with at most \<open>n\<close> replacements of a name by its body. Text has no value, nor
  has a name whose body is not known here.\<close>

fun pp_value :: "nat \<Rightarrow> macros \<Rightarrow> pp_expr \<Rightarrow> nat option" where
  "pp_value n ms (Num k) = Some k"
| "pp_value n ms (Text t) = None"
| "pp_value 0 ms (Name x) = None"
| "pp_value (Suc n) ms (Name x) = (case map_of ms x of Some (Some e) \<Rightarrow> pp_value n ms e | _ \<Rightarrow> None)"
| "pp_value n ms (Plus a b) = combine_options (+) (pp_value n ms a) (pp_value n ms b)"
| "pp_value n ms (Minus a b) = combine_options (-) (pp_value n ms a) (pp_value n ms b)"
| "pp_value n ms (Times a b) = combine_options (*) (pp_value n ms a) (pp_value n ms b)"
| "pp_value n ms (Divide a b) = combine_options (div) (pp_value n ms a) (pp_value n ms b)"

text \<open>Reading a file: the stack holds, for every open conditional, whether its lines count. In a condition an undefined name
  is zero.\<close>

definition pp_holds :: "macros \<Rightarrow> string \<Rightarrow> bool" where
  "pp_holds ms x \<longleftrightarrow> (case pp_value 1 ms (Name x) of Some k \<Rightarrow> k \<noteq> 0 | None \<Rightarrow> False)"

fun preprocess :: "bool list \<Rightarrow> pp_line list \<Rightarrow> macros \<Rightarrow> macros" where
  "preprocess st [] ms = ms"
| "preprocess st (Define x e # ls) ms = preprocess st ls (if list_all id st then (x, e) # ms else ms)"
| "preprocess st (If x # ls) ms = preprocess (pp_holds ms x # st) ls ms"
| "preprocess st (Ifndef x # ls) ms = preprocess ((map_of ms x = None) # st) ls ms"
| "preprocess st (Else # ls) ms = preprocess (case st of [] \<Rightarrow> [] | b # bs \<Rightarrow> (\<not> b) # bs) ls ms"
| "preprocess st (Endif # ls) ms = preprocess (tl st) ls ms"
| "preprocess st (Include f # ls) ms = preprocess st ls ms"

text \<open>A run of definitions, one line each.\<close>

definition all_defined :: "macros \<Rightarrow> pp_line list" where
  "all_defined ds = map (\<lambda>(x, e). Define x e) ds"

definition lwip_base :: macros where
  "lwip_base =
    [(''LWIP_HTTPD_SSI'', Some (Num 1)), (''LWIP_HTTPD_SUPPORT_POST'', Some (Num 1)),
     (''HTTPD_FSDATA_FILE'', Some (Text ''myfs.c'')), (''MEM_ALIGNMENT'', Some (Num 4)),
     (''MEM_SIZE'', Some (Num 4000)), (''MEMP_NUM_TCP_SEG'', Some (Num 32)),
     (''MEMP_NUM_ARP_QUEUE'', Some (Num 10)), (''PBUF_POOL_SIZE'', Some (Num 24)), (''LWIP_ARP'', Some (Num 1)),
     (''LWIP_ETHERNET'', Some (Num 1)), (''LWIP_ICMP'', Some (Num 1)), (''LWIP_RAW'', Some (Num 1)),
     (''TCP_WND'', Some (Num 16384)), (''TCP_MSS'', Some (Num 1460)),
     (''TCP_SND_BUF'', Some (Times (Num 8) (Name ''TCP_MSS''))),
     (''TCP_SND_QUEUELEN'', Some (Divide (Plus (Times (Num 4) (Name ''TCP_SND_BUF'')) (Minus (Name ''TCP_MSS'') (Num 1))) (Name ''TCP_MSS''))),
     (''LWIP_NETIF_STATUS_CALLBACK'', Some (Num 1)), (''LWIP_NETIF_LINK_CALLBACK'', Some (Num 1)),
     (''LWIP_NETIF_HOSTNAME'', Some (Num 1)), (''LWIP_NETCONN'', Some (Num 0)), (''MEM_STATS'', Some (Num 0)),
     (''SYS_STATS'', Some (Num 0)), (''MEMP_STATS'', Some (Num 0)), (''LINK_STATS'', Some (Num 0)),
     (''LWIP_CHKSUM_ALGORITHM'', Some (Num 3)), (''LWIP_DHCP'', Some (Num 1)), (''LWIP_IPV4'', Some (Num 1)),
     (''LWIP_TCP'', Some (Num 1)), (''LWIP_UDP'', Some (Num 1)), (''LWIP_DNS'', Some (Num 1)),
     (''LWIP_TCP_KEEPALIVE'', Some (Num 0)), (''LWIP_NETIF_TX_SINGLE_PBUF'', Some (Num 1)),
     (''DHCP_DOES_ARP_CHECK'', Some (Num 0)), (''LWIP_DHCP_DOES_ACD_CHECK'', Some (Num 0))]"

definition lwip_stats :: macros where
  "lwip_stats = [(''LWIP_DEBUG'', Some (Num 1)), (''LWIP_STATS'', Some (Num 1)), (''LWIP_STATS_DISPLAY'', Some (Num 1))]"

definition lwip_rest :: macros where
  "lwip_rest =
    [(''ETHARP_DEBUG'', Some (Name ''LWIP_DBG_OFF'')), (''NETIF_DEBUG'', Some (Name ''LWIP_DBG_OFF'')),
     (''PBUF_DEBUG'', Some (Name ''LWIP_DBG_OFF'')), (''API_LIB_DEBUG'', Some (Name ''LWIP_DBG_OFF'')),
     (''API_MSG_DEBUG'', Some (Name ''LWIP_DBG_OFF'')), (''SOCKETS_DEBUG'', Some (Name ''LWIP_DBG_OFF'')),
     (''ICMP_DEBUG'', Some (Name ''LWIP_DBG_OFF'')), (''INET_DEBUG'', Some (Name ''LWIP_DBG_OFF'')),
     (''IP_DEBUG'', Some (Name ''LWIP_DBG_OFF'')), (''IP_REASS_DEBUG'', Some (Name ''LWIP_DBG_OFF'')),
     (''RAW_DEBUG'', Some (Name ''LWIP_DBG_OFF'')), (''MEM_DEBUG'', Some (Name ''LWIP_DBG_OFF'')),
     (''MEMP_DEBUG'', Some (Name ''LWIP_DBG_OFF'')), (''SYS_DEBUG'', Some (Name ''LWIP_DBG_OFF'')),
     (''TCP_DEBUG'', Some (Name ''LWIP_DBG_OFF'')), (''TCP_INPUT_DEBUG'', Some (Name ''LWIP_DBG_OFF'')),
     (''TCP_OUTPUT_DEBUG'', Some (Name ''LWIP_DBG_OFF'')), (''TCP_RTO_DEBUG'', Some (Name ''LWIP_DBG_OFF'')),
     (''TCP_CWND_DEBUG'', Some (Name ''LWIP_DBG_OFF'')), (''TCP_WND_DEBUG'', Some (Name ''LWIP_DBG_OFF'')),
     (''TCP_FR_DEBUG'', Some (Name ''LWIP_DBG_OFF'')), (''TCP_QLEN_DEBUG'', Some (Name ''LWIP_DBG_OFF'')),
     (''TCP_RST_DEBUG'', Some (Name ''LWIP_DBG_OFF'')), (''UDP_DEBUG'', Some (Name ''LWIP_DBG_OFF'')),
     (''TCPIP_DEBUG'', Some (Name ''LWIP_DBG_OFF'')), (''PPP_DEBUG'', Some (Name ''LWIP_DBG_OFF'')),
     (''SLIP_DEBUG'', Some (Name ''LWIP_DBG_OFF'')), (''DHCP_DEBUG'', Some (Name ''LWIP_DBG_OFF'')),
     (''ALTCP_MBEDTLS_DEBUG'', Some (Name ''LWIP_DBG_OFF'')),
     (''ALTCP_MBEDTLS_MEM_DEBUG'', Some (Name ''LWIP_DBG_OFF'')), (''MQTT_DEBUG'', Some (Name ''LWIP_DBG_ON'')),
     (''HTTPD_DEBUG_TIMING'', Some (Name ''LWIP_DBG_ON'')), (''LWIP_ALTCP'', Some (Num 1)),
     (''LWIP_ALTCP_TLS'', Some (Num 1)), (''LWIP_ALTCP_TLS_MBEDTLS'', Some (Num 1)),
     (''MEMP_NUM_SYS_TIMEOUT'', Some (Plus (Name ''LWIP_NUM_SYS_TIMEOUT_INTERNAL'') (Num 1)))]"

definition lwipopts :: "pp_line list" where
  "lwipopts =
    [Ifndef ''_LWIPOPTS_H'', Define ''_LWIPOPTS_H'' None, Define ''LWIP_SOCKET'' (Some (Num 0)),
     If ''PICO_CYW43_ARCH_POLL'', Define ''MEM_LIBC_MALLOC'' (Some (Num 1)),
     Else, Define ''MEM_LIBC_MALLOC'' (Some (Num 0)), Endif] @
    all_defined lwip_base @
    [Ifndef ''NDEBUG''] @ all_defined lwip_stats @ [Endif] @
    all_defined lwip_rest @
    [Endif]"

definition mbedtls_options :: macros where
  "mbedtls_options =
    [(''MBEDTLS_CCM_C'', None), (''MBEDTLS_NO_PLATFORM_ENTROPY'', None), (''MBEDTLS_ENTROPY_HARDWARE_ALT'', None),
     (''MBEDTLS_SSL_OUT_CONTENT_LEN'', Some (Num 2048)), (''MBEDTLS_ALLOW_PRIVATE_ACCESS'', None),
     (''MBEDTLS_HAVE_TIME'', None), (''MBEDTLS_CIPHER_MODE_CBC'', None),
     (''MBEDTLS_ECP_DP_SECP192R1_ENABLED'', None), (''MBEDTLS_ECP_DP_SECP224R1_ENABLED'', None),
     (''MBEDTLS_ECP_DP_SECP256R1_ENABLED'', None), (''MBEDTLS_ECP_DP_SECP384R1_ENABLED'', None),
     (''MBEDTLS_ECP_DP_SECP521R1_ENABLED'', None), (''MBEDTLS_ECP_DP_SECP192K1_ENABLED'', None),
     (''MBEDTLS_ECP_DP_SECP224K1_ENABLED'', None), (''MBEDTLS_ECP_DP_SECP256K1_ENABLED'', None),
     (''MBEDTLS_ECP_DP_BP256R1_ENABLED'', None), (''MBEDTLS_ECP_DP_BP384R1_ENABLED'', None),
     (''MBEDTLS_ECP_DP_BP512R1_ENABLED'', None), (''MBEDTLS_ECP_DP_CURVE25519_ENABLED'', None),
     (''MBEDTLS_KEY_EXCHANGE_RSA_ENABLED'', None), (''MBEDTLS_PKCS1_V15'', None),
     (''MBEDTLS_SHA256_SMALLER'', None), (''MBEDTLS_SSL_SERVER_NAME_INDICATION'', None), (''MBEDTLS_AES_C'', None),
     (''MBEDTLS_ASN1_PARSE_C'', None), (''MBEDTLS_BIGNUM_C'', None), (''MBEDTLS_CIPHER_C'', None),
     (''MBEDTLS_CTR_DRBG_C'', None), (''MBEDTLS_ENTROPY_C'', None), (''MBEDTLS_ERROR_C'', None),
     (''MBEDTLS_MD_C'', None), (''MBEDTLS_MD5_C'', None), (''MBEDTLS_OID_C'', None), (''MBEDTLS_PKCS5_C'', None),
     (''MBEDTLS_PK_C'', None), (''MBEDTLS_PK_PARSE_C'', None), (''MBEDTLS_PLATFORM_C'', None),
     (''MBEDTLS_RSA_C'', None), (''MBEDTLS_SHA1_C'', None), (''MBEDTLS_SHA224_C'', None),
     (''MBEDTLS_SHA256_C'', None), (''MBEDTLS_SHA512_C'', None), (''MBEDTLS_SSL_CLI_C'', None),
     (''MBEDTLS_SSL_SRV_C'', None), (''MBEDTLS_SSL_TLS_C'', None), (''MBEDTLS_X509_CRT_PARSE_C'', None),
     (''MBEDTLS_X509_USE_C'', None), (''MBEDTLS_AES_FEWER_TABLES'', None), (''MBEDTLS_SSL_PROTO_TLS1_2'', None),
     (''MBEDTLS_KEY_EXCHANGE_ECDHE_ECDSA_ENABLED'', None), (''MBEDTLS_GCM_C'', None), (''MBEDTLS_ECDH_C'', None),
     (''MBEDTLS_ECP_C'', None), (''MBEDTLS_ECDSA_C'', None), (''MBEDTLS_ASN1_WRITE_C'', None),
     (''MBEDTLS_PEM_PARSE_C'', None), (''MBEDTLS_BASE64_C'', None)]"

definition mbedtls_config :: "pp_line list" where
  "mbedtls_config = [Include ''limits.h''] @ all_defined mbedtls_options"

section \<open>The options\<close>

text \<open>The macros the build gives: the polling variant of the radio's library, or not, and a release build, or not.\<close>

definition build_macros :: "bool \<Rightarrow> bool \<Rightarrow> macros" where
  "build_macros poll release =
    (if poll then [(''PICO_CYW43_ARCH_POLL'', Some (Num 1))] else []) @ (if release then [(''NDEBUG'', None)] else [])"

definition lwip_option :: "bool \<Rightarrow> bool \<Rightarrow> string \<Rightarrow> nat option" where
  "lwip_option poll release x = pp_value 4 (preprocess [] lwipopts (build_macros poll release)) (Name x)"

definition mbedtls_defined :: "string \<Rightarrow> bool" where
  "mbedtls_defined x \<longleftrightarrow> map_of (preprocess [] mbedtls_config []) x \<noteq> None"

text \<open>What lwIP documents of its buffers: windows and send buffers of at least two segments, a queue for at least two packets per segment
  of the send buffer, a segment for every place in the queue, lengths that fit 16 bits.\<close>

definition tcp_buffers_ok :: "nat \<Rightarrow> nat \<Rightarrow> nat \<Rightarrow> nat \<Rightarrow> nat \<Rightarrow> bool" where
  "tcp_buffers_ok mss wnd buf qlen seg \<longleftrightarrow>
    2 * mss \<le> wnd \<and> wnd \<le> 0xFFFF \<and> 2 * mss \<le> buf \<and> buf \<le> 0xFFFF \<and> 2 * (buf div mss) \<le> qlen \<and> qlen \<le> seg"

text \<open>What mbedTLS documents of its options: each needs one option of every list.\<close>

definition mbedtls_needs :: "(string \<times> string list list) list" where
  "mbedtls_needs =
    [(''MBEDTLS_CCM_C'', [[''MBEDTLS_AES_C''], [''MBEDTLS_CIPHER_C'']]),
     (''MBEDTLS_GCM_C'', [[''MBEDTLS_AES_C''], [''MBEDTLS_CIPHER_C'']]),
     (''MBEDTLS_CTR_DRBG_C'', [[''MBEDTLS_AES_C'']]),
     (''MBEDTLS_ENTROPY_C'', [[''MBEDTLS_SHA256_C'', ''MBEDTLS_SHA512_C'']]),
     (''MBEDTLS_RSA_C'', [[''MBEDTLS_BIGNUM_C''], [''MBEDTLS_OID_C'']]),
     (''MBEDTLS_ECP_C'', [[''MBEDTLS_BIGNUM_C''], [''MBEDTLS_ECP_DP_SECP256R1_ENABLED'', ''MBEDTLS_ECP_DP_CURVE25519_ENABLED'']]),
     (''MBEDTLS_ECDH_C'', [[''MBEDTLS_ECP_C'']]),
     (''MBEDTLS_ECDSA_C'', [[''MBEDTLS_ECP_C''], [''MBEDTLS_ASN1_PARSE_C''], [''MBEDTLS_ASN1_WRITE_C'']]),
     (''MBEDTLS_PEM_PARSE_C'', [[''MBEDTLS_BASE64_C'']]),
     (''MBEDTLS_PKCS5_C'', [[''MBEDTLS_MD_C'']]),
     (''MBEDTLS_PK_C'', [[''MBEDTLS_RSA_C'', ''MBEDTLS_ECP_C'']]),
     (''MBEDTLS_PK_PARSE_C'', [[''MBEDTLS_PK_C'']]),
     (''MBEDTLS_X509_USE_C'', [[''MBEDTLS_ASN1_PARSE_C''], [''MBEDTLS_BIGNUM_C''], [''MBEDTLS_OID_C''], [''MBEDTLS_PK_PARSE_C'']]),
     (''MBEDTLS_X509_CRT_PARSE_C'', [[''MBEDTLS_X509_USE_C'']]),
     (''MBEDTLS_SSL_TLS_C'', [[''MBEDTLS_CIPHER_C''], [''MBEDTLS_MD_C'']]),
     (''MBEDTLS_SSL_CLI_C'', [[''MBEDTLS_SSL_TLS_C'']]),
     (''MBEDTLS_SSL_SRV_C'', [[''MBEDTLS_SSL_TLS_C'']]),
     (''MBEDTLS_SSL_SERVER_NAME_INDICATION'', [[''MBEDTLS_X509_CRT_PARSE_C'']]),
     (''MBEDTLS_KEY_EXCHANGE_RSA_ENABLED'', [[''MBEDTLS_RSA_C''], [''MBEDTLS_PKCS1_V15''], [''MBEDTLS_X509_CRT_PARSE_C'']]),
     (''MBEDTLS_KEY_EXCHANGE_ECDHE_ECDSA_ENABLED'', [[''MBEDTLS_ECDH_C''], [''MBEDTLS_ECDSA_C''], [''MBEDTLS_X509_CRT_PARSE_C'']])]"

section \<open>Lemmas\<close>

lemma preprocess_defined [simp]:
  "preprocess st (all_defined ds @ ls) ms = preprocess st ls (if list_all id st then rev ds @ ms else ms)"
  "preprocess st (all_defined ds) ms = (if list_all id st then rev ds @ ms else ms)"
proof -
  show *: "preprocess st (all_defined ds @ ls) ms = preprocess st ls (if list_all id st then rev ds @ ms else ms)" for ls
    by (induction ds arbitrary: ms) (auto simp: all_defined_def)
  from * [of "[]"] show "preprocess st (all_defined ds) ms = (if list_all id st then rev ds @ ms else ms)" by simp
qed

lemma map_of_appended: "map_of (xs @ ys) x = (case map_of xs x of None \<Rightarrow> map_of ys x | Some e \<Rightarrow> Some e)"
  by (simp add: map_add_def)

text \<open>The macros at the end of the file, the last definition first.\<close>

lemma lwip_macros:
  "preprocess [] lwipopts (build_macros poll release) =
    rev lwip_rest @ (if release then [] else rev lwip_stats) @ rev lwip_base @
    [(''MEM_LIBC_MALLOC'', Some (Num (if poll then 1 else 0))), (''LWIP_SOCKET'', Some (Num 0)), (''_LWIPOPTS_H'', None)] @
    build_macros poll release"
proof -
  have "map_of (rev lwip_base) ''NDEBUG'' = None" by (simp add: lwip_base_def)
  then show ?thesis
    by (cases poll; cases release) (simp_all add: lwipopts_def build_macros_def pp_holds_def map_of_appended del: map_of_append)
qed

text \<open>Where a name is defined.\<close>

definition in_base :: "string \<Rightarrow> pp_expr \<Rightarrow> bool" where
  "in_base x e \<longleftrightarrow> map_of (rev lwip_rest) x = None \<and> map_of (rev lwip_stats) x = None \<and> map_of (rev lwip_base) x = Some (Some e)"

lemma option_in_base: "in_base x e \<Longrightarrow> map_of (preprocess [] lwipopts (build_macros poll release)) x = Some (Some e)"
  by (simp add: lwip_macros in_base_def map_of_appended del: map_of_append)

lemma option_in_rest: "map_of (rev lwip_rest) x = Some (Some e) \<Longrightarrow> map_of (preprocess [] lwipopts (build_macros poll release)) x = Some (Some e)"
  by (simp add: lwip_macros map_of_appended del: map_of_append)

lemma tcp_bodies:
  "in_base ''TCP_MSS'' (Num 1460)" "in_base ''TCP_WND'' (Num 16384)" "in_base ''TCP_SND_BUF'' (Times (Num 8) (Name ''TCP_MSS''))"
  "in_base ''TCP_SND_QUEUELEN'' (Divide (Plus (Times (Num 4) (Name ''TCP_SND_BUF'')) (Minus (Name ''TCP_MSS'') (Num 1))) (Name ''TCP_MSS''))"
  "in_base ''MEMP_NUM_TCP_SEG'' (Num 32)"
  unfolding in_base_def by (simp_all add: lwip_base_def lwip_stats_def lwip_rest_def)

lemma switched_in_base:
  "list_all (\<lambda>x. in_base x (Num 1))
    [''LWIP_HTTPD_SSI'', ''LWIP_HTTPD_SUPPORT_POST'', ''LWIP_ARP'', ''LWIP_ETHERNET'', ''LWIP_IPV4'', ''LWIP_TCP'', ''LWIP_UDP'', ''LWIP_DHCP'', ''LWIP_DNS'']"
  "in_base ''LWIP_NETCONN'' (Num 0)" "in_base ''HTTPD_FSDATA_FILE'' (Text ''myfs.c'')"
  unfolding in_base_def list_all_Nil_iff list_all_Cons_iff by (simp_all add: lwip_base_def lwip_stats_def lwip_rest_def)

lemma switched_in_rest:
  "list_all (\<lambda>x. map_of (rev lwip_rest) x = Some (Some (Num 1))) [''LWIP_ALTCP'', ''LWIP_ALTCP_TLS'', ''LWIP_ALTCP_TLS_MBEDTLS'']"
  unfolding list_all_Nil_iff list_all_Cons_iff by (simp add: lwip_rest_def)

text \<open>Values, by as many replacements as it takes.\<close>

lemma four: "(4 :: nat) = Suc (Suc (Suc (Suc 0)))"
  by simp

lemma option_value: "map_of (preprocess [] lwipopts (build_macros poll release)) x = Some (Some (Num k)) \<Longrightarrow> lwip_option poll release x = Some k"
  by (simp add: lwip_option_def four)

lemma tcp_values:
  assumes "map_of ms ''TCP_MSS'' = Some (Some (Num 1460))" "map_of ms ''TCP_SND_BUF'' = Some (Some (Times (Num 8) (Name ''TCP_MSS'')))"
    and "map_of ms ''TCP_SND_QUEUELEN'' = Some (Some (Divide (Plus (Times (Num 4) (Name ''TCP_SND_BUF'')) (Minus (Name ''TCP_MSS'') (Num 1))) (Name ''TCP_MSS'')))"
  shows "pp_value 4 ms (Name ''TCP_SND_BUF'') = Some 11680" "pp_value 4 ms (Name ''TCP_SND_QUEUELEN'') = Some 32"
  unfolding four by (simp_all add: assms)

lemma lwip_switches:
  "list_all (\<lambda>x. lwip_option poll release x = Some 1)
    [''LWIP_HTTPD_SSI'', ''LWIP_HTTPD_SUPPORT_POST'', ''LWIP_ARP'', ''LWIP_ETHERNET'', ''LWIP_IPV4'', ''LWIP_TCP'', ''LWIP_UDP'', ''LWIP_DHCP'', ''LWIP_DNS'',
     ''LWIP_ALTCP'', ''LWIP_ALTCP_TLS'', ''LWIP_ALTCP_TLS_MBEDTLS'']"
  "lwip_option poll release ''LWIP_NETCONN'' = Some 0"
proof -
  have base: "in_base x (Num 1) \<Longrightarrow> lwip_option poll release x = Some 1" for x by (rule option_value [OF option_in_base])
  have rest: "map_of (rev lwip_rest) x = Some (Some (Num 1)) \<Longrightarrow> lwip_option poll release x = Some 1" for x by (rule option_value [OF option_in_rest])
  show "list_all (\<lambda>x. lwip_option poll release x = Some 1)
    [''LWIP_HTTPD_SSI'', ''LWIP_HTTPD_SUPPORT_POST'', ''LWIP_ARP'', ''LWIP_ETHERNET'', ''LWIP_IPV4'', ''LWIP_TCP'', ''LWIP_UDP'', ''LWIP_DHCP'', ''LWIP_DNS'',
     ''LWIP_ALTCP'', ''LWIP_ALTCP_TLS'', ''LWIP_ALTCP_TLS_MBEDTLS'']"
    using switched_in_base(1) switched_in_rest unfolding list_all_Nil_iff list_all_Cons_iff
    by (elim conjE) (intro conjI TrueI; (rule base, assumption | rule rest, assumption))
  show "lwip_option poll release ''LWIP_NETCONN'' = Some 0" by (rule option_value [OF option_in_base [OF switched_in_base(2)]])
qed

lemma early_option:
  assumes "map_of (rev lwip_rest) x = None" "map_of (rev lwip_stats) x = None" "map_of (rev lwip_base) x = None"
    and "map_of [(''MEM_LIBC_MALLOC'', Some (Num (if poll then 1 else 0))), (''LWIP_SOCKET'', Some (Num 0)), (''_LWIPOPTS_H'', None)] x = Some (Some (Num k))"
  shows "lwip_option poll release x = Some k"
proof (rule option_value)
  show "map_of (preprocess [] lwipopts (build_macros poll release)) x = Some (Some (Num k))"
    unfolding lwip_macros map_of_appended by (cases release) (simp_all only: assms(1-3) if_True if_False option.case map_of.simps(1) assms(4))
qed

lemma lwip_early:
  "lwip_option poll release ''LWIP_SOCKET'' = Some 0" "lwip_option poll release ''MEM_LIBC_MALLOC'' = Some (if poll then 1 else 0)"
  by (rule early_option; simp add: lwip_base_def lwip_stats_def lwip_rest_def)+

text \<open>An entry of the list is found by walking down to it.\<close>

lemma option_defined: "(x, e) \<in> set mbedtls_options \<Longrightarrow> mbedtls_defined x"
proof -
  assume "(x, e) \<in> set mbedtls_options"
  then have "x \<in> fst ` set mbedtls_options" by (metis fst_conv image_eqI)
  moreover have "preprocess [] mbedtls_config [] = rev mbedtls_options" by (simp add: mbedtls_config_def)
  ultimately show ?thesis by (simp add: mbedtls_defined_def map_of_eq_None_iff)
qed

lemma mbedtls_present:
  "list_all mbedtls_defined
    [''MBEDTLS_CCM_C'', ''MBEDTLS_AES_C'', ''MBEDTLS_CIPHER_C'', ''MBEDTLS_GCM_C'', ''MBEDTLS_CTR_DRBG_C'',
     ''MBEDTLS_ENTROPY_C'', ''MBEDTLS_SHA256_C'', ''MBEDTLS_RSA_C'', ''MBEDTLS_BIGNUM_C'', ''MBEDTLS_OID_C'',
     ''MBEDTLS_ECP_C'', ''MBEDTLS_ECP_DP_SECP256R1_ENABLED'', ''MBEDTLS_ECDH_C'', ''MBEDTLS_ECDSA_C'',
     ''MBEDTLS_ASN1_PARSE_C'', ''MBEDTLS_ASN1_WRITE_C'', ''MBEDTLS_PEM_PARSE_C'', ''MBEDTLS_BASE64_C'', ''MBEDTLS_PKCS5_C'',
     ''MBEDTLS_MD_C'', ''MBEDTLS_PK_C'', ''MBEDTLS_PK_PARSE_C'', ''MBEDTLS_X509_USE_C'', ''MBEDTLS_X509_CRT_PARSE_C'',
     ''MBEDTLS_SSL_TLS_C'', ''MBEDTLS_SSL_CLI_C'', ''MBEDTLS_SSL_SRV_C'', ''MBEDTLS_SSL_SERVER_NAME_INDICATION'',
     ''MBEDTLS_KEY_EXCHANGE_RSA_ENABLED'', ''MBEDTLS_PKCS1_V15'', ''MBEDTLS_KEY_EXCHANGE_ECDHE_ECDSA_ENABLED'']"
  unfolding list_all_Nil_iff list_all_Cons_iff
  by (intro conjI TrueI option_defined [where e = None]; unfold mbedtls_options_def; (rule list.set_intros(1) | rule list.set_intros(2))+)

lemma mbedtls_closed: "list_all (\<lambda>(x, ys). mbedtls_defined x \<and> list_all (list_ex mbedtls_defined) ys) mbedtls_needs"
  using mbedtls_present unfolding mbedtls_needs_def list_all_Nil_iff list_all_Cons_iff by (simp only: list_all_Nil_iff list_all_Cons_iff list_ex_Nil_iff list_ex_Cons_iff prod.case simp_thms)

section \<open>The configuration\<close>

text \<open>In every build the options are consistent and switch on what the firmware calls. The buffers of TCP keep the relations lwIP
  documents, the queue for outgoing packets taking exactly the segments there are; both servers of the access point, the client, the page
  with its tags and forms and the TLS layer are compiled in; the interfaces that need an operating system are not; memory comes from the C
  library in the polling build. Every option of mbedTLS has what its documentation asks for.\<close>

theorem library_configuration:
  "(\<exists>mss wnd buf qlen seg. lwip_option poll release ''TCP_MSS'' = Some mss \<and> lwip_option poll release ''TCP_WND'' = Some wnd \<and>
      lwip_option poll release ''TCP_SND_BUF'' = Some buf \<and> lwip_option poll release ''TCP_SND_QUEUELEN'' = Some qlen \<and>
      lwip_option poll release ''MEMP_NUM_TCP_SEG'' = Some seg \<and> tcp_buffers_ok mss wnd buf qlen seg \<and> qlen = seg) \<and>
    list_all (\<lambda>x. lwip_option poll release x = Some 1)
      [''LWIP_HTTPD_SSI'', ''LWIP_HTTPD_SUPPORT_POST'', ''LWIP_ARP'', ''LWIP_ETHERNET'', ''LWIP_IPV4'', ''LWIP_TCP'', ''LWIP_UDP'', ''LWIP_DHCP'', ''LWIP_DNS'',
       ''LWIP_ALTCP'', ''LWIP_ALTCP_TLS'', ''LWIP_ALTCP_TLS_MBEDTLS''] \<and>
    lwip_option poll release ''LWIP_NETCONN'' = Some 0 \<and> lwip_option poll release ''LWIP_SOCKET'' = Some 0 \<and>
    lwip_option poll release ''MEM_LIBC_MALLOC'' = Some (if poll then 1 else 0) \<and>
    list_all (\<lambda>(x, ys). mbedtls_defined x \<and> list_all (list_ex mbedtls_defined) ys) mbedtls_needs"
proof -
  note b = tcp_bodies [THEN option_in_base, of poll release]
  have "lwip_option poll release ''TCP_MSS'' = Some 1460" "lwip_option poll release ''TCP_WND'' = Some 16384"
    "lwip_option poll release ''MEMP_NUM_TCP_SEG'' = Some 32" using b by (blast intro: option_value)+
  moreover have "lwip_option poll release ''TCP_SND_BUF'' = Some 11680" "lwip_option poll release ''TCP_SND_QUEUELEN'' = Some 32"
    using tcp_values [OF b(1,3,4)] by (simp_all only: lwip_option_def)
  moreover have "tcp_buffers_ok 1460 16384 11680 32 32" by (simp add: tcp_buffers_ok_def)
  ultimately show ?thesis using lwip_switches [of poll release] lwip_early [of poll release] mbedtls_closed by (intro conjI) blast+
qed

end
