(* ===== verification/Spec2Isabelle.thy ===== *)
theory Spec2Isabelle
  imports Firmware Web_Page Tls_Build Tls_Settings Dht_Pio Ds18b20_Pio Library_Config
begin

text \<open>
  Verification of the firmware of a sensor aggregator on the Raspberry Pi Pico W.

  \<^bold>\<open>The program.\<close> Core 0 (\<open>main\<close> in \<open>src/main.c\<close>) measures: every iteration it prepares the sensors, collects their
  readings as JSON texts and passes the texts through a queue to core 1. Core 1 (\<open>core1_entry\<close>) loads the settings from flash
  and, depending on a button, either opens an access point with a DHCP server, a DNS server and a page on which the
  settings are edited (\<open>httpd_ap_mode\<close>), or joins a network as a station and publishes the texts to an MQTT broker, from
  which it takes commands for a water pump and a light (\<open>mqtt_sta_mode\<close>). After a form has changed the settings they are
  written to flash and the device restarts through the watchdog.

  \<^bold>\<open>The theories and the code they model\<close> (files under \<open>src/\<close>).

  \<^item> \<open>Pico_Prelude\<close>: words, byte buffers with checked access, C strings, the sum \<open>'a ub\<close> whose left side is a memory fault
    or another undefined behaviour, runs of events over a state (\<open>runE\<close>), and the two locales for servers that answer packets
    (\<open>preserving\<close>, \<open>reactive\<close>).
  \<^item> \<open>Non_Volatile\<close> (\<open>non_volatile.c\<close>), \<open>Runtime_Settings\<close> (\<open>runtime_settings.c\<close>, \<open>crypto_consts.h\<close>), \<open>Http_Control\<close>
    (\<open>access_point_httpd/http_control.c\<close>), \<open>Settings_Form\<close> (\<open>process_post_field\<close> of \<open>main.c\<close>), \<open>Web_Page\<close>
    (\<open>access_point_httpd/myfs.c\<close>): from the page a user sees to the bytes in flash. The flash is a function from addresses to bytes
    with the erase and program primitives of the SDK as a parameter; the settings object is a record with its byte layout. \<open>Tls_Settings\<close> is
    the object, its layout and its storage under \<open>ENABLE_TLS\<close>, with the certificates of \<open>crypto_consts.h\<close>.
  \<^item> \<open>Udp_Env\<close>, \<open>Dhcp_Server\<close>, \<open>Dhcp_Leases\<close>, \<open>Dhcp_Correct\<close> (\<open>dhcpserver.c\<close>) and \<open>Dns_Server\<close> (\<open>dnsserver.c\<close>): the two servers
    on packets as lists of bytes; what lies on the stack, the clock and the results of the network library are arguments of each step.
  \<^item> \<open>Mqtt_Client\<close>, \<open>Mqtt_Correct\<close> (\<open>tls_mqtt_client.c\<close>), \<open>Tls_Build\<close> (its parts under \<open>ENABLE_TLS\<close>) and \<open>Control_Topics\<close> (the pump and
    the light of \<open>main.c\<close>): the client with its heap, in which every \<open>free\<close> is checked, and the alarm that stops the pump.
  \<^item> \<open>C_Float\<close> (single precision and its printing), \<open>Dht\<close> (\<open>dht_pio/dht.c\<close>), \<open>Onewire\<close>, \<open>Onewire_Search\<close>
    (\<open>onewire_library.c\<close>), \<open>Ds18b20\<close> (\<open>ds18b20_pio/ds18b20.c\<close>), \<open>Sensors\<close> (\<open>sensors.c\<close>): the drivers up to the texts.
  \<^item> \<open>Pio\<close>, \<open>Dht_Pio\<close> (\<open>dht_pio/dht.pio\<close>), \<open>Onewire_Pio\<close> (\<open>onewire_library.pio\<close>): the state machine programs below the drivers, cycle
    by cycle on the levels of the line; \<open>Ds18b20_Pio\<close>: the sensor of \<open>sensors.c\<close> and its driver on that program, with a device on the line.
  \<^item> \<open>Library_Config\<close> (\<open>access_point_httpd/lwipopts.h\<close>, \<open>mbedtls_config.h\<close>): the options of the libraries as the preprocessor reads them.
  \<^item> \<open>Wifi_Arch\<close> (\<open>wifi_arch.c\<close>), \<open>Sensor_Queue\<close>, \<open>Access_Point\<close>, \<open>Station\<close>, \<open>Station_Safe\<close>, \<open>Firmware\<close> (\<open>main.c\<close>): the queue between the
    cores, the two modes of core 1, the loop of core 0, and this theory: the properties that span both.

  Each operation of the code is one definition with the code's name, its state passed explicitly; loops whose body has a name of its
  own are recursive functions of that name. Calls into libraries are collected in order; what they return is an argument.

  \<^bold>\<open>What is shown.\<close> \<^emph>\<open>Configuration\<close>: byte layout, field table and members of the settings agree; a posted form, however
  it arrives, acts as an update of an abstract map; what a browser sends for the page is stored as it is sent, percent-encoded, which is what was typed
  exactly for letters, digits and a few marks; what is stored is what later boots load; the device as a whole goes from a form to a
  restart with the new settings. \<^emph>\<open>Servers\<close>: no packet makes the DNS server, and no packet whose options the DHCP server can parse (so none with a pad
  byte where it takes a length for it) makes that server, touch memory
  outside its buffers; which full-size packets make it read too far is characterised; live leases stay exclusive over all packet
  sequences without a fault; replies have the contents their protocols ask for. \<^emph>\<open>Station\<close>: over
  all interleavings of events the station goes on without a fault, messages are reassembled and delivered once, and a running
  pump has an alarm that stops it, exactly if every command ends before the alarm it sets falls due. \<^emph>\<open>Sensor core\<close>: it goes on, and sees a request to
  restart, as long as the clock runs and exactly as long as the queue has room for its texts. \<^emph>\<open>Sensors\<close>: the signal of the sensor and the slots of the bus become the bytes
  the drivers decode, checksums are polynomial remainders, the search finds every device, the texts show the values exactly; from the line of the sensor to the broker, what is
  measured is published. \<^emph>\<open>Builds\<close>: with certificates the library accepts, the TLS build initialises as the plain one, with the same calls up to those to \<open>altcp_tls\<close>; neither runs on settings of the other; the options of the libraries are consistent. \<^emph>\<open>Errors\<close>: where the code does not do what it means to, the theorem says for which inputs, and what holds
  for all others.

  \<^bold>\<open>Interfaces.\<close> A locale states each contract a client relies on, with an interpretation on the model: the store (\<open>nv_store\<close>), the
  receiver of form fields (\<open>form_sink\<close>), the allocator (\<open>allocator\<close>), the queue (\<open>data_queue\<close>), a sensor driver
  (\<open>sensor_driver\<close>, for both drivers), a bus for the search (\<open>search_bus\<close>, for protocol-level devices, for the state machine
  program in words of one bit, and for the program that switches between words of one and eight bits), packet servers (\<open>preserving\<close>, \<open>reactive\<close>).

  \<^bold>\<open>Bounds.\<close> The endless loops of the firmware run over a list of rounds or events, so that a property for all lists is one for every
  prefix of the execution. Draining the queue takes a bound, enough when it exceeds the number of entries the queue holds; the search takes
  a bound on its passes, enough when it exceeds the number of devices; waiting for a name takes the list of what the library reports, and
  a property of \<open>Mqtt_Correct\<close> says for which lists it returns. Integers have the width of the code.

  \<^bold>\<open>Not modelled.\<close> \<open>DEBUG_PRINT\<close> of \<open>utility.h\<close> only prints, and is empty in a build without \<open>DEBUG\<close>, its \<open>ARRAY_LENGTH\<close> is the length of a list; the build files, the
  page generator \<open>htmlgen\<close>, a binary, and the patch to lwIP contain no code of the firmware. The SDK, lwIP, mbedTLS and the radio are
  parameters. Interrupts are events between the steps of a handler, not within them, except where the code guards against that
  (the mutex of the pump). Time passes only where the code reads it. In a run of the sensor core the network core takes elements out of the queue before an
  iteration, not while a call waits for room: such a call does not end by itself. In the access point the sensor core puts texts in while the loop
  sleeps. A pointer that is formed beyond an array but not read, and a shift that leaves the range of \<open>int\<close>, are taken as the compiler does,
  not as faults.
\<close>

section \<open>Configuring the device\<close>

text \<open>C1: A device is configured from the browser and the configuration is what it runs with after the restart. Started with
  the button pressed, on any flash, the network core loads settings, serves its page for any number of
  rounds in which at most the sensor core puts texts into the queue, and after one posted form that changes something leaves the access point with the request to
  restart; from then on every boot loads, without touching the flash, the strings of
  the form for the fields it names and the previous ones for the others.\<close>

theorem device_reconfigured:
  fixes contents :: "'q \<Rightarrow> queue_entry_t list"
  assumes "data_queue ops contents room" "contents (g_queue g) = []" "0 < drain_bound env"
    and "copy_ok (ap_side env)" "ap_init_res (ap_side env) = 0 \<and> snd (dns_sock (ap_side env)) = 0"
    and "flash_dev_ok (env_dev env)" "212 \<le> length (mem_after env)" "\<not> button_level env"
    and "ap_rounds env = quiet @ [Web_Post n cs uri ulen] # evs # rounds" "list_all sensor_text (concat quiet)"
    and "concat quiet = [] \<or> room < drain_bound env \<and> length (g_table g) = NUMBER_OF_SENSOR_TOPICS"
    and "unat ulen \<le> length uri" "0 \<notin> set (concat cs)" "length (concat cs) < MAX_POST_DATA_LEN" "n \<le> int MAX_POST_DATA_LEN"
    and "load_settings (env_dev env) (mem_after env) (g_settings g) fl = Inr (old, flash_old)"
    and "v = fold (\<lambda>(k, v). update_field k (firmware_value v)) (form_pairs (concat cs))
           (settings_view (\<lparr> mqtt_settings = old, settings_changed = False \<rparr>))" "snd v"
  shows "\<exists>fl' s' st. core1_entry ops env fl g = Inr (Some (Ap_Ended True fl' s')) \<and>
    (\<forall>mem. load_settings (env_dev env) (mem_after env) mem fl' = Inr (st, fl')) \<and>
    fst (settings_view (\<lparr> mqtt_settings = st, settings_changed = ch \<rparr>)) = fst v"
proof -
  define s where "s = \<lparr> ap_queue = g_queue g, ap_table = g_table g,
      ap_settings = \<lparr> mqtt_settings = old, settings_changed = False \<rparr>, ap_http = http_control_boot,
      ap_dhcp = g_dhcp g, ap_dns = g_dns g, ap_calls = [] \<rparr>"
  have wf: "state_wf (ap_settings s)" using load_settings_wf [OF assms(6,7,16)] by (simp add: s_def state_wf_def)
  have s: "contents (ap_queue s) = []" "ap_http s = http_control_boot" "ap_table s = g_table g" using assms(2) by (simp_all add: s_def)
  have v: "v = fold (\<lambda>(k, v). update_field k (firmware_value v)) (form_pairs (concat cs)) (settings_view (ap_settings s))"
    using assms(17) by (simp add: s_def)
  from form_reaches_flash [where fl = flash_old and any = default_settings and ch = ch and auth = "auth_mode env" and idle = quiet and evs = evs and rounds = rounds,
      OF assms(1) s(1) assms(3,10) assms(11) [folded s(3)] assms(4,5) s(2) wf assms(12-15) v assms(18) assms(6,7)]
  obtain fl' s' st where
    r: "httpd_ap_mode (ap_side env) (auth_mode env) ops (drain_bound env) (quiet @ [Web_Post n cs uri ulen] # evs # rounds)
      (env_dev env) (mem_after env) flash_old s = Inr (Some (True, fl', s'))"
    "read_settings_from_flash fl' (Some default_settings) = (0, Some st)"
    "fst (settings_view (\<lparr> mqtt_settings = st, settings_changed = ch \<rparr>)) = fst v" by blast
  have "core1_entry ops env fl g = Inr (Some (Ap_Ended True fl' s'))"
    using assms(8,16) r(1) by (simp add: core1_entry_def assms(9) case_prod_beta Let_def flip: s_def)
  moreover have "load_settings (env_dev env) (mem_after env) mem fl' = Inr (st, fl')" for mem
    using r(2) read_any [of fl' mem default_settings] by (intro load_valid) simp
  ultimately show ?thesis using r(3) by blast
qed

definition demo_globals :: "queue_entry_t list globals" where
  "demo_globals = \<lparr> g_queue = [], g_table = initial_sensor_data,
     g_hw = (control_boot, \<lparr> dir_out = (\<lambda>_. False), pulled_up = (\<lambda>_. False), alarm_slots = None \<rparr>), g_heap = demo_heap,
     g_settings = default_settings, g_dhcp = \<lparr> ip = [0, 0, 0, 0], nm = [0, 0, 0, 0], lease = [], udp = None \<rparr>,
     g_dns = \<lparr> dns_udp = None, dns_ip = [0, 0, 0, 0] \<rparr> \<rparr>"

definition demo_core1 :: core1_env where
  "demo_core1 = \<lparr> button_level = False, env_dev = nor_flash, mem_after = replicate 212 0, auth_mode = 0, drain_bound = 11,
     ap_side = \<lparr> copy_ok = True, ap_init_res = 0, dhcp_sock = (Some 1, 0), dns_sock = (Some 2, 0) \<rparr>,
     ap_rounds = [[], [Sensor_Text (replicate 128 0) 1], []] @ [Web_Post 14 [chars ''wifi_s'', chars ''sid=home''] (replicate 64 0) 64] # [] # [],
     sta_side = demo_sta_env True, sta_rounds = [] \<rparr>"

theorem device_reconfigured_witness:
  "\<exists>fl' s' st. core1_entry sdk_queue demo_core1 (\<lambda>_. 0xFF) demo_globals = Inr (Some (Ap_Ended True fl' s')) \<and>
    load_settings nor_flash (replicate 212 0) default_settings fl' = Inr (st, fl') \<and>
    fst (settings_view (\<lparr> mqtt_settings = st, settings_changed = False \<rparr>)) ''wifi_ssid'' = chars ''home''"
proof -
  let ?cs = "[chars ''wifi_s'', chars ''sid=home'']"
  have e: "env_dev demo_core1 = nor_flash" "mem_after demo_core1 = replicate 212 0" "g_settings demo_globals = default_settings"
    by (simp_all add: demo_core1_def demo_globals_def)
  obtain old flash_old where l: "load_settings (env_dev demo_core1) (mem_after demo_core1) (g_settings demo_globals) (\<lambda>_. 0xFF) = Inr (old, flash_old)"
    using load_settings_total [OF nor_flash_ok, of "replicate 212 0" default_settings "\<lambda>_. 0xFF"] e by auto
  let ?v = "fold (\<lambda>(k, v). update_field k (firmware_value v)) (form_pairs (concat ?cs))
    (settings_view (\<lparr> mqtt_settings = old, settings_changed = False \<rparr>))"
  have p: "form_pairs (concat ?cs) = [(chars ''wifi_ssid'', chars ''home'')]" by code_simp
  have v: "fold (\<lambda>(k, v). update_field k (firmware_value v)) [(chars ''wifi_ssid'', chars ''home'')] (m, ch) = (m(''wifi_ssid'' := chars ''home''), True)" for m ch
    by (simp add: update_field_known field_names_def acceptable_def sizes firmware_value_def, simp add: chars_def)
  have sv: "snd ?v" "fst ?v ''wifi_ssid'' = chars ''home''" unfolding p using v by (metis fst_conv fun_upd_same snd_conv surj_pair)+
  have "\<exists>fl' s' st. core1_entry sdk_queue demo_core1 (\<lambda>_. 0xFF) demo_globals = Inr (Some (Ap_Ended True fl' s')) \<and>
    (\<forall>mem. load_settings (env_dev demo_core1) (mem_after demo_core1) mem fl' = Inr (st, fl')) \<and>
    fst (settings_view (\<lparr> mqtt_settings = st, settings_changed = False \<rparr>)) = fst ?v"
    by (rule device_reconfigured [OF sdk.data_queue_axioms, where v = ?v and cs = ?cs and quiet = "[[], [Sensor_Text (replicate 128 0) 1], []]" and n = 14 and uri = "replicate 64 0" and ulen = 64 and evs = "[]" and rounds = "[]" and old = old and flash_old = flash_old])
      (use sv l nor_flash_ok in \<open>simp_all add: demo_core1_def demo_globals_def chars_def MAX_POST_DATA_LEN_def initial_sensor_data_def NUMBER_OF_SENSOR_TOPICS_def sensor_topics_def\<close>)
  then show ?thesis using sv(2) e by metis
qed

section \<open>From the wire to the broker\<close>

text \<open>C3: What the sensor sends on its line is what the broker gets. In an iteration of the sensor core the state machine and the channel
  that the driver starts receive the sensor's signal for five bytes with a right checksum; the next due round of the
  connected station publishes, under the client identifier and the sensor's topic, the JSON object with exactly the humidity and the
  temperature these bytes encode.\<close>

theorem signal_published:
  fixes contents :: "'q \<Rightarrow> queue_entry_t list" and ms :: "(devices sensor_world, 'q) main_state"
  assumes "data_queue ops contents room" "contents (m_queue ms) = []" "0 < room" "room < k"
    and "m_sensors ms = [dht11_sensor\<lparr>custom_data := Some (Dht_Obj d), disconnected := False, sw_topic_data := t\<rparr>]"
    and "pio d \<noteq> None" "model d = DHT11" "\<not> sm_on d" "length t = 128" "0 \<in> set t"
    and "w = m_world ms" "answering (answers w)" "\<not> reset_core ms"
    and "dht_start_measurement dht_start_signal_clocks_per_loop dht_pulse_measurement_clocks_per_loop (w_clock w (w_round w)) d = Inr (d1, hw)"
    and "dht_sends DHT11 [b0, b1, b2, b3, b4] levels" "b4 = b0 + b1 + b2 + b3"
    and "env = w_dht w (w_round w)" "received env = snd (dht_run levels (fold dht_sm_op hw sm0, []))" "busy_after env \<longleftrightarrow> length (received env) < 5"
    and "table_ok (st_table s)" "control_inv (st_control s)" "st_client s = Some c" "client_ok c" "is_connected c"
    and "st_timeout s \<le> now e" "\<And>n. pub_env e n = ((True, True, True), ERR_OK)" "length (full_topic_mem e) = 108"
    and "c_str (tls_mqtt_client_id (settings c)) = Inr cid"
  shows "\<exists>ms' s'. main_iteration ops ms = Inr (Some (False, ms')) \<and>
    sta_tick ops k e (s\<lparr>st_queue := m_queue ms'\<rparr>) = Inr (Some s') \<and>
    (cid @ chars ''/r_hum'' @ [0],
     chars ''{\"r_humidity\":'' @ hundredths (100 * unat b0 + 10 * unat b1) @ chars '',\"r_temperature\":'' @
       hundredths (if b3 AND 0x80 \<noteq> 0 then 0 else 100 * unat b2 + 10 * unat (b3 AND 0x7F)) @ chars ''}'')
    \<in> set (mqtt_publishes (drop (length (st_calls s)) (st_calls s')))"
proof -
  let ?bs = "[b0, b1, b2, b3, b4]"
  let ?text = "chars ''{\"r_humidity\":'' @ hundredths (100 * unat b0 + 10 * unat b1) @ chars '',\"r_temperature\":'' @
       hundredths (if b3 AND 0x80 \<noteq> 0 then 0 else 100 * unat b2 + 10 * unat (b3 AND 0x7F)) @ chars ''}''"
  have hw: "hw = configure_dma_channel (dma_chan d) @
      dht_program_init dht_start_signal_clocks_per_loop dht_pulse_measurement_clocks_per_loop (dht_t.sm d) (model d)"
    using assms(6,8,14) by (simp add: dht_start_measurement_def assertE_def)
  obtain n x y where "dht_run levels (fold dht_sm_op hw sm0, []) = conf n x y 25 (0, 0, ?bs)"
    using dht_bytes_received [OF assms(15)] by (auto simp: hw started assms(7))
  then have rec: "received env = ?bs" "\<not> busy_after env" using assms(18,19) by (simp_all add: conf_def)
  from dht_round_text [OF assms(12,6-9) refl] obtain s1 w1 where
    s1: "sensor_round (m_sensors ms) w = Inr (Some ([s1], w1))" "\<not> disconnected s1" "c_str (sw_topic_data s1) = Inr ?text"
    unfolding assms(17) [symmetric] dht_text_digits [OF rec(1)] assms(5) using rec(2) assms(16) by auto
  have rest: "list_all resting (m_sensors ms)" "length (m_sensors ms) \<le> room" "length (m_sensors ms) \<le> 4"
    using assms(3,5-10) by (simp_all add: resting_def dht_driver.at_rest_def dht_driver.driven_def sensor_with_def dht_idle_def dht11_sensor_def)
  obtain ms' s' w2 where p: "main_iteration ops ms = Inr (Some (False, ms'))" "sta_tick ops k e (s\<lparr>st_queue := m_queue ms'\<rparr>) = Inr (Some s')"
    "sensor_round (m_sensors ms) w = Inr (Some (m_sensors ms', w2))"
    "\<forall>i < length (m_sensors ms'). disconnected (m_sensors ms' ! i) \<or>
       (\<exists>t tn. c_str (sw_topic_data (m_sensors ms' ! i)) = Inr t \<and> (dht_says t \<or> ds_says t) \<and> c_str (sensor_topics ! i) = Inr tn \<and>
          (cid @ 47 # tn @ [0], t) \<in> set (mqtt_publishes (drop (length (st_calls s)) (st_calls s'))))"
    using iteration_published [OF assms(1,2) rest assms(12) [unfolded assms(11)] assms(13,4,20-28)] assms(11) by blast
  have "m_sensors ms' = [s1]" using p(3) s1(1) by simp
  with p(4) s1(2,3) have "\<exists>tn. c_str (sensor_topics ! 0) = Inr tn \<and> (cid @ 47 # tn @ [0], ?text) \<in> set (mqtt_publishes (drop (length (st_calls s)) (st_calls s')))" by auto
  moreover have "c_str (sensor_topics ! 0) = Inr (chars ''r_hum'')" using sensor_topic_names [of 0] by simp
  moreover have "chars ''/r_hum'' = 47 # chars ''r_hum''" by code_simp
  ultimately show ?thesis using p(1,2) by auto
qed

text \<open>A sensor at 45.3 per cent and 21.8 degrees.\<close>

definition wired_dht :: dht_t where
  "wired_dht = demo_dht\<lparr>sm_on := False\<rparr>"

definition wired_hw :: "dht_hw list" where
  "wired_hw = configure_dma_channel (dma_chan wired_dht) @
     dht_program_init dht_start_signal_clocks_per_loop dht_pulse_measurement_clocks_per_loop (dht_t.sm wired_dht) DHT11"

definition wired_world :: "devices sensor_world" where
  "wired_world = demo_world\<lparr>w_dht := (\<lambda>_. \<lparr> polls = [(False, 0)], busy_after = False,
     received = snd (dht_run (demo_levels [45, 3, 21, 8, 77]) (fold dht_sm_op wired_hw dht_sm_reset, [])) \<rparr>)\<rparr>"

lemma wired_received: "snd (dht_run (demo_levels [45, 3, 21, 8, 77]) (fold dht_sm_op wired_hw dht_sm_reset, [])) = [45, 3, 21, 8, 77]"
  using dht_bytes_received [OF demo_sends, of "[45, 3, 21, 8, 77]"] by (auto simp: wired_hw_def started conf_def)

definition wired_main :: "(devices sensor_world, queue_entry_t list) main_state" where
  "wired_main = \<lparr> m_sensors = [dht11_sensor\<lparr>custom_data := Some (Dht_Obj wired_dht), disconnected := False, sw_topic_data := replicate 128 0\<rparr>],
     m_world = wired_world, m_queue = [], reset_core = False \<rparr>"

theorem signal_published_witness:
  "\<exists>ms' s'. main_iteration sdk_queue wired_main = Inr (Some (False, ms')) \<and>
    sta_tick sdk_queue 11 (demo_tick 200) (demo_station\<lparr>st_queue := m_queue ms'\<rparr>) = Inr (Some s') \<and>
    (chars ''PicoWClient1/r_hum'' @ [0], chars ''{\"r_humidity\":45.30,\"r_temperature\":21.80}'')
    \<in> set (mqtt_publishes (drop (length (st_calls demo_station)) (st_calls s')))"
proof -
  have d: "pio wired_dht \<noteq> None" "model wired_dht = DHT11" "\<not> sm_on wired_dht" by (simp_all add: wired_dht_def demo_dht_def)
  have m: "m_queue wired_main = []" "(0 :: nat) < 10" "(10 :: nat) < 11" "\<not> reset_core wired_main"
    "m_sensors wired_main = [dht11_sensor\<lparr>custom_data := Some (Dht_Obj wired_dht), disconnected := False, sw_topic_data := replicate 128 0\<rparr>]"
    "wired_world = m_world wired_main" by (simp_all add: wired_main_def)
  have a: "answering (answers wired_world)" using demo_answering by (simp add: answering_def answers_def wired_world_def demo_world_def)
  obtain d1 where st: "dht_start_measurement dht_start_signal_clocks_per_loop dht_pulse_measurement_clocks_per_loop (w_clock wired_world (w_round wired_world)) wired_dht = Inr (d1, wired_hw)"
    using d by (simp add: dht_start_measurement_def assertE_def wired_hw_def)
  let ?env = "w_dht wired_world (w_round wired_world)"
  have e: "received ?env = snd (dht_run (demo_levels [45, 3, 21, 8, 77]) (fold dht_sm_op wired_hw dht_sm_reset, []))"
    "busy_after ?env \<longleftrightarrow> length (received ?env) < 5" using wired_received by (simp_all add: wired_world_def)
  have t: "length (replicate 128 (0 :: u8)) = 128" "(0 :: u8) \<in> set (replicate 128 0)" "(77 :: u8) = 45 + 3 + 21 + 8" by simp_all
  have cl: "is_connected demo_client" "c_str (tls_mqtt_client_id (settings demo_client)) = Inr (chars ''PicoWClient1'')"
    by (simp_all add: demo_client_def default_settings_def PICO_HOSTNAME_def) (code_simp+)
  have s: "table_ok (st_table demo_station)" "control_inv (st_control demo_station)" "st_client demo_station = Some demo_client"
    "st_timeout demo_station \<le> now (demo_tick 200)"
    using table_ok_boot boot_inv by (simp_all add: demo_station_def sta_boot_def demo_tick_def)
  have c: "client_ok demo_client" using default_usable demo_client_wf by (simp add: client_ok_def usable_settings_def demo_client_def)
  have k: "pub_env (demo_tick 200) n = ((True, True, True), ERR_OK)" "length (full_topic_mem (demo_tick 200)) = 108" for n
    by (simp_all add: demo_tick_def)
  have "hundredths (100 * unat (45 :: u8) + 10 * unat (3 :: u8)) = chars ''45.30''"
    "hundredths (if (8 :: u8) AND 0x80 \<noteq> 0 then 0 else 100 * unat (21 :: u8) + 10 * unat (8 AND 0x7F :: u8)) = chars ''21.80''"
    by (simp_all add: hundredths_def decimal.simps chars_def)
  with signal_published [OF sdk.data_queue_axioms m(1-3,5) d t(1,2) m(6) a m(4) st demo_sends t(3) refl e s(1-3) c cl(1) s(4) k cl(2)]
  show ?thesis by (simp add: chars_def)
qed

end
